(* ===== verification/Chdb_Prelude.thy ===== *)
theory Chdb_Prelude
  imports Main "HOL-Library.Word" "HOL-Library.Sublist"
begin

text \<open>
  Shared vocabulary of the development: the PostgreSQL error report as a value, the
  error monad the components are written in, the C string functions the sources call
  (\<open>strchr\<close>, \<open>strstr\<close>, \<open>strncmp\<close>, decimal conversion) and the generic lemmas about them.
  A C string is a \<open>string\<close> without a NUL byte and a buffer is a \<open>string\<close> (a \<open>char\<close> is one
  byte); a pointer into a string is an offset.
\<close>

named_theorems error_simps \<open>rewriting of the error monad\<close>
named_theorems cstring_simps \<open>facts on the C string functions\<close>

section \<open>Error reports\<close>

text \<open>The SQLSTATE classes that the sources pass to \<open>errcode\<close>.\<close>

datatype sqlstate =
    ERRCODE_INVALID_PARAMETER_VALUE
  | ERRCODE_INVALID_NAME
  | ERRCODE_FEATURE_NOT_SUPPORTED
  | ERRCODE_SYNTAX_ERROR
  | ERRCODE_INSUFFICIENT_PRIVILEGE
  | ERRCODE_WRONG_OBJECT_TYPE
  | ERRCODE_DUPLICATE_TABLE
  | ERRCODE_BAD_COPY_FILE_FORMAT
  | ERRCODE_EXTERNAL_ROUTINE_EXCEPTION
  | ERRCODE_PROGRAM_LIMIT_EXCEEDED
  | ERRCODE_FDW_INVALID_STRING_FORMAT
  | ERRCODE_INTERNAL_ERROR
  | ERRCODE_READ_ONLY_SQL_TRANSACTION
  | ERRCODE_QUERY_CANCELED
  | errcode_for_socket_access
  | errcode_for_file_access

text \<open>What \<open>ereport(ERROR, ...)\<close> carries to the client.\<close>

record pg_error =
  errcode :: sqlstate
  errmsg :: string
  errdetail :: "string option"
  errhint :: "string option"
  errcontext :: "string option"

definition ereport :: "sqlstate \<Rightarrow> string \<Rightarrow> pg_error" where
  "ereport code msg = \<lparr>errcode = code, errmsg = msg, errdetail = None, errhint = None, errcontext = None\<rparr>"

lemma ereport_sel [simp]:
  "errcode (ereport c m) = c" "errmsg (ereport c m) = m"
  "errdetail (ereport c m) = None" "errhint (ereport c m) = None" "errcontext (ereport c m) = None"
  by (simp_all add: ereport_def)

section \<open>The error monad\<close>

text \<open>\<open>Inl\<close> is a raised error, \<open>Inr\<close> a returned value; an error ends the computation.\<close>

definition bindE :: "'e + 'a \<Rightarrow> ('a \<Rightarrow> 'e + 'b) \<Rightarrow> 'e + 'b" where
  "bindE m f = (case m of Inl e \<Rightarrow> Inl e | Inr x \<Rightarrow> f x)"

definition guardE :: "bool \<Rightarrow> 'e \<Rightarrow> 'e + unit" where
  "guardE b e = (if b then Inr () else Inl e)"

lemma bindE_simps [simp, error_simps]:
  "bindE (Inl e) f = Inl e" "bindE (Inr x) f = f x"
  by (simp_all add: bindE_def)

lemma bindE_assoc: "bindE (bindE m f) g = bindE m (\<lambda>x. bindE (f x) g)"
  by (cases m) simp_all

lemma bindE_eq_Inr [error_simps]:
  "bindE m f = Inr y \<longleftrightarrow> (\<exists>x. m = Inr x \<and> f x = Inr y)"
  by (cases m) simp_all

lemma bindE_eq_Inl [error_simps]:
  "bindE m f = Inl e \<longleftrightarrow> m = Inl e \<or> (\<exists>x. m = Inr x \<and> f x = Inl e)"
  by (cases m) auto

lemma guardE_eq_Inr [simp, error_simps]: "guardE b e = Inr u \<longleftrightarrow> b"
  by (simp add: guardE_def)

lemma guardE_eq_Inl [simp, error_simps]: "guardE b e = Inl e' \<longleftrightarrow> \<not> b \<and> e' = e"
  by (auto simp: guardE_def)

lemma guardE_simps [simp]: "guardE True e = Inr ()" "guardE False e = Inl e"
  by (simp_all add: guardE_def)

lemma bindE_guardE [simp]: "bindE (guardE b e) f = (if b then f () else Inl e)"
  by (simp add: guardE_def)

section \<open>C strings\<close>

text \<open>\<open>strchr(s, c)\<close>: the offset of the first \<open>c\<close>, or \<open>None\<close> for NULL.\<close>

fun strchr :: "string \<Rightarrow> char \<Rightarrow> nat option" where
  "strchr [] c = None"
| "strchr (x # xs) c = (if x = c then Some 0 else map_option Suc (strchr xs c))"

text \<open>\<open>strstr(s, n)\<close>: the offset of the first occurrence of \<open>n\<close>, or \<open>None\<close> for NULL.\<close>

fun strstr :: "string \<Rightarrow> string \<Rightarrow> nat option" where
  "strstr [] n = (if n = [] then Some 0 else None)"
| "strstr (x # xs) n = (if prefix n (x # xs) then Some 0 else map_option Suc (strstr xs n))"

text \<open>\<open>strncmp(s, t, strlen(t)) == 0\<close>: \<open>s\<close> begins with \<open>t\<close>.\<close>

definition starts_with :: "string \<Rightarrow> string \<Rightarrow> bool" where
  "starts_with s t \<longleftrightarrow> take (length t) s = t"

lemma starts_with_iff [cstring_simps]: "starts_with s t \<longleftrightarrow> (\<exists>r. s = t @ r)"
  unfolding starts_with_def by (metis append_eq_conv_conj append_take_drop_id)

lemma strchr_None [cstring_simps]: "strchr s c = None \<longleftrightarrow> c \<notin> set s"
  by (induction s) auto

lemma strchr_Some_split:
  "strchr s c = Some i \<longleftrightarrow> i < length s \<and> s ! i = c \<and> c \<notin> set (take i s)"
proof (induction s arbitrary: i)
  case (Cons x xs)
  then show ?case by (cases i) auto
qed simp

lemma strchr_SomeD:
  assumes "strchr s c = Some i"
  shows "s = take i s @ c # drop (Suc i) s" "c \<notin> set (take i s)" "i < length s"
  using assms by (auto simp: strchr_Some_split id_take_nth_drop)

lemma strchr_append [simp]: "c \<notin> set a \<Longrightarrow> strchr (a @ c # b) c = Some (length a)"
  by (induction a) auto

lemma strstr_Some_split:
  "strstr s n = Some i \<Longrightarrow> s = take i s @ n @ drop (i + length n) s \<and> i + length n \<le> length s"
proof (induction s arbitrary: i)
  case Nil
  then show ?case by (simp split: if_splits)
next
  case (Cons x xs)
  show ?case
  proof (cases "prefix n (x # xs)")
    case True
    with Cons.prems have "i = 0" by simp
    moreover from True have "length n \<le> length (x # xs)" by (rule prefix_length_le)
    ultimately show ?thesis using True by (auto simp: prefix_def)
  next
    case False
    with Cons.prems obtain j where "strstr xs n = Some j" "i = Suc j" by auto
    with Cons.IH show ?thesis by simp
  qed
qed

lemma strstr_first:
  "strstr s n = Some i \<Longrightarrow> j < i \<Longrightarrow> \<not> prefix n (drop j s)"
proof (induction s arbitrary: i j)
  case (Cons x xs)
  then show ?case by (cases j) (auto split: if_splits)
qed (simp split: if_splits)

lemma strstr_None: "strstr s n = None \<longleftrightarrow> (\<forall>j \<le> length s. \<not> prefix n (drop j s))"
proof (induction s)
  case Nil
  then show ?case by simp
next
  case (Cons x xs)
  have "(\<forall>j \<le> length (x # xs). \<not> prefix n (drop j (x # xs)))
    \<longleftrightarrow> \<not> prefix n (x # xs) \<and> (\<forall>j \<le> length xs. \<not> prefix n (drop j xs))"
    by (metis Suc_le_mono drop0 drop_Suc_Cons le0 length_Cons not0_implies_Suc)
  with Cons.IH show ?case by simp
qed

text \<open>The first character of the needle cannot occur earlier, so neither can the needle.\<close>

lemma strstr_append [simp]:
  "c \<notin> set a \<Longrightarrow> strstr (a @ (c # n) @ b) (c # n) = Some (length a)"
  by (induction a) auto

section \<open>Decimal conversion\<close>

text \<open>\<open>%u\<close>, \<open>%zu\<close> and the \<open>PRIu\<close> conversions.\<close>

definition digit_char :: "nat \<Rightarrow> char" where
  "digit_char d = char_of (48 + d)"

fun dec :: "nat \<Rightarrow> string" where
  "dec n = (if n < 10 then [digit_char n] else dec (n div 10) @ [digit_char (n mod 10)])"

declare dec.simps [simp del]

definition undec :: "string \<Rightarrow> nat" where
  "undec s = foldl (\<lambda>a c. 10 * a + (of_char c - 48)) 0 s"

lemma undec_dec: "undec (dec n) = n"
proof (induction n rule: dec.induct)
  case (1 n)
  have d: "of_char (digit_char k) - 48 = k" if "k < 10" for k :: nat
    using that by (simp add: digit_char_def)
  show ?case
  proof (cases "n < 10")
    case True
    then show ?thesis by (simp add: dec.simps [of n] undec_def d)
  next
    case False
    with 1 have "undec (dec (n div 10)) = n div 10" by simp
    with False show ?thesis by (simp add: dec.simps [of n] undec_def d)
  qed
qed

lemma dec_inj: "dec m = dec n \<Longrightarrow> m = n"
  by (metis undec_dec)

lemma dec_nonempty [simp]: "dec n \<noteq> []"
  by (subst dec.simps) simp

lemma set_dec: "set (dec n) \<subseteq> digit_char ` {..<10}"
proof (induction n rule: dec.induct)
  case (1 n)
  then show ?case by (cases "n < 10") (auto simp: dec.simps [of n])
qed

lemma dec_length_le: "n < 10 ^ Suc k \<Longrightarrow> length (dec n) \<le> Suc k"
proof (induction k arbitrary: n)
  case 0
  then show ?case by (simp add: dec.simps)
next
  case (Suc k)
  then have "n div 10 < 10 ^ Suc k" by (simp add: less_mult_imp_div_less)
  from Suc.IH [OF this] show ?case by (subst dec.simps) simp
qed

section \<open>Machine words\<close>

lemma unat_of_nat_u16 [simp]: "n < 65536 \<Longrightarrow> unat (of_nat n :: 16 word) = n"
  by (simp add: unat_of_nat)

lemma unat_of_nat_u32 [simp]: "n < 4294967296 \<Longrightarrow> unat (of_nat n :: 32 word) = n"
  by (simp add: unat_of_nat)

lemma unat_less_u16: "unat (w :: 16 word) < 65536"
proof -
  have "unat w < 2 ^ LENGTH(16)" by (rule unsigned_less)
  then show ?thesis by simp
qed

lemma unat_less_u32: "unat (w :: 32 word) < 4294967296"
proof -
  have "unat w < 2 ^ LENGTH(32)" by (rule unsigned_less)
  then show ?thesis by simp
qed

end
