(* ===== verification/Posix_Channel.thy ===== *)
theory Posix_Channel
  imports Chdb_Prelude
begin

text \<open>
  The pipes and sockets between the backend and the helper. The operating system's answers
  to \<open>read\<close>, \<open>write\<close> and \<open>waitpid\<close> are a script of events that the loops of the sources
  consume; a loop whose script runs dry has not returned yet. A \<open>read\<close> never returns more
  than it was asked for and a \<open>write\<close> may accept fewer bytes than it was given, so both
  partial transfers and interruptions are part of the model. The locale \<open>byte_sink\<close> is the
  contract of an operation that appends bytes to an ordered stream.
\<close>

section \<open>System calls\<close>

datatype errno = EINTR | EAGAIN | EWOULDBLOCK | EPIPE | EBADF | EOther nat

datatype read_event = Data char string | Eof | ReadErr errno

datatype read_result = Got string | GotEof | GotErr errno

text \<open>
  \<open>read(fd, buf, n)\<close>: at most \<open>n\<close> of the bytes that are there; what was not taken stays
  in the channel. The end of the stream is sticky. \<open>None\<close>: the call has not returned.
\<close>

fun sys_read :: "nat \<Rightarrow> read_event list \<Rightarrow> (read_result \<times> read_event list) option" where
  "sys_read n [] = None"
| "sys_read n (Data c cs # es) =
     (if n = 0 then Some (GotEof, Data c cs # es)
      else Some (Got (c # take (n - 1) cs),
        (case drop (n - 1) cs of [] \<Rightarrow> es | d # ds \<Rightarrow> Data d ds # es)))"
| "sys_read n (Eof # es) = Some (GotEof, Eof # es)"
| "sys_read n (ReadErr e # es) = Some (GotErr e, es)"

datatype write_event = Accept nat | WriteErr errno

datatype write_result = Put nat | PutErr errno

text \<open>\<open>write(fd, bs, len)\<close> accepts between one byte and all of them.\<close>

fun sys_write :: "string \<Rightarrow> write_event list \<Rightarrow> (write_result \<times> write_event list) option" where
  "sys_write bs [] = None"
| "sys_write bs (Accept n # es) = Some (Put (min (Suc n) (length bs)), es)"
| "sys_write bs (WriteErr e # es) = Some (PutErr e, es)"

section \<open>What a read script delivers\<close>

text \<open>The bytes that precede the first end of stream, and what ends a retry loop.\<close>

fun stream_bytes :: "read_event list \<Rightarrow> string" where
  "stream_bytes [] = []"
| "stream_bytes (Data c cs # es) = c # cs @ stream_bytes es"
| "stream_bytes (Eof # es) = []"
| "stream_bytes (ReadErr e # es) = stream_bytes es"

text \<open>The script reaches its end of stream with no error but the listed ones.\<close>

fun clean_stream :: "errno set \<Rightarrow> read_event list \<Rightarrow> bool" where
  "clean_stream E [] = False"
| "clean_stream E (Data c cs # es) = clean_stream E es"
| "clean_stream E (Eof # es) = True"
| "clean_stream E (ReadErr e # es) = (e \<in> E \<and> clean_stream E es)"

fun event_size :: "read_event \<Rightarrow> nat" where
  "event_size (Data c cs) = Suc (length cs)"
| "event_size Eof = 1"
| "event_size (ReadErr e) = 1"

definition read_size :: "read_event list \<Rightarrow> nat" where
  "read_size es = sum_list (map event_size es)"

lemma read_size_simps [simp]:
  "read_size [] = 0" "read_size (e # es) = event_size e + read_size es"
  by (simp_all add: read_size_def)

lemma sys_read_Got_size:
  "sys_read n es = Some (Got bs, es') \<Longrightarrow> read_size es' < read_size es"
  by (induction n es rule: sys_read.induct)
    (auto split: if_splits list.splits dest: arg_cong [of _ _ length])

lemma sys_read_Err_size:
  "sys_read n es = Some (GotErr e, es') \<Longrightarrow> read_size es' < read_size es"
  by (induction n es rule: sys_read.induct) (auto split: if_splits)

lemma sys_read_Got:
  assumes "sys_read n es = Some (Got bs, es')"
  shows "stream_bytes es = bs @ stream_bytes es'" "bs \<noteq> []" "length bs \<le> n"
    "clean_stream E es' = clean_stream E es"
  using assms
proof (induction n es rule: sys_read.induct)
  case (2 n c cs es)
  {
    case 1
    then show ?case
      by (auto split: if_splits list.splits) (metis append_take_drop_id)+
  next
    case 2
    then show ?case by (auto split: if_splits)
  next
    case 3
    then show ?case by (auto split: if_splits)
  next
    case 4
    then show ?case by (auto split: if_splits list.splits)
  }
qed auto

lemma sys_read_Eof:
  "sys_read n es = Some (GotEof, es') \<Longrightarrow> 0 < n \<Longrightarrow> stream_bytes es = [] \<and> es' = es"
  by (induction n es rule: sys_read.induct) auto

lemma sys_read_Err:
  "sys_read n es = Some (GotErr e, es') \<Longrightarrow> stream_bytes es' = stream_bytes es
     \<and> clean_stream E es = (e \<in> E \<and> clean_stream E es')"
  by (induction n es rule: sys_read.induct) (auto split: if_splits)

lemma sys_read_clean: "clean_stream E es \<Longrightarrow> \<exists>r es'. sys_read n es = Some (r, es')"
  by (induction n es rule: sys_read.induct) auto

lemma sys_write_Put:
  "sys_write bs es = Some (Put k, es') \<Longrightarrow> k \<le> length bs \<and> (bs \<noteq> [] \<longrightarrow> 0 < k) \<and> length es' < length es"
  by (induction bs es rule: sys_write.induct) auto

lemma sys_write_Err: "sys_write bs es = Some (PutErr e, es') \<Longrightarrow> length es' < length es"
  by (induction bs es rule: sys_write.induct) auto

section \<open>Computations that may raise or wait\<close>

text \<open>
  A backend operation returns, raises an error (leaving the state for the cleanup that
  follows), or is still waiting for the other side.
\<close>

datatype ('a, 's) outcome = Return 'a 's | Raise pg_error 's | Waiting

definition bindO :: "('a, 's) outcome \<Rightarrow> ('a \<Rightarrow> 's \<Rightarrow> ('b, 's) outcome) \<Rightarrow> ('b, 's) outcome" where
  "bindO m f = (case m of Return x s \<Rightarrow> f x s | Raise e s \<Rightarrow> Raise e s | Waiting \<Rightarrow> Waiting)"

lemma bindO_simps [simp, error_simps]:
  "bindO (Return x s) f = f x s" "bindO (Raise e s) f = Raise e s" "bindO Waiting f = Waiting"
  by (simp_all add: bindO_def)

lemma bindO_eq_Return [error_simps]:
  "bindO m f = Return y t \<longleftrightarrow> (\<exists>x s. m = Return x s \<and> f x s = Return y t)"
  by (cases m) simp_all

lemma bindO_eq_Raise [error_simps]:
  "bindO m f = Raise e t \<longleftrightarrow> m = Raise e t \<or> (\<exists>x s. m = Return x s \<and> f x s = Raise e t)"
  by (cases m) auto

text \<open>Running an operation over a list of arguments, in order.\<close>

fun each :: "('b \<Rightarrow> 's \<Rightarrow> (unit, 's) outcome) \<Rightarrow> 'b list \<Rightarrow> 's \<Rightarrow> (unit, 's) outcome" where
  "each f [] s = Return () s"
| "each f (x # xs) s = bindO (f x s) (\<lambda>_. each f xs)"

section \<open>The contract of an ordered byte stream\<close>

text \<open>
  \<open>put\<close> appends its bytes to the stream \<open>out\<close>; \<open>sent\<close> is the part of it that has left the
  process, which lags behind when the operation buffers. When \<open>put\<close> raises, what has left is
  the head of everything put so far: nothing is reordered, duplicated or invented.
\<close>

locale byte_sink =
  fixes put :: "string \<Rightarrow> 's \<Rightarrow> (unit, 's) outcome"
    and out :: "'s \<Rightarrow> string"
    and sent :: "'s \<Rightarrow> string"
    and inv :: "'s \<Rightarrow> bool"
  assumes put_Return: "inv s \<Longrightarrow> put bs s = Return u t \<Longrightarrow> out t = out s @ bs \<and> inv t"
    and put_Raise: "inv s \<Longrightarrow> put bs s = Raise e t \<Longrightarrow> prefix (sent t) (out s @ bs)"
begin

lemma each_Return:
  "inv s \<Longrightarrow> each put xs s = Return u t \<Longrightarrow> out t = out s @ concat xs \<and> inv t"
proof (induction xs arbitrary: s)
  case (Cons x xs)
  then obtain v r where "put x s = Return v r" "each put xs r = Return u t"
    by (auto simp: bindO_eq_Return)
  with Cons.IH [of r] Cons.prems(1) put_Return [of s x v r] show ?case by simp
qed simp

lemma each_Raise:
  "inv s \<Longrightarrow> each put xs s = Raise e t \<Longrightarrow> prefix (sent t) (out s @ concat xs)"
proof (induction xs arbitrary: s)
  case (Cons x xs)
  from Cons.prems(2) consider "put x s = Raise e t"
    | v r where "put x s = Return v r" "each put xs r = Raise e t"
    by (auto simp: bindO_eq_Raise)
  then show ?case
  proof cases
    case 1
    with put_Raise [OF Cons.prems(1)] have "prefix (sent t) (out s @ x)" by blast
    then have "prefix (sent t) ((out s @ x) @ concat xs)" by (rule prefix_prefix)
    then show ?thesis by simp
  next
    case 2
    with Cons.IH [of r] Cons.prems(1) put_Return [of s x v r] show ?thesis by simp
  qed
qed simp

end

end
