(* ===== verification/Wire_Setup.thy ===== *)
theory Wire_Setup
  imports Posix_Channel
begin

text \<open>
  The setup payload of \<open>src/setup.h\<close>: the backend builds it (\<open>append_string\<close> and
  \<open>build_setup\<close> of \<open>src/helper.c\<close>), the helper collects it from descriptor 3
  (\<open>read_setup\<close>) and parses it with a cursor (\<open>take1\<close>, \<open>take2\<close>, \<open>take_str\<close> and the head
  of \<open>main\<close> in \<open>src/helper/chdb_helper.c\<close>). Fields are native endian, so both directions
  take the byte order as an argument. The locale \<open>codec\<close> is the contract between an
  appended field and the cursor operation that takes it back.
\<close>

section \<open>Data\<close>

datatype endian = Little | Big

text \<open>\<open>chdbCmdType\<close> and its three values.\<close>

abbreviation CHDB_CMD_SELECT :: char where "CHDB_CMD_SELECT \<equiv> CHR ''S''"
abbreviation CHDB_CMD_INSERT :: char where "CHDB_CMD_INSERT \<equiv> CHR ''I''"
abbreviation CHDB_CMD_DESCRIBE :: char where "CHDB_CMD_DESCRIBE \<equiv> CHR ''D''"

record chdbHelperContext =
  cmd :: char
  max_memory :: "16 word"
  max_threads :: "16 word"
  max_parsers :: "16 word"

definition CHDB_SETUP_MAX :: nat where
  "CHDB_SETUP_MAX = 16 * 1024 * 1024"

text \<open>What the helper knows after parsing: the command, the settings, the session time
  zone, the query and its named parameters.\<close>

record setup_request =
  req_ctx :: chdbHelperContext
  req_timezone :: string
  req_query :: string
  req_params :: "(string \<times> string) list"

section \<open>Integers in memory\<close>

fun le_bytes :: "nat \<Rightarrow> nat \<Rightarrow> string" where
  "le_bytes 0 n = []"
| "le_bytes (Suc k) n = char_of n # le_bytes k (n div 256)"

fun le_val :: "string \<Rightarrow> nat" where
  "le_val [] = 0"
| "le_val (c # cs) = of_char c + 256 * le_val cs"

definition mem_bytes :: "endian \<Rightarrow> nat \<Rightarrow> nat \<Rightarrow> string" where
  "mem_bytes e k n = (case e of Little \<Rightarrow> le_bytes k n | Big \<Rightarrow> rev (le_bytes k n))"

definition mem_val :: "endian \<Rightarrow> string \<Rightarrow> nat" where
  "mem_val e s = (case e of Little \<Rightarrow> le_val s | Big \<Rightarrow> le_val (rev s))"

definition u16_bytes :: "endian \<Rightarrow> 16 word \<Rightarrow> string" where
  "u16_bytes e w = mem_bytes e 2 (unat w)"

definition u32_bytes :: "endian \<Rightarrow> 32 word \<Rightarrow> string" where
  "u32_bytes e w = mem_bytes e 4 (unat w)"

section \<open>The backend builds the payload\<close>

text \<open>
  \<open>append_string\<close>: the length is cast to \<open>uint32_t\<close>, and that many bytes follow it.
\<close>

definition append_string :: "endian \<Rightarrow> string \<Rightarrow> string \<Rightarrow> string" where
  "append_string e buf str =
     (let len = (of_nat (length str) :: 32 word)
      in buf @ u32_bytes e len @ take (unat len) str)"

fun append_params :: "endian \<Rightarrow> string \<Rightarrow> (string \<times> string) list \<Rightarrow> string" where
  "append_params e buf [] = buf"
| "append_params e buf ((name, val) # ps) =
     append_params e (append_string e (append_string e buf name) val) ps"

text \<open>
  \<open>build_setup\<close>, with the result of \<open>pgch_session_timezone()\<close> as the argument \<open>tz\<close>. The
  parallel arrays \<open>names\<close> and \<open>values\<close> of length \<open>nparams\<close> are one list of pairs. A payload
  that does not fit into a \<open>StringInfo\<close> of a gigabyte, 64 times the limit, is refused by an append already, with an error of
  PostgreSQL's; here it gets the error of the limit.
\<close>

definition build_setup ::
  "endian \<Rightarrow> string \<Rightarrow> chdbHelperContext \<Rightarrow> string \<Rightarrow> (string \<times> string) list \<Rightarrow> pg_error + string"
where
  "build_setup e tz ctx query params =
     (let buf = [cmd ctx] @ u16_bytes e (max_memory ctx) @ u16_bytes e (max_threads ctx)
            @ u16_bytes e (max_parsers ctx);
          buf = append_string e buf tz;
          buf = append_string e buf query;
          buf = buf @ u16_bytes e (of_nat (length params));
          buf = append_params e buf params
      in if length buf > CHDB_SETUP_MAX
         then Inl (ereport ERRCODE_PROGRAM_LIMIT_EXCEEDED ''chdb: query is too large to send to chDB'')
         else Inr buf)"

section \<open>The helper reads the payload\<close>

text \<open>
  \<open>read_setup\<close>: a buffer that doubles, refused once it would pass \<open>CHDB_SETUP_MAX\<close>.
  \<open>alloc\<close> says which allocation sizes succeed. A left result is the message \<open>fail\<close>
  prints before it exits with status 1.
\<close>

abbreviation too_large :: string where
  "too_large \<equiv> ''chdb: setup payload is too large''"

abbreviation out_of_memory :: string where
  "out_of_memory \<equiv> ''chdb: out of memory''"

abbreviation unreadable :: string where
  "unreadable \<equiv> ''chdb: could not read the setup payload''"

abbreviation truncated :: string where
  "truncated \<equiv> ''chdb: setup payload is truncated''"

function read_setup_loop ::
  "(nat \<Rightarrow> bool) \<Rightarrow> nat \<Rightarrow> string \<Rightarrow> read_event list \<Rightarrow> (string + string) option"
where
  "read_setup_loop alloc cap buf es =
     (if length buf = cap \<and> 2 * cap > CHDB_SETUP_MAX then Some (Inl too_large)
      else if length buf = cap \<and> \<not> alloc (2 * cap) then Some (Inl out_of_memory)
      else
        (let cap' = (if length buf = cap then 2 * cap else cap)
         in case sys_read (cap' - length buf) es of
              None \<Rightarrow> None
            | Some (Got bs, es') \<Rightarrow> read_setup_loop alloc cap' (buf @ bs) es'
            | Some (GotEof, es') \<Rightarrow> Some (Inr buf)
            | Some (GotErr err, es') \<Rightarrow>
                if err = EINTR then read_setup_loop alloc cap' buf es' else Some (Inl unreadable)))"
  by pat_completeness auto
termination
  by (relation "measure (\<lambda>(alloc, cap, buf, es). read_size es)")
    (auto dest: sys_read_Got_size sys_read_Err_size)

declare read_setup_loop.simps [simp del]

definition read_setup :: "(nat \<Rightarrow> bool) \<Rightarrow> read_event list \<Rightarrow> (string + string) option" where
  "read_setup alloc es =
     (if alloc (64 * 1024) then read_setup_loop alloc (64 * 1024) [] es
      else Some (Inl out_of_memory))"

section \<open>The helper parses the payload\<close>

text \<open>A cursor is the bytes from \<open>at\<close> to \<open>end\<close>.\<close>

fun take1 :: "string \<Rightarrow> string + (char \<times> string)" where
  "take1 [] = Inl truncated"
| "take1 (c # cur) = Inr (c, cur)"

definition take2 :: "endian \<Rightarrow> string \<Rightarrow> string + (16 word \<times> string)" where
  "take2 e cur =
     (if length cur < 2 then Inl truncated
      else Inr (of_nat (mem_val e (take 2 cur)), drop 2 cur))"

definition take_str :: "endian \<Rightarrow> string \<Rightarrow> string + (string \<times> string)" where
  "take_str e cur =
     (if length cur < 4 then Inl truncated
      else
        (let len = (of_nat (mem_val e (take 4 cur)) :: 32 word);
             cur' = drop 4 cur
         in if length cur' < unat len then Inl truncated
            else Inr (take (unat len) cur', drop (unat len) cur')))"

text \<open>One iteration of \<open>main\<close>'s parameter loop, and the loop.\<close>

definition take_param :: "endian \<Rightarrow> string \<Rightarrow> string + ((string \<times> string) \<times> string)" where
  "take_param e cur =
     bindE (take_str e cur) (\<lambda>(name, cur').
     bindE (take_str e cur') (\<lambda>(val, cur'').
     Inr ((name, val), cur'')))"

fun take_many :: "(string \<Rightarrow> 'e + ('a \<times> string)) \<Rightarrow> nat \<Rightarrow> string \<Rightarrow> 'e + ('a list \<times> string)" where
  "take_many t 0 cur = Inr ([], cur)"
| "take_many t (Suc n) cur =
     bindE (t cur) (\<lambda>(x, cur'). bindE (take_many t n cur') (\<lambda>(xs, cur''). Inr (x # xs, cur'')))"

text \<open>
  The head of \<open>main\<close>: the fields in order, then the four arrays of \<open>nalloc\<close> machine words
  and the parameters. Bytes past the last parameter are not looked at.
\<close>

definition parse_setup :: "(nat \<Rightarrow> bool) \<Rightarrow> endian \<Rightarrow> string \<Rightarrow> string + setup_request" where
  "parse_setup alloc e setup =
     bindE (take1 setup) (\<lambda>(cmd_type, cur).
     bindE (take2 e cur) (\<lambda>(max_mem, cur).
     bindE (take2 e cur) (\<lambda>(threads, cur).
     bindE (take2 e cur) (\<lambda>(parsers, cur).
     bindE (take_str e cur) (\<lambda>(timezone, cur).
     bindE (take_str e cur) (\<lambda>(query, cur).
     bindE (take2 e cur) (\<lambda>(npar, cur).
     bindE (guardE (alloc (8 * (if npar = 0 then 1 else unat npar))) out_of_memory) (\<lambda>_.
     bindE (take_many (take_param e) (unat npar) cur) (\<lambda>(par, cur).
     Inr \<lparr>req_ctx = \<lparr>cmd = cmd_type, max_memory = max_mem, max_threads = threads,
                     max_parsers = parsers\<rparr>,
          req_timezone = timezone, req_query = query, req_params = par\<rparr>)))))))))"

section \<open>Memory bytes\<close>

lemma length_le_bytes [simp]: "length (le_bytes k n) = k"
  by (induction k n rule: le_bytes.induct) auto

lemma le_val_le_bytes: "le_val (le_bytes k n) = n mod 256 ^ k"
proof (induction k n rule: le_bytes.induct)
  case (2 k n)
  have "n mod 256 ^ Suc k = n mod 256 + 256 * (n div 256 mod 256 ^ k)"
    by (simp add: mod_mult2_eq mult.commute)
  with 2 show ?case by simp
qed simp

lemma length_mem_bytes [simp]: "length (mem_bytes e k n) = k"
  by (cases e) (simp_all add: mem_bytes_def)

lemma mem_val_mem_bytes: "mem_val e (mem_bytes e k n) = n mod 256 ^ k"
  by (cases e) (simp_all add: mem_bytes_def mem_val_def le_val_le_bytes)

lemma length_u16_bytes [simp]: "length (u16_bytes e w) = 2"
  by (simp add: u16_bytes_def)

lemma length_u32_bytes [simp]: "length (u32_bytes e w) = 4"
  by (simp add: u32_bytes_def)

lemma mem_val_u16 [simp]: "mem_val e (u16_bytes e w) = unat w"
  using unat_less_u16 [of w] by (simp add: u16_bytes_def mem_val_mem_bytes)

lemma mem_val_u32 [simp]: "mem_val e (u32_bytes e w) = unat w"
  using unat_less_u32 [of w] by (simp add: u32_bytes_def mem_val_mem_bytes)

section \<open>The contract of an encoded field\<close>

text \<open>
  \<open>dec\<close> takes back what \<open>enc\<close> appended and leaves the cursor behind it; on a field cut
  short it fails as truncated. The laws of single fields give those of repeated fields.
\<close>

locale codec =
  fixes enc :: "'a \<Rightarrow> string"
    and dec_field :: "string \<Rightarrow> string + ('a \<times> string)"
    and ok :: "'a \<Rightarrow> bool"
  assumes decode: "ok x \<Longrightarrow> dec_field (enc x @ rest) = Inr (x, rest)"
    and decode_short: "ok x \<Longrightarrow> k < length (enc x) \<Longrightarrow> dec_field (take k (enc x)) = Inl truncated"
begin

lemma many:
  "list_all ok xs \<Longrightarrow> take_many dec_field (length xs) (concat (map enc xs) @ rest) = Inr (xs, rest)"
  by (induction xs) (simp_all add: decode)

lemma many_short:
  "list_all ok xs \<Longrightarrow> k < length (concat (map enc xs)) \<Longrightarrow>
   take_many dec_field (length xs) (take k (concat (map enc xs))) = Inl truncated"
proof (induction xs arbitrary: k)
  case (Cons x xs)
  show ?case
  proof (cases "k < length (enc x)")
    case True
    with Cons.prems show ?thesis by (simp add: decode_short)
  next
    case False
    define j where "j = k - length (enc x)"
    from False have "take k (enc x @ concat (map enc xs)) = enc x @ take j (concat (map enc xs))"
      by (simp add: j_def)
    moreover from False Cons.prems(2) have "j < length (concat (map enc xs))"
      by (simp add: j_def)
    ultimately show ?thesis using Cons by (simp add: decode)
  qed
qed simp

lemma step_short:
  assumes "ok x" and "\<And>j. j < length rest \<Longrightarrow> f x (take j rest) = Inl truncated"
    and "k < length (enc x @ rest)"
  shows "bindE (dec_field (take k (enc x @ rest))) (\<lambda>(y, cur). f y cur) = Inl truncated"
  using assms by (cases "k < length (enc x)") (auto simp: decode_short decode)

end

section \<open>The fields meet the contract\<close>

lemma append_string_prepend: "append_string e buf s = buf @ append_string e [] s"
  by (simp add: append_string_def Let_def)

lemma append_string_eq:
  "length s < 2 ^ 32 \<Longrightarrow> append_string e [] s = u32_bytes e (of_nat (length s)) @ s"
  by (simp add: append_string_def Let_def)

lemma length_append_string:
  "length s < 2 ^ 32 \<Longrightarrow> length (append_string e [] s) = 4 + length s"
  by (simp add: append_string_eq)

interpretation u8: codec "\<lambda>c. [c]" take1 "\<lambda>_. True"
  by unfold_locales auto

interpretation u16: codec "u16_bytes e" "take2 e" "\<lambda>_. True" for e
  by unfold_locales (auto simp: take2_def)

interpretation str: codec "append_string e []" "take_str e" "\<lambda>s. length s < 2 ^ 32" for e
proof (unfold_locales, goal_cases)
  case (1 s rest)
  then show ?case by (simp add: append_string_eq take_str_def)
next
  case (2 s k)
  then show ?case
    by (cases "k < 4") (auto simp: append_string_eq take_str_def Let_def)
qed

abbreviation param_ok :: "string \<times> string \<Rightarrow> bool" where
  "param_ok \<equiv> \<lambda>(n, v). length n < 2 ^ 32 \<and> length v < 2 ^ 32"

abbreviation enc_param :: "endian \<Rightarrow> string \<times> string \<Rightarrow> string" where
  "enc_param e \<equiv> \<lambda>(n, v). append_string e [] n @ append_string e [] v"

interpretation param: codec "enc_param e" "take_param e" param_ok for e
proof (unfold_locales, goal_cases)
  case (1 x rest)
  then show ?case by (cases x) (simp add: take_param_def str.decode)
next
  case (2 x k)
  then show ?case
    by (cases x)
      (auto simp: take_param_def str.decode_short simp del: take_append intro!: str.step_short)
qed

lemma append_params_eq: "append_params e buf ps = buf @ concat (map (enc_param e) ps)"
proof (induction e buf ps rule: append_params.induct)
  case (2 e buf name val ps)
  then show ?case
    using append_string_prepend [of e "append_string e buf name" val]
      append_string_prepend [of e buf name] by simp
qed simp

text \<open>The payload as the concatenation of its fields.\<close>

lemma build_setup_payload:
  "build_setup e tz ctx query params = Inr buf \<longleftrightarrow>
     buf = [cmd ctx] @ u16_bytes e (max_memory ctx) @ u16_bytes e (max_threads ctx)
       @ u16_bytes e (max_parsers ctx) @ append_string e [] tz @ append_string e [] query
       @ u16_bytes e (of_nat (length params)) @ concat (map (enc_param e) params)
     \<and> length buf \<le> CHDB_SETUP_MAX"
proof -
  have "append_string e (append_string e b tz) query
      = b @ append_string e [] tz @ append_string e [] query" for b
    using append_string_prepend [of e "append_string e b tz"] append_string_prepend [of e b] by simp
  then show ?thesis by (auto simp: build_setup_def Let_def append_params_eq)
qed

section \<open>Properties of the wire format\<close>

lemma parse_of_build:
  assumes "build_setup e tz ctx query params = Inr buf"
    and "length tz < 2 ^ 32" and "length query < 2 ^ 32"
    and "list_all param_ok params" and "length params < 2 ^ 16"
    and "\<forall>n. alloc n"
  shows "parse_setup alloc e buf =
    Inr \<lparr>req_ctx = ctx, req_timezone = tz, req_query = query, req_params = params\<rparr>"
proof -
  have n: "unat (of_nat (length params) :: 16 word) = length params"
    using assms(5) by simp
  have "take_many (take_param e) (length params) (concat (map (enc_param e) params))
      = Inr (params, [])"
    using param.many [OF assms(4), of e "[]"] by simp
  with assms n show ?thesis
    by (simp add: build_setup_payload parse_setup_def u16.decode str.decode)
qed

text \<open>
  C21. Round trip: whatever payload the backend accepts, the helper's parser recovers the
  command, the three settings, the time zone, the query and every parameter from it, in
  both byte orders. The length bounds are those of the fields' integer types.
\<close>

theorem setup_roundtrip:
  assumes "build_setup e tz ctx query params = Inr buf"
    and "length tz < 2 ^ 32" and "length query < 2 ^ 32"
    and "list_all param_ok params" and "length params < 2 ^ 16"
    and "\<forall>n. alloc n"
  shows "parse_setup alloc e buf =
    Inr \<lparr>req_ctx = ctx, req_timezone = tz, req_query = query, req_params = params\<rparr>"
  using assms by (rule parse_of_build)

theorem setup_roundtrip_witness:
  "parse_setup (\<lambda>_. True) Big
     (case build_setup Big ''UTC''
        \<lparr>cmd = CHDB_CMD_SELECT, max_memory = 4096, max_threads = 2, max_parsers = 0\<rparr>
        ''SELECT 1'' [(''url'', ''s3://b/k'')] of Inr buf \<Rightarrow> buf | Inl _ \<Rightarrow> [])
   = Inr \<lparr>req_ctx = \<lparr>cmd = CHDB_CMD_SELECT, max_memory = 4096, max_threads = 2, max_parsers = 0\<rparr>,
          req_timezone = ''UTC'', req_query = ''SELECT 1'', req_params = [(''url'', ''s3://b/k'')]\<rparr>"
proof -
  let ?ctx = "\<lparr>cmd = CHDB_CMD_SELECT, max_memory = 4096, max_threads = 2, max_parsers = 0\<rparr>"
  obtain buf where b: "build_setup Big ''UTC'' ?ctx ''SELECT 1'' [(''url'', ''s3://b/k'')] = Inr buf"
    by (simp add: build_setup_payload length_append_string CHDB_SETUP_MAX_def)
  show ?thesis using setup_roundtrip [OF b, of "\<lambda>_. True"] by (simp add: b)
qed

text \<open>
  A payload that lost its tail is never misread: every proper prefix of an accepted
  payload makes the parser stop with the truncation message.
\<close>

theorem setup_truncated:
  assumes "build_setup e tz ctx query params = Inr buf"
    and "length tz < 2 ^ 32" and "length query < 2 ^ 32"
    and "list_all param_ok params" and "length params < 2 ^ 16"
    and "\<forall>n. alloc n" and "k < length buf"
  shows "parse_setup alloc e (take k buf) = Inl truncated"
proof -
  have n: "unat (of_nat (length params) :: 16 word) = length params"
    using assms(5) by simp
  from assms(1) have buf: "buf = [cmd ctx] @ u16_bytes e (max_memory ctx)
       @ u16_bytes e (max_threads ctx) @ u16_bytes e (max_parsers ctx) @ append_string e [] tz
       @ append_string e [] query @ u16_bytes e (of_nat (length params))
       @ concat (map (enc_param e) params)"
    by (simp add: build_setup_payload)
  from assms(7) show ?thesis unfolding parse_setup_def buf
    by (intro u8.step_short u16.step_short str.step_short)
      (use assms(2-6) n in \<open>simp_all add: param.many_short\<close>)
qed

theorem setup_truncated_witness:
  "\<exists>buf. build_setup Little [] \<lparr>cmd = CHDB_CMD_INSERT, max_memory = 0, max_threads = 0, max_parsers = 0\<rparr>
      ''q'' [] = Inr buf \<and> 5 < length buf
    \<and> parse_setup (\<lambda>_. True) Little (take 5 buf) = Inl truncated"
proof -
  let ?ctx = "\<lparr>cmd = CHDB_CMD_INSERT, max_memory = 0, max_threads = 0, max_parsers = 0\<rparr>"
  obtain buf where b: "build_setup Little [] ?ctx ''q'' [] = Inr buf" and l: "5 < length buf"
    by (simp add: build_setup_payload length_append_string CHDB_SETUP_MAX_def)
  show ?thesis using setup_truncated [OF b _ _ _ _ _ l, of "\<lambda>_. True"] b l by auto
qed

section \<open>The limit\<close>

text \<open>The capacity is a power of two times 64 KiB, so it meets the limit exactly.\<close>

lemma read_setup_loop_spec:
  assumes "clean_stream {EINTR} es" and "\<forall>n. alloc n" and "cap = 65536 * 2 ^ k" and "k \<le> 8"
    and "length buf \<le> cap"
  shows "read_setup_loop alloc cap buf es = Some
    (if length (buf @ stream_bytes es) < CHDB_SETUP_MAX then Inr (buf @ stream_bytes es)
     else Inl too_large)"
  using assms
proof (induction alloc cap buf es arbitrary: k rule: read_setup_loop.induct)
  case (1 alloc cap buf es)
  have max: "CHDB_SETUP_MAX = 65536 * 2 ^ 8" by (simp add: CHDB_SETUP_MAX_def)
  define cap' where "cap' = (if length buf = cap then 2 * cap else cap)"
  show ?case
  proof (cases "length buf = cap \<and> 2 * cap > CHDB_SETUP_MAX")
    case True
    with "1.prems"(3,4) have "k = 8"
      using power_strict_increasing_iff [of "2::nat" 8 "Suc k"] by (auto simp: max)
    with True "1.prems"(3) show ?thesis by (simp add: read_setup_loop.simps max)
  next
    case False
    have "\<exists>k'. cap' = 65536 * 2 ^ k' \<and> k' \<le> 8"
    proof (cases "length buf = cap")
      case True
      with False "1.prems"(3) have "2 ^ Suc k \<le> (2 :: nat) ^ 8" by (simp add: max)
      then have "Suc k \<le> 8" by (simp only: power_increasing_iff)
      with True "1.prems"(3) show ?thesis by (auto simp: cap'_def intro!: exI [of _ "Suc k"])
    qed (use "1.prems" in \<open>auto simp: cap'_def\<close>)
    then obtain k' where k': "cap' = 65536 * 2 ^ k'" "k' \<le> 8" by blast
    have less: "length buf < cap'" using "1.prems"(3,5) by (auto simp: cap'_def)
    have "cap' \<le> CHDB_SETUP_MAX" using k' power_increasing [of k' 8 "2::nat"] by (simp add: max)
    with less have short: "length buf < CHDB_SETUP_MAX" by simp
    obtain r es' where r: "sys_read (cap' - length buf) es = Some (r, es')"
      using sys_read_clean [OF "1.prems"(1)] by blast
    have unfold: "read_setup_loop alloc cap buf es = (case r of
        Got bs \<Rightarrow> read_setup_loop alloc cap' (buf @ bs) es' | GotEof \<Rightarrow> Some (Inr buf)
      | GotErr err \<Rightarrow> if err = EINTR then read_setup_loop alloc cap' buf es'
          else Some (Inl unreadable))"
      using False "1.prems"(2) r
      by (subst read_setup_loop.simps) (auto simp: cap'_def Let_def split: read_result.splits)
    note IH = "1.IH" [OF False _ cap'_def]
    show ?thesis
    proof (cases r)
      case (Got bs)
      note g = sys_read_Got [OF r [unfolded Got]]
      have "read_setup_loop alloc cap' (buf @ bs) es' = Some
          (if length ((buf @ bs) @ stream_bytes es') < CHDB_SETUP_MAX
           then Inr ((buf @ bs) @ stream_bytes es') else Inl too_large)"
        using "1.prems"(1,2) k' less g r Got
        by (intro IH(1) [where k = k']) auto
      with Got unfold g(1) show ?thesis by simp
    next
      case GotEof
      with r less have "stream_bytes es = []" using sys_read_Eof by fastforce
      with GotEof unfold short show ?thesis by simp
    next
      case (GotErr err)
      note g = sys_read_Err [OF r [unfolded GotErr], of "{EINTR}"]
      have "read_setup_loop alloc cap' buf es' = Some
          (if length (buf @ stream_bytes es') < CHDB_SETUP_MAX
           then Inr (buf @ stream_bytes es') else Inl too_large)"
        using "1.prems"(1,2) k' less g r GotErr
        by (intro IH(2) [where k = k']) auto
      with GotErr unfold g "1.prems"(1) show ?thesis by simp
    qed
  qed
qed

lemma read_setup_spec:
  assumes "clean_stream {EINTR} es" and "\<forall>n. alloc n"
  shows "read_setup alloc es = Some
    (if length (stream_bytes es) < CHDB_SETUP_MAX then Inr (stream_bytes es) else Inl too_large)"
  using read_setup_loop_spec [of es alloc "65536" 0 "[]"] assms by (simp add: read_setup_def)

text \<open>
  C35. The helper reads the whole payload however the pipe delivers it (in any chunks, with
  any interruptions), and refuses exactly the payloads of \<open>CHDB_SETUP_MAX\<close> bytes or more.
\<close>

theorem read_setup_exact:
  assumes "clean_stream {EINTR} es" and "\<forall>n. alloc n"
  shows "read_setup alloc es = Some
    (if length (stream_bytes es) < CHDB_SETUP_MAX then Inr (stream_bytes es) else Inl too_large)"
  using assms by (rule read_setup_spec)

theorem read_setup_exact_witness:
  "read_setup (\<lambda>_. True) [Data (CHR ''S'') ''ab'', ReadErr EINTR, Data (CHR ''c'') [], Eof]
   = Some (Inr ''Sabc'')"
  using read_setup_exact [of "[Data (CHR ''S'') ''ab'', ReadErr EINTR, Data (CHR ''c'') [], Eof]"
      "\<lambda>_. True"]
  by (simp add: CHDB_SETUP_MAX_def)

text \<open>
  C36. The two sides disagree on one size: the backend sends a payload of exactly
  \<open>CHDB_SETUP_MAX\<close> bytes, and the helper refuses it as too large.
\<close>

theorem setup_limit_mismatch:
  "\<exists>ctx query buf. build_setup e [] ctx query [] = Inr buf \<and> length buf = CHDB_SETUP_MAX
     \<and> read_setup (\<lambda>_. True) [Data (hd buf) (tl buf), Eof] = Some (Inl too_large)"
proof -
  define ctx where "ctx = \<lparr>cmd = CHDB_CMD_SELECT, max_memory = 0, max_threads = 0, max_parsers = 0\<rparr>"
  define query where "query = replicate (CHDB_SETUP_MAX - 17) (CHR ''x'')"
  have q: "length query = 16777199" by (simp add: query_def CHDB_SETUP_MAX_def)
  define buf where "buf = [cmd ctx] @ u16_bytes e (max_memory ctx) @ u16_bytes e (max_threads ctx)
    @ u16_bytes e (max_parsers ctx) @ append_string e [] [] @ append_string e [] query
    @ u16_bytes e (of_nat 0)"
  have len: "length buf = CHDB_SETUP_MAX"
    by (simp add: buf_def length_append_string q CHDB_SETUP_MAX_def)
  have "build_setup e [] ctx query [] = Inr buf"
    using len by (simp add: build_setup_payload buf_def)
  moreover have "stream_bytes [Data (hd buf) (tl buf), Eof] = buf" by (simp add: buf_def)
  with len have "read_setup (\<lambda>_. True) [Data (hd buf) (tl buf), Eof] = Some (Inl too_large)"
    using read_setup_spec [of "[Data (hd buf) (tl buf), Eof]" "\<lambda>_. True"] by simp
  ultimately show ?thesis using len by blast
qed

end
