(* ===== verification/Settings.thy ===== *)
theory Settings
  imports Wire_Setup
begin

text \<open>
  The three configuration variables (\<open>src/gucs.h\<close>, declared by \<open>_PG_init\<close> of \<open>src/chdb.c\<close>
  and \<open>src/hook/hook.c\<close>), their narrowing into the helper's context, and the \<open>SET\<close>
  statement the helper builds from them (\<open>setup_session\<close> of \<open>src/helper/chdb_helper.c\<close>).
\<close>

section \<open>Configuration variables\<close>

datatype guc_context = PGC_SUSET

datatype guc_unit = GUC_UNIT_MB | GUC_UNIT_NONE

record guc =
  guc_name :: string
  boot_value :: int
  guc_min :: int
  guc_max :: int
  guc_ctx :: guc_context
  guc_flags :: guc_unit

text \<open>\<open>CHDB_GUCS(ns)\<close>, in the order the macro defines them.\<close>

definition CHDB_GUCS :: "string \<Rightarrow> guc list" where
  "CHDB_GUCS ns =
     [\<lparr>guc_name = ns @ ''.max_memory'', boot_value = 4096, guc_min = 0, guc_max = 2147483647,
       guc_ctx = PGC_SUSET, guc_flags = GUC_UNIT_MB\<rparr>,
      \<lparr>guc_name = ns @ ''.max_threads'', boot_value = 0, guc_min = 0, guc_max = 65535,
       guc_ctx = PGC_SUSET, guc_flags = GUC_UNIT_NONE\<rparr>,
      \<lparr>guc_name = ns @ ''.max_parsing_threads'', boot_value = 0, guc_min = 0, guc_max = 65535,
       guc_ctx = PGC_SUSET, guc_flags = GUC_UNIT_NONE\<rparr>]"

text \<open>\<open>_PG_init\<close> of the \<open>chdb\<close> library: nothing during a binary upgrade.\<close>

definition chdb_PG_init :: "bool \<Rightarrow> guc list" where
  "chdb_PG_init IsBinaryUpgrade = (if IsBinaryUpgrade then [] else CHDB_GUCS ''chdb'')"

text \<open>The range every assignment has to respect.\<close>

definition guc_accepts :: "guc \<Rightarrow> int \<Rightarrow> bool" where
  "guc_accepts g v \<longleftrightarrow> guc_min g \<le> v \<and> v \<le> guc_max g"

text \<open>The static \<open>int\<close> variables behind them.\<close>

record settings =
  chdb_max_memory :: int
  chdb_max_threads :: int
  chdb_max_parsers :: int

definition initial_settings :: settings where
  "initial_settings = \<lparr>chdb_max_memory = 4096, chdb_max_threads = 0, chdb_max_parsers = 0\<rparr>"

definition settings_valid :: "string \<Rightarrow> settings \<Rightarrow> bool" where
  "settings_valid ns s \<longleftrightarrow>
     list_all2 guc_accepts (CHDB_GUCS ns) [chdb_max_memory s, chdb_max_threads s, chdb_max_parsers s]"

text \<open>The \<open>(uint16_t)\<close> casts that fill a \<open>chdbHelperContext\<close>.\<close>

definition helper_context :: "settings \<Rightarrow> char \<Rightarrow> chdbHelperContext" where
  "helper_context s c =
     \<lparr>cmd = c, max_memory = of_int (chdb_max_memory s), max_threads = of_int (chdb_max_threads s),
      max_parsers = of_int (chdb_max_parsers s)\<rparr>"

section \<open>The session statement\<close>

text \<open>\<open>(uint64_t)max_mem * 1024 * 1024\<close>.\<close>

definition memory_bytes :: "16 word \<Rightarrow> 64 word" where
  "memory_bytes m = ucast m * 1024 * 1024"

text \<open>
  The format of \<open>setup_session\<close>. \<open>%.*s\<close> takes its precision as an \<open>int\<close>: a negative one
  counts as none and the conversion would run past the borrowed bytes, so a time zone of
  \<open>2 ^ 31\<close> bytes or more has no defined text (\<open>None\<close>). It stops at a NUL byte.
\<close>

definition settings_text :: "16 word \<Rightarrow> 16 word \<Rightarrow> 16 word \<Rightarrow> string \<Rightarrow> string" where
  "settings_text max_mem threads parsers timezone =
     ''SET allow_experimental_nullable_tuple_type,''
     @ ''output_format_json_quote_denormals,''
     @ ''output_format_native_write_json_as_string,''
     @ ''output_format_native_encode_types_in_binary_format=0,''
     @ ''date_time_output_format='' @ [CHR 0x27] @ ''iso'' @ [CHR 0x27] @ '',''
     @ ''max_threads='' @ dec (unat threads) @ '',max_parsing_threads='' @ dec (unat parsers)
     @ '',max_memory_usage='' @ dec (unat (memory_bytes max_mem))
     @ '',session_timezone='' @ [CHR 0x27] @ takeWhile (\<lambda>c. c \<noteq> CHR 0x00) timezone @ [CHR 0x27]"

definition session_settings :: "16 word \<Rightarrow> 16 word \<Rightarrow> 16 word \<Rightarrow> string \<Rightarrow> string option" where
  "session_settings max_mem threads parsers timezone =
     (if length timezone \<ge> 2 ^ 31 then None
      else Some (take (1024 - 1) (settings_text max_mem threads parsers timezone)))"

section \<open>Narrowing\<close>

lemma unat_of_int_u16: "0 \<le> v \<Longrightarrow> unat (of_int v :: 16 word) = nat v mod 65536"
  by (cases v) (simp_all add: unat_of_nat)

lemma settings_valid_bounds:
  assumes "settings_valid ns s"
  shows "0 \<le> chdb_max_memory s" "chdb_max_memory s \<le> 2147483647"
    "0 \<le> chdb_max_threads s" "chdb_max_threads s \<le> 65535"
    "0 \<le> chdb_max_parsers s" "chdb_max_parsers s \<le> 65535"
  using assms by (simp_all add: settings_valid_def CHDB_GUCS_def guc_accepts_def)

lemma unat_memory_bytes: "unat (memory_bytes m) = unat m * 1048576"
proof -
  have "unat (ucast m :: 64 word) = unat m"
    using unat_less_u16 [of m] by (simp add: unsigned_ucast_eq take_bit_nat_eq_self)
  then show ?thesis using unat_less_u16 [of m]
    by (simp add: memory_bytes_def unat_word_ariths)
qed

section \<open>Properties of the settings\<close>

text \<open>
  Every admissible value of the two thread settings reaches the helper unchanged, and
  the memory setting reaches it modulo \<open>2 ^ 16\<close> megabytes.
\<close>

theorem helper_context_settings:
  assumes "settings_valid ns s"
  shows "int (unat (max_threads (helper_context s c))) = chdb_max_threads s
    \<and> int (unat (max_parsers (helper_context s c))) = chdb_max_parsers s
    \<and> int (unat (max_memory (helper_context s c))) = chdb_max_memory s mod 65536"
  using settings_valid_bounds [OF assms]
  by (simp add: helper_context_def unat_of_int_u16 zmod_int)

theorem helper_context_settings_witness:
  "settings_valid ''chdb'' initial_settings
   \<and> int (unat (max_memory (helper_context initial_settings CHDB_CMD_SELECT))) = 4096"
proof -
  have v: "settings_valid ''chdb'' initial_settings"
    by (simp add: settings_valid_def CHDB_GUCS_def guc_accepts_def initial_settings_def)
  from helper_context_settings [OF v, of CHDB_CMD_SELECT] v show ?thesis
    by (simp add: initial_settings_def)
qed

lemma length_settings_text:
  "length (settings_text m t p tz) \<le> 306 + length tz"
proof -
  have "length (dec (unat t)) \<le> 5" "length (dec (unat p)) \<le> 5"
    using unat_less_u16 [of t] unat_less_u16 [of p] dec_length_le [of "unat t" 4]
      dec_length_le [of "unat p" 4] by simp_all
  moreover have "length (dec (unat (memory_bytes m))) \<le> 11"
    using unat_less_u16 [of m] dec_length_le [of "unat (memory_bytes m)" 10]
    by (simp add: unat_memory_bytes)
  moreover have "length (takeWhile (\<lambda>c. c \<noteq> CHR 0x00) tz) \<le> length tz"
    by (rule length_takeWhile_le)
  ultimately show ?thesis by (simp add: settings_text_def)
qed

text \<open>
  C37. Every admissible setting and what the helper makes of it: the \<open>SET\<close> statement of its session limits
  the memory to \<open>max_memory mod 2 ^ 16\<close> megabytes, given in bytes with no wrap at 64 bits. So the
  limit is the configured one exactly for settings below \<open>2 ^ 16\<close> megabytes, and the variable's range allows larger
  ones; for every multiple of \<open>2 ^ 16\<close> the statement asks for 0, which chDB reads as no limit at all. The
  two thread settings arrive unchanged.
\<close>

theorem memory_limit_of_setting:
  fixes c :: char
  assumes "settings_valid ns s"
  defines "h \<equiv> helper_context s c"
  shows "(\<exists>pre post. settings_text (max_memory h) (max_threads h) (max_parsers h) tz
        = pre @ '',max_threads='' @ dec (nat (chdb_max_threads s)) @ '',max_parsing_threads='' @ dec (nat (chdb_max_parsers s))
          @ '',max_memory_usage='' @ dec (unat (memory_bytes (max_memory h))) @ post)
    \<and> int (unat (memory_bytes (max_memory h))) = chdb_max_memory s mod 65536 * 1048576
    \<and> (int (unat (memory_bytes (max_memory h))) = chdb_max_memory s * 1048576 \<longleftrightarrow> chdb_max_memory s < 65536)
    \<and> (memory_bytes (max_memory h) = 0 \<longleftrightarrow> 65536 dvd chdb_max_memory s)"
proof (intro conjI)
  have b: "0 \<le> chdb_max_memory s" "0 \<le> chdb_max_threads s" "chdb_max_threads s < 65536"
    "0 \<le> chdb_max_parsers s" "chdb_max_parsers s < 65536"
    using settings_valid_bounds [OF assms(1)] by simp_all
  have t: "unat (max_threads h) = nat (chdb_max_threads s)" "unat (max_parsers h) = nat (chdb_max_parsers s)"
    using b by (simp_all add: h_def helper_context_def unat_of_int_u16 nat_less_iff)
  show "\<exists>pre post. settings_text (max_memory h) (max_threads h) (max_parsers h) tz
        = pre @ '',max_threads='' @ dec (nat (chdb_max_threads s)) @ '',max_parsing_threads='' @ dec (nat (chdb_max_parsers s))
          @ '',max_memory_usage='' @ dec (unat (memory_bytes (max_memory h))) @ post"
    unfolding settings_text_def t
    by (rule exI [of _ "''SET allow_experimental_nullable_tuple_type,''
         @ ''output_format_json_quote_denormals,'' @ ''output_format_native_write_json_as_string,''
         @ ''output_format_native_encode_types_in_binary_format=0,''
         @ ''date_time_output_format='' @ [CHR 0x27] @ ''iso'' @ [CHR 0x27]"]) simp
  show m: "int (unat (memory_bytes (max_memory h))) = chdb_max_memory s mod 65536 * 1048576"
    using b(1) by (simp add: unat_memory_bytes h_def helper_context_def unat_of_int_u16 zmod_int)
  show "int (unat (memory_bytes (max_memory h))) = chdb_max_memory s * 1048576 \<longleftrightarrow> chdb_max_memory s < 65536"
    using m b(1) pos_mod_bound [of 65536 "chdb_max_memory s"] by auto
  have "memory_bytes (max_memory h) = 0 \<longleftrightarrow> int (unat (memory_bytes (max_memory h))) = 0"
    by (simp add: uint_0_iff)
  then show "memory_bytes (max_memory h) = 0 \<longleftrightarrow> 65536 dvd chdb_max_memory s"
    using m by (simp add: dvd_eq_mod_eq_0)
qed

definition wrapping_settings :: settings where
  "wrapping_settings = \<lparr>chdb_max_memory = 65536, chdb_max_threads = 8, chdb_max_parsers = 0\<rparr>"

theorem memory_limit_of_setting_witness:
  "settings_valid ''chdb_hook'' wrapping_settings \<and> memory_bytes (max_memory (helper_context wrapping_settings CHDB_CMD_SELECT)) = 0"
proof -
  have v: "settings_valid ''chdb_hook'' wrapping_settings"
    by (simp add: settings_valid_def CHDB_GUCS_def guc_accepts_def wrapping_settings_def)
  from memory_limit_of_setting [OF v, of CHDB_CMD_SELECT "''UTC''"] v show ?thesis by (simp add: wrapping_settings_def)
qed

text \<open>
  The byte count given to chDB is the megabyte setting times \<open>2 ^ 20\<close> with no wrap at
  64 bits, and for a time zone of up to 700 bytes the 1024-byte buffer holds the whole
  statement.
\<close>

theorem session_settings_complete:
  assumes "length tz \<le> 700"
  shows "session_settings m t p tz = Some (settings_text m t p tz)
    \<and> unat (memory_bytes m) = unat m * 1024 * 1024"
  using assms length_settings_text [of m t p tz]
  by (simp add: session_settings_def unat_memory_bytes)

theorem session_settings_complete_witness:
  "session_settings 4096 0 0 ''UTC'' = Some (settings_text 4096 0 0 ''UTC'')"
  using session_settings_complete [of "''UTC''" 4096 0 0] by simp

section \<open>The version functions\<close>

text \<open>
  \<open>PGCHCB_VERSION\<close> is a header that the Makefile generates from \<open>META.json\<close>; both libraries are built from the
  same one and return it as a text.
\<close>

definition pgchdb_version :: "string \<Rightarrow> string" where
  "pgchdb_version PGCHCB_VERSION = takeWhile (\<lambda>c. c \<noteq> CHR 0x00) PGCHCB_VERSION"

definition chdb_hook_version :: "string \<Rightarrow> string" where
  "chdb_hook_version PGCHCB_VERSION = takeWhile (\<lambda>c. c \<noteq> CHR 0x00) PGCHCB_VERSION"

end
