(* ===== verification/Copy_Context.thy ===== *)
theory Copy_Context
  imports Settings
begin

text \<open>
  The data that a command assembles before a helper starts: URL schemes and the copy
  context of \<open>src/hook/copy.h\<close>, and the parts of PostgreSQL's relation descriptor that the
  sources read. \<open>scheme_for\<close> of \<open>src/hook/hook.c\<close> recognises the schemes.
\<close>

section \<open>Schemes\<close>

datatype scheme =
    http_scheme | s3_scheme | gcs_scheme | az_scheme | abfs_scheme | hdfs_scheme
  | file_scheme | no_scheme

text \<open>The enumeration's values; \<open>scheme_for\<close> compares them as integers.\<close>

fun scheme_value :: "scheme \<Rightarrow> nat" where
  "scheme_value http_scheme = 0"
| "scheme_value s3_scheme = 1"
| "scheme_value gcs_scheme = 2"
| "scheme_value az_scheme = 3"
| "scheme_value abfs_scheme = 4"
| "scheme_value hdfs_scheme = 5"
| "scheme_value file_scheme = 6"
| "scheme_value no_scheme = 7"

instantiation scheme :: linorder
begin

definition less_eq_scheme :: "scheme \<Rightarrow> scheme \<Rightarrow> bool" where
  "less_eq_scheme a b \<longleftrightarrow> scheme_value a \<le> scheme_value b"

definition less_scheme :: "scheme \<Rightarrow> scheme \<Rightarrow> bool" where
  "less_scheme a b \<longleftrightarrow> scheme_value a < scheme_value b"

instance
proof
  fix x y :: scheme
  show "x \<le> y \<Longrightarrow> y \<le> x \<Longrightarrow> x = y"
    by (cases x; cases y) (simp_all add: less_eq_scheme_def)
qed (auto simp: less_eq_scheme_def less_scheme_def)

end

definition all_schemes :: "scheme list" where
  "all_schemes = [http_scheme, s3_scheme, gcs_scheme, az_scheme, abfs_scheme, hdfs_scheme,
     file_scheme, no_scheme]"

fun scheme_name :: "scheme \<Rightarrow> string list" where
  "scheme_name http_scheme = [''http'', ''https'']"
| "scheme_name s3_scheme = [''s3'']"
| "scheme_name gcs_scheme = [''gs'', ''gcs'', ''oss'']"
| "scheme_name az_scheme = [''az'', ''azure'']"
| "scheme_name abfs_scheme = [''abfs'', ''abfss'']"
| "scheme_name file_scheme = [''file'']"
| "scheme_name hdfs_scheme = [''hdfs'']"
| "scheme_name no_scheme = []"

text \<open>\<open>CHDB_NO_SCHEME\<close>: a build with \<open>CHDB_NO_FILE_SCHEME\<close> stops the search one earlier.\<close>

definition CHDB_NO_SCHEME :: "bool \<Rightarrow> scheme" where
  "CHDB_NO_SCHEME no_file = (if no_file then file_scheme else no_scheme)"

text \<open>
  \<open>scheme_for\<close>: the outer loop runs over the schemes below \<open>CHDB_NO_SCHEME\<close>, the inner one
  over a scheme's names, and the first match returns. \<open>None\<close> is a NULL string.
\<close>

definition scheme_for :: "bool \<Rightarrow> string option \<Rightarrow> scheme" where
  "scheme_for no_file str =
     (case str of None \<Rightarrow> no_scheme
      | Some s \<Rightarrow>
          (case strstr s ''://'' of None \<Rightarrow> no_scheme
           | Some len \<Rightarrow>
               (case find (\<lambda>sch. list_ex (\<lambda>n. length n = len \<and> take len s = n) (scheme_name sch))
                      (takeWhile (\<lambda>sch. sch < CHDB_NO_SCHEME no_file) all_schemes) of
                  None \<Rightarrow> no_scheme
                | Some sch \<Rightarrow> sch)))"

section \<open>Relations\<close>

datatype relkind =
    RELKIND_RELATION | RELKIND_PARTITIONED_TABLE | RELKIND_FOREIGN_TABLE | RELKIND_VIEW
  | RELKIND_OTHER

record attribute =
  attname :: string
  atttypid :: nat
  atttypmod :: int
  attnotnull :: bool
  attisdropped :: bool
  attgenerated :: bool

record relation =
  relname :: string
  relid :: nat
  rd_relkind :: relkind
  rd_att :: "attribute list"

text \<open>The permissions entry of the one-entry range table: whose columns were checked for what.\<close>

datatype acl_mode = ACL_INSERT | ACL_SELECT

record perm_info =
  perm_relid :: nat
  requiredPerms :: acl_mode
  perm_cols :: "nat list"

section \<open>The copy context\<close>

datatype encoding_check = CHC_ENC_FAIL | CHC_ENC_TRUNCATE | CHC_ENC_REMOVE | CHC_ENC_REPLACE

text \<open>\<open>chdbCopyContext\<close>; the pointers that start out NULL are options.\<close>

record chdbCopyContext =
  cx_rel :: "relation option"
  cx_attnums :: "nat list"
  cx_perminfo :: "perm_info option"
  cx_scheme :: scheme
  cx_cmd_type :: char
  cx_timeout :: "32 word"
  cx_max_memory :: "16 word"
  cx_max_threads :: "16 word"
  cx_max_parsers :: "16 word"
  cx_encoding_check :: encoding_check
  cx_url :: string
  cx_access_key :: string
  cx_access_secret :: string
  cx_session_token :: string
  cx_format :: string
  cx_structure :: string
  cx_compression :: string
  cx_preserve_nested :: bool

definition CHDB_MAX_TABLEFUNC_ARGS :: nat where
  "CHDB_MAX_TABLEFUNC_ARGS = 9"

section \<open>Recognising a scheme\<close>

lemma scheme_names_no_colon:
  "n \<in> set (scheme_name sch) \<Longrightarrow> CHR '':'' \<notin> set n"
  by (cases sch) auto

lemma scheme_name_unique:
  "n \<in> set (scheme_name a) \<Longrightarrow> n \<in> set (scheme_name b) \<Longrightarrow> a = b"
  by (cases a; cases b) auto

lemma searched_schemes:
  "set (takeWhile (\<lambda>sch. sch < CHDB_NO_SCHEME nf) all_schemes) = {sch. sch < CHDB_NO_SCHEME nf}"
proof -
  have "sch \<in> set all_schemes" for sch by (cases sch) (simp_all add: all_schemes_def)
  moreover have "takeWhile (\<lambda>sch. sch < CHDB_NO_SCHEME nf) all_schemes
      = filter (\<lambda>sch. sch < CHDB_NO_SCHEME nf) all_schemes"
    by (simp add: all_schemes_def CHDB_NO_SCHEME_def less_scheme_def)
  ultimately show ?thesis by auto
qed

lemma scheme_below_no: "sch < no_scheme \<longleftrightarrow> sch \<noteq> no_scheme"
  by (cases sch) (simp_all add: less_scheme_def)

lemma scheme_below_limit: "sch < CHDB_NO_SCHEME nf \<Longrightarrow> sch \<noteq> no_scheme"
  by (auto simp: CHDB_NO_SCHEME_def less_scheme_def split: if_splits)

lemma scheme_for_named:
  assumes "n \<in> set (scheme_name sch)" and "sch < CHDB_NO_SCHEME nf"
  shows "scheme_for nf (Some (n @ ''://'' @ rest)) = sch"
proof -
  let ?cand = "takeWhile (\<lambda>sch. sch < CHDB_NO_SCHEME nf) all_schemes"
  let ?P = "\<lambda>sch. list_ex (\<lambda>m. length m = length n \<and> take (length n) (n @ ''://'' @ rest) = m)
    (scheme_name sch)"
  have pos: "strstr (n @ ''://'' @ rest) ''://'' = Some (length n)"
    using scheme_names_no_colon [OF assms(1)] strstr_append [of "CHR '':''" n "''//''" rest] by simp
  have P: "?P a \<longleftrightarrow> n \<in> set (scheme_name a)" for a by (auto simp: list_ex_iff)
  have "sch \<in> set ?cand" using assms(2) searched_schemes by blast
  with assms(1) P have "find ?P ?cand \<noteq> None" by (auto simp: find_None_iff)
  then obtain a where a: "find ?P ?cand = Some a" by blast
  then have "?P a" by (auto simp: find_Some_iff)
  with P assms(1) have "a = sch" by (blast intro: scheme_name_unique)
  with a pos show ?thesis by (simp add: scheme_for_def)
qed

lemma scheme_for_inv:
  assumes "scheme_for nf (Some s) = sch" and "sch \<noteq> no_scheme"
  shows "\<exists>n rest. n \<in> set (scheme_name sch) \<and> s = n @ ''://'' @ rest \<and> sch < CHDB_NO_SCHEME nf"
proof -
  let ?cand = "takeWhile (\<lambda>sch. sch < CHDB_NO_SCHEME nf) all_schemes"
  obtain len where len: "strstr s ''://'' = Some len"
    using assms by (auto simp: scheme_for_def split: option.splits)
  let ?P = "\<lambda>sch. list_ex (\<lambda>n. length n = len \<and> take len s = n) (scheme_name sch)"
  have f: "find ?P ?cand = Some sch"
    using assms len by (auto simp: scheme_for_def split: option.splits)
  then have "?P sch" "sch \<in> set ?cand" by (auto simp: find_Some_iff)
  with searched_schemes have "take len s \<in> set (scheme_name sch)" "sch < CHDB_NO_SCHEME nf"
    by (auto simp: list_ex_iff)
  with strstr_Some_split [OF len] show ?thesis by blast
qed

text \<open>
  A string is recognised as a URL of a scheme exactly when it is one of the scheme's
  names followed by \<open>://\<close>, and the scheme is compiled in.
\<close>

theorem scheme_for_iff:
  "sch \<noteq> no_scheme \<Longrightarrow> scheme_for nf (Some s) = sch \<longleftrightarrow>
     sch < CHDB_NO_SCHEME nf \<and> (\<exists>n rest. n \<in> set (scheme_name sch) \<and> s = n @ ''://'' @ rest)"
  using scheme_for_named scheme_for_inv by blast

theorem scheme_for_iff_witness: "scheme_for False (Some ''gs://b/k'') = gcs_scheme"
proof -
  have "''gs'' \<in> set (scheme_name gcs_scheme) \<and> ''gs://b/k'' = ''gs'' @ ''://'' @ ''b/k''" by simp
  then show ?thesis
    using scheme_for_iff [of gcs_scheme False "''gs://b/k''"]
    by (auto simp: CHDB_NO_SCHEME_def less_scheme_def)
qed

text \<open>
  A build without the \<open>file\<close> scheme never recognises one, and recognises every other
  URL as the full build does.
\<close>

theorem no_file_scheme_build:
  "scheme_for True s \<noteq> file_scheme
   \<and> (scheme_for False s \<noteq> file_scheme \<longrightarrow> scheme_for True s = scheme_for False s)"
proof (cases s)
  case None
  then show ?thesis by (simp add: scheme_for_def)
next
  case (Some u)
  have 1: "scheme_for True (Some u) \<noteq> file_scheme"
    using scheme_for_inv [of True u file_scheme] by (auto simp: CHDB_NO_SCHEME_def)
  have 2: "scheme_for True (Some u) = sch"
    if "scheme_for False (Some u) = sch" "sch \<noteq> file_scheme" "sch \<noteq> no_scheme" for sch
  proof -
    from scheme_for_inv [OF that(1,3)] obtain n rest where
      "n \<in> set (scheme_name sch)" "u = n @ ''://'' @ rest" by blast
    moreover have "sch < CHDB_NO_SCHEME True"
      using that(2,3) by (cases sch) (simp_all add: CHDB_NO_SCHEME_def less_scheme_def)
    ultimately show ?thesis using scheme_for_named by blast
  qed
  have 3: "scheme_for True (Some u) = no_scheme" if "scheme_for False (Some u) = no_scheme"
  proof (rule ccontr)
    assume "scheme_for True (Some u) \<noteq> no_scheme"
    from scheme_for_inv [OF refl this] obtain n rest where
      n: "n \<in> set (scheme_name (scheme_for True (Some u)))" "u = n @ ''://'' @ rest" by blast
    with \<open>scheme_for True (Some u) \<noteq> no_scheme\<close>
    have "scheme_for False (Some u) = scheme_for True (Some u)"
      using scheme_for_named [of n "scheme_for True (Some u)" False rest]
      by (simp add: CHDB_NO_SCHEME_def scheme_below_no)
    with that \<open>scheme_for True (Some u) \<noteq> no_scheme\<close> show False by simp
  qed
  from 1 2 3 Some show ?thesis by (cases "scheme_for False (Some u) = no_scheme") auto
qed

theorem no_file_scheme_build_witness:
  "scheme_for True (Some ''s3://b/k'') = scheme_for False (Some ''s3://b/k'')"
  using no_file_scheme_build [of "Some ''s3://b/k''"]
  by (simp add: scheme_for_def all_schemes_def CHDB_NO_SCHEME_def less_scheme_def)

end
