(* ===== verification/Copy_Options.thy ===== *)
theory Copy_Options
  imports Copy_Context
begin

text \<open>
  The options of a statement, \<open>src/hook/hook.c\<close>: \<open>structure_on_one_line\<close> and
  \<open>contextualize_options\<close>, which fills the copy context from the options chDB knows and collects or
  rejects the others. PostgreSQL's readers of an option's argument (\<open>defGetString\<close>,
  \<open>defGetInt64\<close>) and pg-clickhouse-c's \<open>pgch_parse_encoding_check\<close> are the parameter \<open>def_lib\<close>.
\<close>

section \<open>Options\<close>

text \<open>\<open>DefElem\<close>: the name and the argument node, by its text, \<open>None\<close> for an option without one.\<close>

record def_elem =
  defname :: string
  defarg :: "string option"

record def_lib =
  defGetString :: "def_elem \<Rightarrow> pg_error + string"
  defGetInt64 :: "def_elem \<Rightarrow> pg_error + 64 word"
  pgch_parse_encoding_check :: "string \<Rightarrow> encoding_check option"

definition structure_on_one_line :: "string \<Rightarrow> string" where
  "structure_on_one_line structure =
     map (\<lambda>c. if c = CHR 0x0A \<or> c = CHR 0x0D then CHR '' '' else c) structure"

definition default_options :: "chdbCopyContext \<Rightarrow> chdbCopyContext" where
  "default_options ctx =
     ctx\<lparr>cx_access_key := [], cx_access_secret := [], cx_session_token := [], cx_format := [],
         cx_structure := [], cx_compression := [], cx_timeout := 30000,
         cx_encoding_check := CHC_ENC_FAIL\<rparr>"

text \<open>The two options with a check of their own.\<close>

definition UINT32_MAX :: int where "UINT32_MAX = 4294967295"

definition timeout_option :: "def_lib \<Rightarrow> def_elem \<Rightarrow> pg_error + 32 word" where
  "timeout_option lib elem =
     bindE (defGetInt64 lib elem) (\<lambda>timeout.
       if sint timeout < 0 \<or> sint timeout > UINT32_MAX then
         Inl (ereport ERRCODE_INVALID_PARAMETER_VALUE
           ''chdb: argument to COPY option \"timeout\" must be a uint32'')
       else Inr (ucast timeout))"

definition encoding_check_option :: "def_lib \<Rightarrow> def_elem \<Rightarrow> pg_error + encoding_check" where
  "encoding_check_option lib elem =
     bindE (defGetString lib elem) (\<lambda>val.
       case pgch_parse_encoding_check lib val of
         None \<Rightarrow> Inl ((ereport ERRCODE_FDW_INVALID_STRING_FORMAT
           (''invalid value for option \"encoding_check\": \"'' @ val @ ''\"''))
             \<lparr>errhint := Some ''Valid values are: fail, truncate, remove, replace''\<rparr>)
       | Some v \<Rightarrow> Inr v)"

text \<open>One option: \<open>None\<close> when chDB does not know it.\<close>

definition set_option :: "def_lib \<Rightarrow> def_elem \<Rightarrow> chdbCopyContext \<Rightarrow> (pg_error + chdbCopyContext) option" where
  "set_option lib elem ctx =
     (if defname elem = ''access_key'' then
        Some (bindE (defGetString lib elem) (\<lambda>v. Inr (ctx\<lparr>cx_access_key := v\<rparr>)))
      else if defname elem = ''access_secret'' then
        Some (bindE (defGetString lib elem) (\<lambda>v. Inr (ctx\<lparr>cx_access_secret := v\<rparr>)))
      else if defname elem = ''session_token'' then
        Some (bindE (defGetString lib elem) (\<lambda>v. Inr (ctx\<lparr>cx_session_token := v\<rparr>)))
      else if defname elem = ''format'' then
        Some (bindE (defGetString lib elem) (\<lambda>v. Inr (ctx\<lparr>cx_format := v\<rparr>)))
      else if defname elem = ''structure'' then
        Some (bindE (defGetString lib elem) (\<lambda>v. Inr (ctx\<lparr>cx_structure := structure_on_one_line v\<rparr>)))
      else if defname elem = ''compression'' then
        Some (bindE (defGetString lib elem) (\<lambda>v. Inr (ctx\<lparr>cx_compression := v\<rparr>)))
      else if defname elem = ''timeout'' then
        Some (bindE (timeout_option lib elem) (\<lambda>v. Inr (ctx\<lparr>cx_timeout := v\<rparr>)))
      else if defname elem = ''encoding_check'' then
        Some (bindE (encoding_check_option lib elem) (\<lambda>v. Inr (ctx\<lparr>cx_encoding_check := v\<rparr>)))
      else None)"

text \<open>
  The loop. \<open>others\<close> is the list the unknown options are collected in, \<open>None\<close> for a NULL pointer.
\<close>

fun set_options ::
  "def_lib \<Rightarrow> def_elem list \<Rightarrow> chdbCopyContext \<Rightarrow> def_elem list option
     \<Rightarrow> pg_error + chdbCopyContext \<times> def_elem list option"
where
  "set_options lib [] ctx others = Inr (ctx, others)"
| "set_options lib (elem # options) ctx others =
     (case set_option lib elem ctx of
        Some r \<Rightarrow> bindE r (\<lambda>ctx. set_options lib options ctx others)
      | None \<Rightarrow>
          (case others of
             Some os \<Rightarrow> set_options lib options ctx (Some (os @ [elem]))
           | None \<Rightarrow> Inl (ereport ERRCODE_SYNTAX_ERROR
               (''chdb: option \"'' @ defname elem @ ''\" not supported''))))"

definition contextualize_options ::
  "def_lib \<Rightarrow> chdbCopyContext \<Rightarrow> def_elem list \<Rightarrow> def_elem list option
     \<Rightarrow> pg_error + chdbCopyContext \<times> def_elem list option"
where
  "contextualize_options lib ctx options others = set_options lib options (default_options ctx) others"

section \<open>What the options say\<close>

text \<open>The value of an option is its last one; \<open>dflt\<close> when it is not given.\<close>

definition last_value :: "(def_elem \<Rightarrow> pg_error + 'a) \<Rightarrow> string \<Rightarrow> 'a \<Rightarrow> def_elem list \<Rightarrow> 'a" where
  "last_value get name dflt options =
     foldl (\<lambda>v elem. if defname elem = name then (case get elem of Inr w \<Rightarrow> w | Inl _ \<Rightarrow> v) else v) dflt options"

definition chdb_options :: "string list" where
  "chdb_options = [''access_key'', ''access_secret'', ''session_token'', ''format'', ''structure'',
     ''compression'', ''timeout'', ''encoding_check'']"

abbreviation chdb_option :: "def_elem \<Rightarrow> bool" where
  "chdb_option elem \<equiv> defname elem \<in> set chdb_options"

text \<open>When an option is acceptable, \<open>collect\<close> being whether others are collected.\<close>

definition option_ok :: "def_lib \<Rightarrow> bool \<Rightarrow> def_elem \<Rightarrow> bool" where
  "option_ok lib collect elem =
     (if defname elem = ''timeout'' then
        (\<exists>t. defGetInt64 lib elem = Inr t \<and> 0 \<le> sint t \<and> sint t \<le> UINT32_MAX)
      else if defname elem = ''encoding_check'' then
        (\<exists>s v. defGetString lib elem = Inr s \<and> pgch_parse_encoding_check lib s = Some v)
      else if chdb_option elem then (\<exists>s. defGetString lib elem = Inr s)
      else collect)"

lemma last_value_simps [simp]:
  "last_value get name dflt [] = dflt"
  "last_value get name dflt (elem # options) =
     last_value get name (if defname elem = name then (case get elem of Inr w \<Rightarrow> w | Inl _ \<Rightarrow> dflt) else dflt) options"
  by (simp_all add: last_value_def)

lemma timeout_option_Inr:
  "timeout_option lib elem = Inr v \<longleftrightarrow>
     (\<exists>t. defGetInt64 lib elem = Inr t \<and> 0 \<le> sint t \<and> sint t \<le> UINT32_MAX \<and> v = ucast t)"
  by (cases "defGetInt64 lib elem") (auto simp: timeout_option_def not_less)

lemma encoding_check_option_Inr:
  "encoding_check_option lib elem = Inr v \<longleftrightarrow>
     (\<exists>s. defGetString lib elem = Inr s \<and> pgch_parse_encoding_check lib s = Some v)"
  by (cases "defGetString lib elem") (auto simp: encoding_check_option_def split: option.splits)

lemma set_option_None: "set_option lib elem ctx = None \<longleftrightarrow> \<not> chdb_option elem"
  by (auto simp: set_option_def chdb_options_def)

lemma set_option_ok:
  "chdb_option elem \<Longrightarrow> (\<exists>ctx'. set_option lib elem ctx = Some (Inr ctx')) \<longleftrightarrow> option_ok lib collect elem"
  by (auto simp: set_option_def option_ok_def chdb_options_def error_simps timeout_option_Inr
      encoding_check_option_Inr)

text \<open>The fields of a context that options set, and the fields they leave alone.\<close>

definition option_fields :: "def_lib \<Rightarrow> def_elem list \<Rightarrow> chdbCopyContext \<Rightarrow> chdbCopyContext" where
  "option_fields lib options ctx =
     ctx\<lparr>cx_access_key := last_value (defGetString lib) ''access_key'' (cx_access_key ctx) options,
         cx_access_secret := last_value (defGetString lib) ''access_secret'' (cx_access_secret ctx) options,
         cx_session_token := last_value (defGetString lib) ''session_token'' (cx_session_token ctx) options,
         cx_format := last_value (defGetString lib) ''format'' (cx_format ctx) options,
         cx_structure := last_value (\<lambda>e. map_sum id structure_on_one_line (defGetString lib e)) ''structure''
           (cx_structure ctx) options,
         cx_compression := last_value (defGetString lib) ''compression'' (cx_compression ctx) options,
         cx_timeout := last_value (timeout_option lib) ''timeout'' (cx_timeout ctx) options,
         cx_encoding_check := last_value (encoding_check_option lib) ''encoding_check'' (cx_encoding_check ctx) options\<rparr>"

lemma option_fields_Nil [simp]: "option_fields lib [] ctx = ctx"
  by (simp add: option_fields_def)

lemma set_option_fields:
  assumes "set_option lib elem ctx = Some (Inr ctx')"
  shows "option_fields lib options ctx' = option_fields lib (elem # options) ctx"
  using assms
  by (auto simp: set_option_def option_fields_def error_simps split: if_splits)

lemma other_option_fields:
  assumes "\<not> chdb_option elem"
  shows "option_fields lib (elem # options) ctx = option_fields lib options ctx"
  using assms by (auto simp: option_fields_def chdb_options_def)

lemma set_options_Inr:
  "set_options lib options ctx others = Inr r \<longleftrightarrow>
     list_all (option_ok lib (others \<noteq> None)) options
     \<and> r = (option_fields lib options ctx, map_option (\<lambda>os. os @ filter (\<lambda>e. \<not> chdb_option e) options) others)"
proof (induction options arbitrary: ctx others)
  case Nil
  then show ?case by (auto simp: option.map_ident)
next
  case (Cons elem options)
  show ?case
  proof (cases "chdb_option elem")
    case True
    show ?thesis
    proof (cases "option_ok lib (others \<noteq> None) elem")
      case ok: True
      with set_option_ok [OF True] obtain ctx' where "set_option lib elem ctx = Some (Inr ctx')" by blast
      with True ok Cons.IH [of ctx' others] set_option_fields show ?thesis by simp
    next
      case False
      with set_option_ok [OF True, of lib ctx] set_option_None [of lib elem ctx] True
      obtain e where "set_option lib elem ctx = Some (Inl e)" by (metis old.sum.exhaust option.exhaust)
      with False show ?thesis by simp
    qed
  next
    case False
    then have "set_option lib elem ctx = None" by (simp add: set_option_None)
    moreover have "option_ok lib (others \<noteq> None) elem \<longleftrightarrow> others \<noteq> None"
      using False by (auto simp: option_ok_def chdb_options_def)
    ultimately show ?thesis using False Cons.IH
      by (cases others) (auto simp: other_option_fields comp_def)
  qed
qed

section \<open>Properties of the options\<close>

text \<open>
  C39. The options of a statement are accepted exactly when every one of them is acceptable on its
  own: a string option has a string, \<open>timeout\<close> a number that fits in 32 bits, \<open>encoding_check\<close> a
  known value, and an option chDB does not know is acceptable only where others are collected.
  The context then holds the last value given for each option, the default where none was
  given, and its other fields unchanged; the collected options are exactly the unknown ones, in
  their order.
\<close>

theorem options_accepted:
  "contextualize_options lib ctx options others = Inr (ctx', others') \<longleftrightarrow>
     list_all (option_ok lib (others \<noteq> None)) options
     \<and> ctx' = option_fields lib options (default_options ctx)
     \<and> others' = map_option (\<lambda>os. os @ filter (\<lambda>e. \<not> chdb_option e) options) others"
  by (auto simp: contextualize_options_def set_options_Inr)

lemma last_value_filter:
  "last_value get name dflt options = last_value get name dflt (filter (\<lambda>e. defname e = name) options)"
  by (induction options arbitrary: dflt) simp_all

lemma last_value_append [simp]:
  "last_value get name dflt (xs @ ys) = last_value get name (last_value get name dflt xs) ys"
  by (simp add: last_value_def)

lemma last_value_last:
  "xs \<noteq> [] \<Longrightarrow> defname (last xs) = name \<Longrightarrow> get (last xs) = Inr v \<Longrightarrow> last_value get name dflt xs = v"
  by (cases xs rule: rev_cases) simp_all

lemma last_value_invariant:
  assumes "P dflt" and "\<And>e v. get e = Inr v \<Longrightarrow> P v"
  shows "P (last_value get name dflt options)"
  using assms by (induction options arbitrary: dflt) (auto split: sum.splits)

lemma uint_ucast_timeout:
  assumes "0 \<le> sint (t :: 64 word)" and "sint t \<le> UINT32_MAX"
  shows "uint (ucast t :: 32 word) = sint t"
proof -
  have r: "0 \<le> sint t" "sint t < 2 ^ 32" "sint t < 2 ^ 64" using assms by (simp_all add: UINT32_MAX_def)
  have "uint t = take_bit LENGTH(64) (sint t)" by (rule uint_sint)
  with r have u: "uint t = sint t" by (simp add: take_bit_int_eq_self)
  have "uint (ucast t :: 32 word) = take_bit LENGTH(32) (uint t)" by (rule unsigned_ucast_eq)
  with r u show ?thesis by (simp add: take_bit_int_eq_self)
qed

text \<open>
  What reaches chDB from the options is in range: the structure has no line break, the timeout
  is the value of the last \<open>timeout\<close> option without truncation, and 30 seconds without one.
\<close>

theorem options_in_range:
  assumes "contextualize_options lib ctx options others = Inr (ctx', others')"
  shows "set (cx_structure ctx') \<inter> {CHR 0x0A, CHR 0x0D} = {}
    \<and> (case filter (\<lambda>e. defname e = ''timeout'') options of
         [] \<Rightarrow> uint (cx_timeout ctx') = 30000
       | es \<Rightarrow> (\<exists>t. defGetInt64 lib (last es) = Inr t \<and> uint (cx_timeout ctx') = sint t))"
proof
  have ctx': "ctx' = option_fields lib options (default_options ctx)" and ok: "list_all (option_ok lib (others \<noteq> None)) options"
    using assms by (auto simp: contextualize_options_def set_options_Inr)
  have "set (structure_on_one_line v) \<inter> {CHR 0x0A, CHR 0x0D} = {}" for v
    by (auto simp: structure_on_one_line_def)
  then have "set (last_value (\<lambda>e. map_sum id structure_on_one_line (defGetString lib e)) ''structure'' [] options)
      \<inter> {CHR 0x0A, CHR 0x0D} = {}"
    by (intro last_value_invariant [where P = "\<lambda>s. set s \<inter> {CHR 0x0A, CHR 0x0D} = {}"])
      (auto simp: map_sum_def split: sum.splits)
  then show "set (cx_structure ctx') \<inter> {CHR 0x0A, CHR 0x0D} = {}"
    by (simp add: ctx' option_fields_def default_options_def)
  let ?ts = "filter (\<lambda>e. defname e = ''timeout'') options"
  have t: "cx_timeout ctx' = last_value (timeout_option lib) ''timeout'' 30000 ?ts"
    by (simp add: ctx' option_fields_def default_options_def last_value_filter [symmetric])
  show "case ?ts of [] \<Rightarrow> uint (cx_timeout ctx') = 30000
       | es \<Rightarrow> (\<exists>t. defGetInt64 lib (last es) = Inr t \<and> uint (cx_timeout ctx') = sint t)"
  proof (cases "?ts = []")
    case True
    with t show ?thesis by simp
  next
    case False
    then have l: "last ?ts \<in> set options" "defname (last ?ts) = ''timeout''" using last_in_set [OF False] by auto
    with ok have "option_ok lib (others \<noteq> None) (last ?ts)" by (simp add: list_all_iff)
    with l(2) obtain w where w: "defGetInt64 lib (last ?ts) = Inr w" "0 \<le> sint w" "sint w \<le> UINT32_MAX"
      by (auto simp: option_ok_def)
    then have "timeout_option lib (last ?ts) = Inr (ucast w)" by (simp add: timeout_option_Inr)
    then have "cx_timeout ctx' = ucast w" unfolding t by (rule last_value_last [OF False l(2)])
    then have "uint (cx_timeout ctx') = sint w" by (simp only: uint_ucast_timeout [OF w(2,3)])
    with w(1) False show ?thesis by (simp only: list.case_eq_if if_False list.collapse not_False_eq_True) blast
  qed
qed

text \<open>Readers that take the argument's text as it is, and one valid number.\<close>

definition ex_def_lib :: def_lib where
  "ex_def_lib = \<lparr>defGetString = (\<lambda>e. case defarg e of None \<Rightarrow> Inl (ereport ERRCODE_SYNTAX_ERROR (defname e @ '' requires a parameter'')) | Some s \<Rightarrow> Inr s),
     defGetInt64 = (\<lambda>e. Inr 5), pgch_parse_encoding_check = (\<lambda>s. if s = ''fail'' then Some CHC_ENC_FAIL else None)\<rparr>"

definition blank_context :: chdbCopyContext where
  "blank_context = \<lparr>cx_rel = None, cx_attnums = [], cx_perminfo = None, cx_scheme = http_scheme, cx_cmd_type = CHR 0x00,
     cx_timeout = 0, cx_max_memory = 0, cx_max_threads = 0, cx_max_parsers = 0, cx_encoding_check = CHC_ENC_FAIL,
     cx_url = [], cx_access_key = [], cx_access_secret = [], cx_session_token = [], cx_format = [], cx_structure = [],
     cx_compression = [], cx_preserve_nested = False\<rparr>"

theorem options_in_range_witness:
  "\<exists>ctx'. contextualize_options ex_def_lib blank_context
      [\<lparr>defname = ''timeout'', defarg = Some ''5''\<rparr>, \<lparr>defname = ''structure'', defarg = Some [CHR ''a'', CHR 0x0A, CHR ''b'']\<rparr>] None
      = Inr (ctx', None) \<and> set (cx_structure ctx') \<inter> {CHR 0x0A, CHR 0x0D} = {} \<and> uint (cx_timeout ctx') = 5"
proof -
  let ?opts = "[\<lparr>defname = ''timeout'', defarg = Some ''5''\<rparr>, \<lparr>defname = ''structure'', defarg = Some [CHR ''a'', CHR 0x0A, CHR ''b'']\<rparr>]"
  obtain ctx' where c: "contextualize_options ex_def_lib blank_context ?opts None = Inr (ctx', None)"
    by (simp add: contextualize_options_def set_option_def timeout_option_def ex_def_lib_def UINT32_MAX_def)
  from options_in_range [OF c] c show ?thesis by (auto simp: ex_def_lib_def)
qed

end
