(* ===== verification/Fd_Table.thy ===== *)
theory Fd_Table
  imports Wire_Setup
begin

text \<open>
  Descriptor tables, and what the forked child does with its own before it becomes the
  helper: \<open>reserve_fd\<close>, \<open>place_fd\<close> and \<open>exec_helper\<close> of \<open>src/helper.c\<close>. A table maps
  descriptor numbers to open files; the numbers the channels happen to have are arbitrary,
  and the child must not overwrite one it still needs.
\<close>

section \<open>Descriptor tables\<close>

text \<open>The files the sources open, and anything else that was open before.\<close>

datatype open_file =
    DataOwn | DataPeer | ErrRead | ErrWrite | SetupRead | SetupWrite | DevNull | OtherFile nat

record fdesc =
  ofile :: open_file
  cloexec :: bool
  nonblock :: bool

type_synonym fdtable = "int \<Rightarrow> fdesc option"

definition fresh_fd :: "open_file \<Rightarrow> fdesc" where
  "fresh_fd f = \<lparr>ofile = f, cloexec = False, nonblock = False\<rparr>"

text \<open>The lowest free number from \<open>lo\<close> on, among \<open>n\<close> candidates.\<close>

fun first_free :: "fdtable \<Rightarrow> int \<Rightarrow> nat \<Rightarrow> int option" where
  "first_free t lo 0 = None"
| "first_free t lo (Suc n) = (if t lo = None then Some lo else first_free t (lo + 1) n)"

text \<open>
  \<open>open\<close>, \<open>fcntl(F_DUPFD)\<close>, \<open>dup2\<close>, \<open>close\<close> and \<open>fcntl(F_SETFD, 0)\<close>, under a limit on
  descriptor numbers. A failing call returns -1 and changes nothing; duplicates do not
  inherit the close-on-exec flag.
\<close>

definition sys_open :: "int \<Rightarrow> fdtable \<Rightarrow> open_file \<Rightarrow> int \<times> fdtable" where
  "sys_open limit t f =
     (case first_free t 0 (nat limit) of None \<Rightarrow> (-1, t) | Some k \<Rightarrow> (k, t(k \<mapsto> fresh_fd f)))"

definition sys_close :: "fdtable \<Rightarrow> int \<Rightarrow> fdtable" where
  "sys_close t fd = t(fd := None)"

definition sys_dupfd :: "int \<Rightarrow> fdtable \<Rightarrow> int \<Rightarrow> int \<Rightarrow> int \<times> fdtable" where
  "sys_dupfd limit t fd lo =
     (case t fd of None \<Rightarrow> (-1, t)
      | Some d \<Rightarrow>
          (case first_free t lo (nat (limit - lo)) of
             None \<Rightarrow> (-1, t) | Some k \<Rightarrow> (k, t(k \<mapsto> d\<lparr>cloexec := False\<rparr>))))"

definition sys_dup2 :: "fdtable \<Rightarrow> int \<Rightarrow> int \<Rightarrow> int \<times> fdtable" where
  "sys_dup2 t fd target =
     (case t fd of None \<Rightarrow> (-1, t)
      | Some d \<Rightarrow> (target, if fd = target then t else t(target \<mapsto> d\<lparr>cloexec := False\<rparr>)))"

definition sys_setfd0 :: "fdtable \<Rightarrow> int \<Rightarrow> int \<times> fdtable" where
  "sys_setfd0 t fd =
     (case t fd of None \<Rightarrow> (-1, t) | Some d \<Rightarrow> (0, t(fd \<mapsto> d\<lparr>cloexec := False\<rparr>)))"

text \<open>\<open>execv\<close> drops every descriptor marked close-on-exec.\<close>

definition after_exec :: "fdtable \<Rightarrow> fdtable" where
  "after_exec t fd = (case t fd of None \<Rightarrow> None | Some d \<Rightarrow> if cloexec d then None else Some d)"

section \<open>The child\<close>

definition CHDB_SETUP_FD :: int where "CHDB_SETUP_FD = 3"

definition reserve_fd :: "int \<Rightarrow> fdtable \<Rightarrow> int \<Rightarrow> int \<times> fdtable" where
  "reserve_fd limit t fd =
     (if fd > CHDB_SETUP_FD then (fd, t)
      else (case sys_dupfd limit t fd 10 of (high, t') \<Rightarrow> (high, sys_close t' fd)))"

definition place_fd :: "fdtable \<Rightarrow> int \<Rightarrow> int \<Rightarrow> bool \<times> fdtable" where
  "place_fd t fd target =
     (if fd = target then (case sys_setfd0 t fd of (r, t') \<Rightarrow> (r = 0, t'))
      else (case sys_dup2 t fd target of (r, t') \<Rightarrow> (r = target, t')))"

datatype child_end = Exit nat | Running fdtable

text \<open>
  \<open>exec_helper\<close>: \<open>ok_exec\<close> is whether \<open>execv\<close> succeeds. The child either exits or runs the
  helper with the resulting table. The chain of \<open>||\<close> stops at the first failure.
\<close>

definition exec_helper ::
  "int \<Rightarrow> bool \<Rightarrow> fdtable \<Rightarrow> int \<Rightarrow> int \<Rightarrow> int \<Rightarrow> char \<Rightarrow> child_end"
where
  "exec_helper limit ok_exec t data_peer err_peer setup_peer c =
     (let (null, t) = sys_open limit t DevNull;
          (data_peer, t) = reserve_fd limit t data_peer;
          (err_peer, t) = reserve_fd limit t err_peer;
          (setup_peer, t) = reserve_fd limit t setup_peer;
          (null, t) = reserve_fd limit t null;
          (ok0, t) = place_fd t (if c = CHDB_CMD_INSERT then data_peer else null) 0
      in if \<not> ok0 then Exit 126 else
         (let (ok1, t) = place_fd t (if c = CHDB_CMD_INSERT then null else data_peer) 1
          in if \<not> ok1 then Exit 126 else
             (let (ok2, t) = place_fd t err_peer 2
              in if \<not> ok2 then Exit 126 else
                 (let (ok3, t) = place_fd t setup_peer CHDB_SETUP_FD
                  in if \<not> ok3 then Exit 126
                     else if ok_exec then Running (after_exec t) else Exit 127))))"

section \<open>One call at a time\<close>

lemma first_free_Some:
  "first_free t lo n = Some k \<Longrightarrow> t k = None \<and> lo \<le> k"
  by (induction t lo n rule: first_free.induct) (auto split: if_splits)

lemma sys_open_spec:
  assumes "sys_open limit t f = (k, t')"
  shows "(k = -1 \<and> t' = t) \<or> (0 \<le> k \<and> t k = None \<and> t' = t(k \<mapsto> fresh_fd f))"
  using assms first_free_Some [of t 0 "nat limit"] by (auto simp: sys_open_def split: option.splits)

text \<open>
  A reserved descriptor has a number above the standard ones and still means the same file;
  no other open descriptor is touched.
\<close>

lemma reserve_fd_spec:
  assumes "reserve_fd limit t fd = (h, t')" and "t fd = Some d"
  shows "h = -1 \<or> (3 < h \<and> (\<exists>d'. t' h = Some d' \<and> ofile d' = ofile d) \<and> (h = fd \<or> t h = None))"
    and "k \<noteq> fd \<Longrightarrow> k \<noteq> h \<Longrightarrow> t' k = t k"
proof -
  show "h = -1 \<or> (3 < h \<and> (\<exists>d'. t' h = Some d' \<and> ofile d' = ofile d) \<and> (h = fd \<or> t h = None))"
    using assms first_free_Some [of t 10 "nat (limit - 10)"]
    by (auto simp: reserve_fd_def sys_dupfd_def sys_close_def CHDB_SETUP_FD_def
        split: if_splits option.splits)
  show "k \<noteq> fd \<Longrightarrow> k \<noteq> h \<Longrightarrow> t' k = t k"
    using assms
    by (auto simp: reserve_fd_def sys_dupfd_def sys_close_def split: if_splits option.splits)
qed

lemma reserve_fd_keep:
  assumes "reserve_fd limit t fd = (h, t')" and "t (-1) = None" and "k \<noteq> fd" and "t k = Some e"
  shows "t' k = Some e" and "k \<noteq> h"
  using assms first_free_Some [of t 10 "nat (limit - 10)"]
  by (auto simp: reserve_fd_def sys_dupfd_def sys_close_def split: if_splits option.splits)

lemma reserve_fd_neg:
  "reserve_fd limit t fd = (h, t') \<Longrightarrow> t (-1) = None \<Longrightarrow> t' (-1) = None"
  using first_free_Some [of t 10 "nat (limit - 10)"]
  by (auto simp: reserve_fd_def sys_dupfd_def sys_close_def split: if_splits option.splits)

text \<open>A descriptor that is out of the way, or could not be moved.\<close>

definition ready :: "fdtable \<Rightarrow> int \<Rightarrow> open_file \<Rightarrow> bool" where
  "ready t h f \<longleftrightarrow> h = -1 \<or> (3 < h \<and> (\<exists>d. t h = Some d \<and> ofile d = f))"

lemma reserve_ready:
  "reserve_fd limit t fd = (h, t') \<Longrightarrow> t fd = Some d \<Longrightarrow> ready t' h (ofile d)"
  using reserve_fd_spec(1) by (fastforce simp: ready_def)

lemma reserve_ready_none:
  "reserve_fd limit t (-1) = (h, t') \<Longrightarrow> t (-1) = None \<Longrightarrow> ready t' h f"
  by (auto simp: reserve_fd_def sys_dupfd_def CHDB_SETUP_FD_def ready_def)

lemma reserve_keep_ready:
  "reserve_fd limit t fd = (h, t') \<Longrightarrow> t (-1) = None \<Longrightarrow> k \<noteq> fd \<Longrightarrow> ready t k f \<Longrightarrow> ready t' k f"
  using reserve_fd_keep(1) by (fastforce simp: ready_def)

lemma place_ready:
  assumes "place_fd t fd target = (True, t')" and "ready t fd f" and "t (-1) = None"
    and "0 \<le> target" "target \<le> 3"
  shows "\<exists>d. ofile d = f \<and> \<not> cloexec d \<and> t' = t(target \<mapsto> d)"
proof -
  have "fd \<noteq> target" using assms(2,4,5) by (auto simp: ready_def)
  with assms(1,4) obtain d where d: "t fd = Some d" "t' = t(target \<mapsto> d\<lparr>cloexec := False\<rparr>)"
    by (auto simp: place_fd_def sys_dup2_def split: option.splits)
  with assms(2,3) show ?thesis by (auto simp: ready_def intro!: exI [of _ "d\<lparr>cloexec := False\<rparr>"])
qed

lemma ready_update: "0 \<le> target \<Longrightarrow> target \<le> 3 \<Longrightarrow> ready t k f \<Longrightarrow> ready (t(target := x)) k f"
  by (auto simp: ready_def)

section \<open>The descriptors the helper starts with\<close>

text \<open>All four sources are out of the way of the four targets once the reservations are done.\<close>

lemma reservations:
  assumes "t (-1) = None" "t data = Some d" "t err = Some e" "t setup = Some s"
    and distinct: "data \<noteq> err" "data \<noteq> setup" "err \<noteq> setup"
    and "sys_open limit t DevNull = (null, t0)"
    and r: "reserve_fd limit t0 data = (data', t1)" "reserve_fd limit t1 err = (err', t2)"
      "reserve_fd limit t2 setup = (setup', t3)" "reserve_fd limit t3 null = (null', t4)"
  shows "ready t4 data' (ofile d)" "ready t4 err' (ofile e)" "ready t4 setup' (ofile s)"
    "ready t4 null' DevNull" "t4 (-1) = None"
proof -
  have o: "(null = -1 \<and> t0 = t) \<or> (0 \<le> null \<and> t null = None \<and> t0 = t(null \<mapsto> fresh_fd DevNull))"
    using assms(8) by (rule sys_open_spec)
  have t0: "t0 (-1) = None" "t0 data = Some d" "t0 err = Some e" "t0 setup = Some s"
    and nd: "null \<noteq> data" "null \<noteq> err" "null \<noteq> setup"
    using o assms(1-4) by auto
  have n0: "null = -1 \<or> t0 null = Some (fresh_fd DevNull)" using o by auto
  note neg = reserve_fd_neg [OF r(1) t0(1)]
  note neg2 = reserve_fd_neg [OF r(2) neg]
  note neg3 = reserve_fd_neg [OF r(3) neg2]
  note k1 = reserve_fd_keep [OF r(1) t0(1)] and k2 = reserve_fd_keep [OF r(2) neg]
    and k3 = reserve_fd_keep [OF r(3) neg2]
  have e1: "t1 err = Some e" "t1 setup = Some s" "err \<noteq> data'" "setup \<noteq> data'"
    using k1 [of "err"] k1 [of "setup"] distinct t0 by auto
  have s2: "t2 setup = Some s" "setup \<noteq> err'" using k2 [of "setup"] distinct e1 by auto
  have n: "null = -1 \<or> (t3 null = Some (fresh_fd DevNull) \<and> null \<noteq> data' \<and> null \<noteq> err'
      \<and> null \<noteq> setup')"
    using n0 k1 [OF nd(1)] k2 [OF nd(2)] k3 [OF nd(3)] by blast
  have null_ne: "h \<noteq> null \<or> h = -1" if "h \<in> {data', err', setup'}" for h using n that by auto
  have keep4: "ready t4 h f" if "ready t3 h f" "h \<in> {data', err', setup'}" for h f
    using null_ne [OF that(2)] reserve_keep_ready [OF r(4) neg3 _ that(1)]
    by (auto simp: ready_def)
  have "ready t1 data' (ofile d)" using r(1) t0(2) by (rule reserve_ready)
  then have "ready t3 data' (ofile d)"
    using reserve_keep_ready [OF r(2) neg] reserve_keep_ready [OF r(3) neg2] e1(3,4) by metis
  then show "ready t4 data' (ofile d)" by (rule keep4) simp
  have "ready t2 err' (ofile e)" using r(2) e1(1) by (rule reserve_ready)
  then have "ready t3 err' (ofile e)" using reserve_keep_ready [OF r(3) neg2] s2(2) by metis
  then show "ready t4 err' (ofile e)" by (rule keep4) simp
  have "ready t3 setup' (ofile s)" using r(3) s2(1) by (rule reserve_ready)
  then show "ready t4 setup' (ofile s)" by (rule keep4) simp
  show "ready t4 null' DevNull"
    using n reserve_ready [OF r(4)] reserve_ready_none [of limit t3 null' t4] neg3 r(4)
    by (fastforce simp: fresh_fd_def)
  show "t4 (-1) = None" using r(4) neg3 by (rule reserve_fd_neg)
qed

lemma reservation_files:
  assumes "t (-1) = None" "t data = Some d" "t err = Some e" "t stp = Some s"
    and distinct: "data \<noteq> err" "data \<noteq> stp" "err \<noteq> stp"
    and "sys_open limit t DevNull = (null, t0)"
    and r: "reserve_fd limit t0 data = (data', t1)" "reserve_fd limit t1 err = (err', t2)"
      "reserve_fd limit t2 stp = (stp', t3)" "reserve_fd limit t3 null = (null', t4)"
  shows "t0 data = Some d" "t1 err = Some e" "t2 stp = Some s"
    "t3 null = None \<or> t3 null = Some (fresh_fd DevNull)"
proof -
  have o: "(null = -1 \<and> t0 = t) \<or> (0 \<le> null \<and> t null = None \<and> t0 = t(null \<mapsto> fresh_fd DevNull))"
    using assms(8) by (rule sys_open_spec)
  have t0: "t0 (-1) = None" "t0 data = Some d" "t0 err = Some e" "t0 stp = Some s"
    and nd: "null \<noteq> data" "null \<noteq> err" "null \<noteq> stp"
    using o assms(1-4) by auto
  have n0: "null = -1 \<or> t0 null = Some (fresh_fd DevNull)" using o by auto
  note neg = reserve_fd_neg [OF r(1) t0(1)]
  note neg2 = reserve_fd_neg [OF r(2) neg]
  note neg3 = reserve_fd_neg [OF r(3) neg2]
  note k1 = reserve_fd_keep [OF r(1) t0(1)] and k2 = reserve_fd_keep [OF r(2) neg]
    and k3 = reserve_fd_keep [OF r(3) neg2]
  show "t0 data = Some d" by (rule t0)
  have e1: "t1 err = Some e" "t1 stp = Some s" using k1 [of err] k1 [of stp] distinct t0 by auto
  then show "t1 err = Some e" "t2 stp = Some s" using k2 [of stp] distinct by auto
  show "t3 null = None \<or> t3 null = Some (fresh_fd DevNull)"
    using n0 neg3 k1 [OF nd(1)] k2 [OF nd(2)] k3 [OF nd(3)] by blast
qed

lemma placements:
  assumes neg: "t (-1) = None" and "ready t a A" "ready t b B" "ready t c C" "ready t d D"
    and p: "place_fd t a 0 = (True, t1)" "place_fd t1 b 1 = (True, t2)"
      "place_fd t2 c 2 = (True, t3)" "place_fd t3 d 3 = (True, t4)"
  shows "map_option ofile (after_exec t4 0) = Some A" "map_option ofile (after_exec t4 1) = Some B"
    "map_option ofile (after_exec t4 2) = Some C" "map_option ofile (after_exec t4 3) = Some D"
    "\<And>k. k \<notin> {0, 1, 2, 3} \<Longrightarrow> t4 k = t k"
proof -
  obtain x0 where x0: "ofile x0 = A" "\<not> cloexec x0" "t1 = t(0 \<mapsto> x0)"
    using place_ready [OF p(1) assms(2) neg] by auto
  obtain x1 where x1: "ofile x1 = B" "\<not> cloexec x1" "t2 = t1(1 \<mapsto> x1)"
    using place_ready [OF p(2), of B] assms(3) neg x0(3) by (auto simp: ready_update)
  obtain x2 where x2: "ofile x2 = C" "\<not> cloexec x2" "t3 = t2(2 \<mapsto> x2)"
    using place_ready [OF p(3), of C] assms(4) neg x0(3) x1(3) by (auto simp: ready_update)
  obtain x3 where x3: "ofile x3 = D" "\<not> cloexec x3" "t4 = t3(3 \<mapsto> x3)"
    using place_ready [OF p(4), of D] assms(5) neg x0(3) x1(3) x2(3) by (auto simp: ready_update)
  show "map_option ofile (after_exec t4 0) = Some A" "map_option ofile (after_exec t4 1) = Some B"
    "map_option ofile (after_exec t4 2) = Some C" "map_option ofile (after_exec t4 3) = Some D"
    "\<And>k. k \<notin> {0, 1, 2, 3} \<Longrightarrow> t4 k = t k"
    using x0 x1 x2 x3 by (simp_all add: after_exec_def)
qed

text \<open>
  A set of files is confined to a process when every descriptor for them closes on exec. What the child
  duplicates is never one of those files, so none of them gets past \<open>execv\<close>.
\<close>

definition confined :: "open_file set \<Rightarrow> fdtable \<Rightarrow> bool" where
  "confined F t \<longleftrightarrow> (\<forall>k d. t k = Some d \<longrightarrow> ofile d \<in> F \<longrightarrow> cloexec d)"

lemma confined_open: "sys_open limit t f = (k, t') \<Longrightarrow> confined F t \<Longrightarrow> f \<notin> F \<Longrightarrow> confined F t'"
  by (drule sys_open_spec) (auto simp: confined_def fresh_fd_def split: if_splits)

lemma confined_reserve:
  "reserve_fd limit t fd = (h, t') \<Longrightarrow> confined F t \<Longrightarrow> (\<And>d. t fd = Some d \<Longrightarrow> ofile d \<notin> F) \<Longrightarrow> confined F t'"
  by (auto simp: reserve_fd_def sys_dupfd_def sys_close_def confined_def split: if_splits option.splits)

lemma confined_place:
  assumes "place_fd t fd target = (True, t')" "ready t fd f" "t (-1) = None" "0 \<le> target" "target \<le> 3"
    and "confined F t" "f \<notin> F"
  shows "confined F t'"
  using place_ready [OF assms(1-5)] assms(6,7) by (auto simp: confined_def split: if_splits)

lemma confined_after_exec:
  "confined F t \<Longrightarrow> after_exec t k = Some d \<Longrightarrow> ofile d \<notin> F"
  by (auto simp: confined_def after_exec_def split: option.splits if_splits)

lemma confined_reservations:
  assumes "t (-1) = None" "t data = Some d" "t err = Some e" "t stp = Some s"
    and distinct: "data \<noteq> err" "data \<noteq> stp" "err \<noteq> stp"
    and o: "sys_open limit t DevNull = (null, t0)"
    and r: "reserve_fd limit t0 data = (data', t1)" "reserve_fd limit t1 err = (err', t2)"
      "reserve_fd limit t2 stp = (stp', t3)" "reserve_fd limit t3 null = (null', t4)"
    and priv: "confined F t" "{ofile d, ofile e, ofile s, DevNull} \<inter> F = {}"
  shows "confined F t4"
proof -
  note f = reservation_files [OF assms(1-12)]
  have "confined F t0" using o priv by (auto intro: confined_open)
  then have "confined F t1" using r(1) f(1) priv(2) by (auto intro: confined_reserve)
  then have "confined F t2" using r(2) f(2) priv(2) by (auto intro: confined_reserve)
  then have "confined F t3" using r(3) f(3) priv(2) by (auto intro: confined_reserve)
  then show ?thesis using r(4) f(4) priv(2) by (auto simp: fresh_fd_def intro: confined_reserve)
qed

lemma confined_placements:
  assumes neg: "t (-1) = None" and "ready t a A" "ready t b B" "ready t c C" "ready t d D"
    and p: "place_fd t a 0 = (True, t1)" "place_fd t1 b 1 = (True, t2)"
      "place_fd t2 c 2 = (True, t3)" "place_fd t3 d 3 = (True, t4)"
    and priv: "confined F t" "A \<notin> F" "B \<notin> F" "C \<notin> F" "D \<notin> F"
  shows "confined F t4"
proof -
  have step: "u' (-1) = None \<and> (\<forall>k f. ready u k f \<longrightarrow> ready u' k f) \<and> confined F u'"
    if "place_fd u k target = (True, u')" "ready u k f" "u (-1) = None" "0 \<le> target" "target \<le> 3"
      "confined F u" "f \<notin> F" for u u' k target f
    using place_ready [OF that(1-5)] confined_place [OF that] that(3-5) by (auto simp: ready_update)
  show ?thesis
    using step [OF p(1) assms(2) neg _ _ priv(1,2)] step [OF p(2), of B] step [OF p(3), of C]
      step [OF p(4), of D] assms(3-5) priv(3-5) by auto
qed

text \<open>
  Whatever numbers the channels' descriptors have, the helper starts with them where it
  expects them: the data channel on standard input for an INSERT and on standard output
  otherwise, \<open>/dev/null\<close> on the other, the error pipe on 2 and the setup pipe on 3.
\<close>

definition channels_placed ::
  "open_file set \<Rightarrow> open_file \<Rightarrow> open_file \<Rightarrow> open_file \<Rightarrow> char \<Rightarrow> fdtable \<Rightarrow> bool"
where
  "channels_placed F data err st c t \<longleftrightarrow>
     map_option ofile (t 0) = Some (if c = CHDB_CMD_INSERT then data else DevNull)
     \<and> map_option ofile (t 1) = Some (if c = CHDB_CMD_INSERT then DevNull else data)
     \<and> map_option ofile (t 2) = Some err \<and> map_option ofile (t 3) = Some st
     \<and> (\<forall>k d. t k = Some d \<longrightarrow> ofile d \<notin> F)"

lemma exec_helper_channels:
  assumes "t (-1) = None" and "t data = Some d" and "t err = Some e" and "t stp = Some s"
    and "data \<noteq> err" and "data \<noteq> stp" and "err \<noteq> stp"
    and run: "exec_helper limit ok_exec t data err stp c = Running t'"
    and priv: "confined F t" "{ofile d, ofile e, ofile s, DevNull} \<inter> F = {}"
  shows "channels_placed F (ofile d) (ofile e) (ofile s) c t'"
proof -
  obtain null t0 where o: "sys_open limit t DevNull = (null, t0)" by fastforce
  obtain data' t1 where r1: "reserve_fd limit t0 data = (data', t1)" by fastforce
  obtain err' t2 where r2: "reserve_fd limit t1 err = (err', t2)" by fastforce
  obtain stp' t3 where r3: "reserve_fd limit t2 stp = (stp', t3)" by fastforce
  obtain null' t4 where r4: "reserve_fd limit t3 null = (null', t4)" by fastforce
  note res = reservations [OF assms(1-7) o r1 r2 r3 r4]
  have p4: "confined F t4"
    by (rule confined_reservations [OF assms(1-7) o r1 r2 r3 r4 priv])
  let ?in = "if c = CHDB_CMD_INSERT then data' else null'"
  let ?out = "if c = CHDB_CMD_INSERT then null' else data'"
  obtain u1 u2 u3 u4 where p: "place_fd t4 ?in 0 = (True, u1)" "place_fd u1 ?out 1 = (True, u2)"
      "place_fd u2 err' 2 = (True, u3)" "place_fd u3 stp' 3 = (True, u4)" and t': "t' = after_exec u4"
    using run o r1 r2 r3 r4
    by (auto simp: exec_helper_def Let_def CHDB_SETUP_FD_def split: prod.splits if_splits)
  have rd: "ready t4 ?in (if c = CHDB_CMD_INSERT then ofile d else DevNull)"
    "ready t4 ?out (if c = CHDB_CMD_INSERT then DevNull else ofile d)" using res by simp_all
  have "confined F u4"
    by (rule confined_placements [OF res(5) rd res(2,3) p p4]) (use priv(2) in auto)
  with placements [OF res(5) rd res(2,3) p] t' show ?thesis
    by (auto simp: channels_placed_def dest: confined_after_exec)
qed

end
