(* ===== verification/Helper_Process.thy ===== *)
theory Helper_Process
  imports Fd_Table
begin

text \<open>
  The backend's side of the helper process, \<open>src/helper.c\<close>: the record \<open>chdbHelper\<close>, the
  operations on its channels and its exit status, and the operations the COPY code calls
  (\<open>chdb_helper_start\<close>, \<open>chdb_helper_recv\<close>, \<open>chdb_helper_write\<close>, \<open>chdb_helper_finish\<close>) with
  the cleanup \<open>stop_helper\<close> that PostgreSQL runs when the memory context goes away.
  The state \<open>backend\<close> holds the descriptor table, the record, what the operating system will
  answer (on each channel, to \<open>waitpid\<close>, to the calls of the start, to \<open>fork\<close> and to
  the child's \<open>execv\<close>), and what has been done to the outside: the bytes the channels
  accepted, the process calls made and how the forked child went on. An operation that is
  still blocked is \<open>Waiting\<close>.
\<close>

named_theorems backend_simps \<open>definitions of the primitive steps of the backend\<close>

section \<open>State\<close>

definition CHDB_HELPER_ERR_MAX :: nat where "CHDB_HELPER_ERR_MAX = 4096"

text \<open>
  \<open>struct chdbHelper\<close>. A closed descriptor is -1. \<open>h_err_buf\<close> is the filled part of
  \<open>err_buf\<close>, so \<open>err_len\<close> is its length; the status is the wait status word, negative when
  \<open>waitpid\<close> gave none.
\<close>

record chdbHelper =
  h_pid :: int
  h_data :: int
  h_err :: int
  h_setup :: int
  h_data_peer :: int
  h_err_peer :: int
  h_setup_peer :: int
  h_query :: string
  h_reaped :: bool
  h_status :: int
  h_wait_errno :: "errno option"
  h_err_buf :: string

datatype wait_event = Ended int | WaitErr errno

text \<open>
  The process calls, in the order they took effect. \<open>Waited p\<close> is the last \<open>waitpid\<close> for \<open>p\<close>: the one that
  collected it, or that failed for another reason than an interruption, after which it is not waited for again.
\<close>

datatype proc_call = Fork int | Kill int | Waited int

record backend =
  fds :: fdtable
  hp :: chdbHelper
  err_ev :: "read_event list"
  data_ev :: "read_event list"
  data_wr :: "write_event list"
  setup_wr :: "write_event list"
  wait_ev :: "wait_event list"
  intr :: "bool list"
  sys_ev :: "errno option list"
  fork_ev :: "errno + nat"
  exec_ok :: bool
  child :: "child_end option"
  sent_data :: string
  sent_setup :: string
  calls :: "proc_call list"

text \<open>The wait status macros of the platform.\<close>

definition WTERMSIG :: "int \<Rightarrow> int" where "WTERMSIG s = s mod 128"
definition WIFEXITED :: "int \<Rightarrow> bool" where "WIFEXITED s \<longleftrightarrow> WTERMSIG s = 0"
definition WEXITSTATUS :: "int \<Rightarrow> int" where "WEXITSTATUS s = s div 256 mod 256"
definition WIFSIGNALED :: "int \<Rightarrow> bool" where "WIFSIGNALED s \<longleftrightarrow> WTERMSIG s \<noteq> 0 \<and> WTERMSIG s \<noteq> 127"

section \<open>Primitive steps\<close>

text \<open>\<open>CHECK_FOR_INTERRUPTS()\<close>: a pending cancel raises.\<close>

definition check_for_interrupts :: "backend \<Rightarrow> (unit, backend) outcome" where
  "check_for_interrupts s =
     (case intr s of
        [] \<Rightarrow> Return () s
      | False # r \<Rightarrow> Return () (s\<lparr>intr := r\<rparr>)
      | True # r \<Rightarrow> Raise (ereport ERRCODE_QUERY_CANCELED ''canceling statement due to user request'')
          (s\<lparr>intr := r\<rparr>))"

text \<open>
  \<open>wait_fd\<close> only sleeps: it returns when the descriptor is ready, on a latch or after the
  poll interval, and the caller tries again.
\<close>

definition wait_fd :: "int \<Rightarrow> backend \<Rightarrow> backend" where
  "wait_fd fd s = s"

text \<open>\<open>close_fd\<close> on each of the six fields.\<close>

definition close_fd :: "int \<Rightarrow> fdtable \<Rightarrow> fdtable" where
  "close_fd fd t = (if fd \<ge> 0 then sys_close t fd else t)"

definition close_data :: "backend \<Rightarrow> backend" where
  "close_data s = s\<lparr>fds := close_fd (h_data (hp s)) (fds s), hp := (hp s)\<lparr>h_data := -1\<rparr>\<rparr>"

definition close_err :: "backend \<Rightarrow> backend" where
  "close_err s = s\<lparr>fds := close_fd (h_err (hp s)) (fds s), hp := (hp s)\<lparr>h_err := -1\<rparr>\<rparr>"

definition close_setup :: "backend \<Rightarrow> backend" where
  "close_setup s = s\<lparr>fds := close_fd (h_setup (hp s)) (fds s), hp := (hp s)\<lparr>h_setup := -1\<rparr>\<rparr>"

definition close_peers :: "backend \<Rightarrow> backend" where
  "close_peers s =
     s\<lparr>fds := close_fd (h_setup_peer (hp s)) (close_fd (h_err_peer (hp s))
               (close_fd (h_data_peer (hp s)) (fds s))),
       hp := (hp s)\<lparr>h_data_peer := -1, h_err_peer := -1, h_setup_peer := -1\<rparr>\<rparr>"

lemmas [backend_simps] = wait_fd_def close_data_def close_err_def close_setup_def close_peers_def

section \<open>The error channel and the exit status\<close>

text \<open>
  \<open>drain_err\<close>: the first 4095 bytes are kept, the rest goes to the sink. Any error but
  \<open>EINTR\<close> ends the loop with the descriptor still open.
\<close>

definition keep_err :: "string \<Rightarrow> backend \<Rightarrow> backend" where
  "keep_err bs s =
     (if CHDB_HELPER_ERR_MAX - 1 - length (h_err_buf (hp s)) = 0 then s
      else s\<lparr>hp := (hp s)\<lparr>h_err_buf := h_err_buf (hp s) @ bs\<rparr>\<rparr>)"

definition err_room :: "backend \<Rightarrow> nat" where
  "err_room s =
     (let room = CHDB_HELPER_ERR_MAX - 1 - length (h_err_buf (hp s))
      in if room = 0 then CHDB_HELPER_ERR_MAX else room)"

function drain_err :: "backend \<Rightarrow> (unit, backend) outcome" where
  "drain_err s =
     (if h_err (hp s) \<ge> 0 then
        (case sys_read (err_room s) (err_ev s) of
           None \<Rightarrow> Waiting
         | Some (Got bs, es) \<Rightarrow> drain_err (keep_err bs (s\<lparr>err_ev := es\<rparr>))
         | Some (GotEof, es) \<Rightarrow> drain_err (close_err (s\<lparr>err_ev := es\<rparr>))
         | Some (GotErr e, es) \<Rightarrow>
             if e \<noteq> EINTR then Return () (s\<lparr>err_ev := es\<rparr>) else drain_err (s\<lparr>err_ev := es\<rparr>))
      else Return () s)"
  by pat_completeness auto

lemma err_room_pos [simp]: "0 < err_room s"
  by (simp add: err_room_def Let_def CHDB_HELPER_ERR_MAX_def)

lemma keep_err_sel [simp]:
  "err_ev (keep_err bs s) = err_ev s" "h_err (hp (keep_err bs s)) = h_err (hp s)"
  by (simp_all add: keep_err_def)

termination drain_err
  by (relation "measure (\<lambda>s. read_size (err_ev s) + (if h_err (hp s) \<ge> 0 then 1 else 0))")
    (auto simp: close_err_def dest: sys_read_Got_size sys_read_Err_size sys_read_Eof)

declare drain_err.simps [simp del]

text \<open>What one round of the loop keeps, the loop keeps; it never raises.\<close>

lemma drain_err_rule:
  assumes "drain_err s = Return u t" and "P s"
    and "\<And>s bs es. P s \<Longrightarrow> h_err (hp s) \<ge> 0 \<Longrightarrow> sys_read (err_room s) (err_ev s) = Some (Got bs, es)
      \<Longrightarrow> P (keep_err bs (s\<lparr>err_ev := es\<rparr>))"
    and "\<And>s. P s \<Longrightarrow> h_err (hp s) \<ge> 0 \<Longrightarrow> stream_bytes (err_ev s) = [] \<Longrightarrow> P (close_err s)"
    and "\<And>s e es. P s \<Longrightarrow> h_err (hp s) \<ge> 0 \<Longrightarrow> sys_read (err_room s) (err_ev s) = Some (GotErr e, es)
      \<Longrightarrow> P (s\<lparr>err_ev := es\<rparr>)"
  shows "P t"
  using assms(1,2)
proof (induction s rule: drain_err.induct)
  case (1 s)
  show ?case
  proof (cases "h_err (hp s) \<ge> 0")
    case False
    with "1.prems" show ?thesis by (simp add: drain_err.simps [of s])
  next
    case True
    then obtain r es where r: "sys_read (err_room s) (err_ev s) = Some (r, es)"
      using "1.prems" by (simp add: drain_err.simps [of s] split: option.splits) auto
    show ?thesis
    proof (cases r)
      case (Got bs)
      then show ?thesis using "1.IH"(1) [OF True r refl Got] "1.prems" True r assms(3)
        by (simp add: drain_err.simps [of s])
    next
      case GotEof
      with r have "stream_bytes (err_ev s) = []" "es = err_ev s" by (auto dest: sys_read_Eof)
      then show ?thesis using "1.IH"(2) [OF True r refl GotEof] "1.prems" True r GotEof assms(4) [of s]
        by (simp add: drain_err.simps [of s])
    next
      case (GotErr e)
      then show ?thesis using "1.IH"(3) [OF True r refl GotErr] "1.prems" True r assms(5)
        by (cases "e = EINTR") (auto simp: drain_err.simps [of s])
    qed
  qed
qed

lemma drain_err_no_Raise [simp]: "drain_err s \<noteq> Raise e t"
proof (induction s rule: drain_err.induct)
  case (1 s)
  then show ?case
    by (subst drain_err.simps) (auto split: option.splits prod.splits read_result.splits)
qed

text \<open>The state outside the error channel.\<close>

definition same_but_err :: "backend \<Rightarrow> backend \<Rightarrow> bool" where
  "same_but_err s t \<longleftrightarrow>
     data_ev t = data_ev s \<and> data_wr t = data_wr s \<and> setup_wr t = setup_wr s \<and> wait_ev t = wait_ev s
     \<and> sent_data t = sent_data s \<and> sent_setup t = sent_setup s \<and> calls t = calls s
     \<and> intr t = intr s \<and> child t = child s \<and> h_pid (hp t) = h_pid (hp s) \<and> h_data (hp t) = h_data (hp s) \<and> h_setup (hp t) = h_setup (hp s)
     \<and> h_data_peer (hp t) = h_data_peer (hp s) \<and> h_err_peer (hp t) = h_err_peer (hp s)
     \<and> h_setup_peer (hp t) = h_setup_peer (hp s) \<and> h_query (hp t) = h_query (hp s)
     \<and> h_reaped (hp t) = h_reaped (hp s) \<and> h_status (hp t) = h_status (hp s)"

lemma drain_err_frame:
  assumes "drain_err s = Return u t"
  shows "same_but_err s t"
  by (rule drain_err_rule [OF assms]) (simp_all add: same_but_err_def keep_err_def close_err_def)

text \<open>\<open>reap\<close>: \<open>waitpid\<close> is repeated while it is interrupted, and made at most once per helper.\<close>

fun waitpid_loop :: "wait_event list \<Rightarrow> ((int \<times> errno option) \<times> wait_event list) option" where
  "waitpid_loop [] = None"
| "waitpid_loop (Ended st # es) = Some ((st, None), es)"
| "waitpid_loop (WaitErr e # es) = (if e = EINTR then waitpid_loop es else Some ((-1, Some e), es))"

definition reap :: "backend \<Rightarrow> (int, backend) outcome" where
  "reap s =
     (if h_reaped (hp s) then Return (h_status (hp s)) s
      else
        (case waitpid_loop (wait_ev s) of
           None \<Rightarrow> Waiting
         | Some ((st, e), es) \<Rightarrow>
             Return st (s\<lparr>wait_ev := es, calls := calls s @ [Waited (h_pid (hp s))],
               hp := (hp s)\<lparr>h_status := st, h_reaped := True,
                 h_wait_errno := (case e of None \<Rightarrow> h_wait_errno (hp s) | Some e' \<Rightarrow> Some e')\<rparr>\<rparr>)))"

text \<open>Every error-channel read that fails consumes an answer, which bounds the outer loop.\<close>

lemma drain_err_progress:
  "drain_err s = Return u t \<Longrightarrow> h_err (hp t) \<ge> 0 \<Longrightarrow> read_size (err_ev t) < read_size (err_ev s)"
proof (induction s rule: drain_err.induct)
  case (1 s)
  show ?case
  proof (cases "h_err (hp s) \<ge> 0")
    case False
    with "1.prems" show ?thesis by (simp add: drain_err.simps [of s])
  next
    case True
    then obtain r es where r: "sys_read (err_room s) (err_ev s) = Some (r, es)"
      using "1.prems" by (simp add: drain_err.simps [of s] split: option.splits) auto
    show ?thesis
    proof (cases r)
      case (Got bs)
      with True r "1.prems" "1.IH"(1) [OF True r refl Got] sys_read_Got_size [of "err_room s" "err_ev s" bs es]
      show ?thesis by (simp add: drain_err.simps [of s])
    next
      case GotEof
      have "drain_err (close_err (s\<lparr>err_ev := es\<rparr>)) = Return () (close_err (s\<lparr>err_ev := es\<rparr>))"
        by (subst drain_err.simps) (simp add: close_err_def)
      with True r GotEof "1.prems" show ?thesis by (simp add: drain_err.simps [of s] close_err_def)
    next
      case (GotErr e)
      with True r "1.prems" "1.IH"(3) [OF True r refl GotErr] sys_read_Err_size [of "err_room s" "err_ev s" e es]
      show ?thesis by (cases "e = EINTR") (auto simp: drain_err.simps [of s])
    qed
  qed
qed

lemma check_for_interrupts_Return:
  "check_for_interrupts s = Return u t \<Longrightarrow> \<exists>r. t = s\<lparr>intr := r\<rparr>"
  by (auto simp: check_for_interrupts_def split: list.splits bool.splits intro: exI [of _ "[]"])

lemma check_for_interrupts_Raise:
  "check_for_interrupts s = Raise e t \<Longrightarrow> errcode e = ERRCODE_QUERY_CANCELED \<and> (\<exists>r. t = s\<lparr>intr := r\<rparr>)"
  by (auto simp: check_for_interrupts_def split: list.splits bool.splits)

function drain_and_reap :: "backend \<Rightarrow> (int, backend) outcome" where
  "drain_and_reap s =
     (if h_err (hp s) \<ge> 0 then
        (case check_for_interrupts s of
           Raise e t \<Rightarrow> Raise e t
         | Waiting \<Rightarrow> Waiting
         | Return u t \<Rightarrow>
             (case drain_err t of
                Raise e t \<Rightarrow> Raise e t
              | Waiting \<Rightarrow> Waiting
              | Return v t' \<Rightarrow>
                  if h_err (hp t') \<ge> 0 then drain_and_reap (wait_fd (h_err (hp t')) t')
                  else reap t'))
      else reap s)"
  by pat_completeness auto

termination drain_and_reap
  by (relation "measure (\<lambda>s. read_size (err_ev s))")
    (auto simp: wait_fd_def dest!: drain_err_progress check_for_interrupts_Return)

declare drain_and_reap.simps [simp del]

section \<open>Reports\<close>

text \<open>
  What the operations take from PostgreSQL and the C library: \<open>pg_encoding_mbcliplen\<close> for
  UTF-8, \<open>strerror\<close>, the package library directory, the session time zone, the byte order
  and the limit on descriptor numbers.
\<close>

record helper_env =
  mbcliplen :: "string \<Rightarrow> nat"
  strerror :: "errno \<Rightarrow> string"
  pkglib :: string
  session_timezone :: string
  byte_order :: endian
  fd_limit :: int

abbreviation newline :: char where "newline \<equiv> CHR 0x0A"
abbreviation carriage_return :: char where "carriage_return \<equiv> CHR 0x0D"

fun strip_newlines :: "string \<Rightarrow> string" where
  "strip_newlines s =
     (if s \<noteq> [] \<and> last s \<in> {newline, carriage_return} then strip_newlines (butlast s) else s)"

declare strip_newlines.simps [simp del]

text \<open>The C string in a buffer ends at its first NUL byte.\<close>

definition cstr :: "string \<Rightarrow> string" where
  "cstr s = takeWhile (\<lambda>c. c \<noteq> CHR 0x00) s"

text \<open>The \<open>strstr\<close>, \<open>strchr\<close> and \<open>memmove\<close> of a span from a needle to a closing character.\<close>

definition remove_span :: "string \<Rightarrow> char \<Rightarrow> string \<Rightarrow> string" where
  "remove_span needle stop s =
     (case strstr s needle of
        None \<Rightarrow> s
      | Some i \<Rightarrow>
          (case strchr (drop i s) stop of
             None \<Rightarrow> s
           | Some j \<Rightarrow> take i s @ drop (Suc (i + j)) s))"

text \<open>
  \<open>helper_error\<close>. What it leaves in the buffer is not read again, because every caller
  raises with the text it returns.
\<close>

definition helper_error :: "helper_env \<Rightarrow> string \<Rightarrow> string option" where
  "helper_error env buf =
     (let b = strip_newlines buf;
          b = take (mbcliplen env b) b
      in if b = [] then None
         else Some (remove_span '' (version '' (CHR '')'')
                     (remove_span ''Request ID:'' newline (cstr b))))"

definition dec_int :: "int \<Rightarrow> string" where
  "dec_int i = (if i < 0 then CHR ''-'' # dec (nat (- i)) else dec (nat i))"

definition CHDB_HELPER_LOST_BACKEND :: int where "CHDB_HELPER_LOST_BACKEND = 2"

definition helper_end :: "helper_env \<Rightarrow> chdbHelper \<Rightarrow> string" where
  "helper_end env h =
     (if h_status h < 0 then
        ''chDB (pid '' @ dec_int (h_pid h) @ '') could not be waited for: ''
          @ (case h_wait_errno h of None \<Rightarrow> [] | Some e \<Rightarrow> strerror env e) @ ''.''
      else if WIFEXITED (h_status h) then
        (if WEXITSTATUS (h_status h) = CHDB_HELPER_LOST_BACKEND
         then ''chDB lost the channel to the copy.''
         else ''chDB exited with status '' @ dec_int (WEXITSTATUS (h_status h)) @ ''.'')
      else ''chDB ended abnormally.'')"

definition helper_report :: "helper_env \<Rightarrow> string \<Rightarrow> chdbHelper \<Rightarrow> pg_error" where
  "helper_report env what h =
     (let detail = helper_error env (h_err_buf h)
      in if h_status h \<ge> 0 \<and> WIFSIGNALED (h_status h) then
           \<lparr>errcode = ERRCODE_EXTERNAL_ROUTINE_EXCEPTION,
            errmsg = ''chdb: chDB was terminated by signal '' @ dec_int (WTERMSIG (h_status h)),
            errdetail = Some (case detail of Some d \<Rightarrow> d | None \<Rightarrow> ''chDB produced no message.''),
            errhint = None, errcontext = Some (''query: '' @ h_query h)\<rparr>
         else
           \<lparr>errcode = ERRCODE_EXTERNAL_ROUTINE_EXCEPTION,
            errmsg = ''chdb: '' @ what,
            errdetail = Some (case detail of Some d \<Rightarrow> d | None \<Rightarrow> helper_end env h),
            errhint = None, errcontext = Some (''query: '' @ h_query h)\<rparr>)"

definition report_helper :: "helper_env \<Rightarrow> string \<Rightarrow> backend \<Rightarrow> ('a, backend) outcome" where
  "report_helper env what s =
     bindO (drain_and_reap s) (\<lambda>_ t. Raise (helper_report env what (hp t)) t)"

section \<open>Cleanup\<close>

definition stop_helper :: "backend \<Rightarrow> (unit, backend) outcome" where
  "stop_helper s =
     (let s = close_peers (close_setup (close_err (close_data s)))
      in if h_pid (hp s) > 0 \<and> \<not> h_reaped (hp s)
         then bindO (reap (s\<lparr>calls := calls s @ [Kill (h_pid (hp s))]\<rparr>)) (\<lambda>_. Return ())
         else Return () s)"

section \<open>Writing\<close>

text \<open>The two channels the backend writes to.\<close>

datatype channel = DataChannel | SetupChannel

definition channel_fd :: "channel \<Rightarrow> backend \<Rightarrow> int" where
  "channel_fd ch s = (case ch of DataChannel \<Rightarrow> h_data (hp s) | SetupChannel \<Rightarrow> h_setup (hp s))"

definition channel_wr :: "channel \<Rightarrow> backend \<Rightarrow> write_event list" where
  "channel_wr ch s = (case ch of DataChannel \<Rightarrow> data_wr s | SetupChannel \<Rightarrow> setup_wr s)"

definition channel_sent :: "channel \<Rightarrow> backend \<Rightarrow> string" where
  "channel_sent ch s = (case ch of DataChannel \<Rightarrow> sent_data s | SetupChannel \<Rightarrow> sent_setup s)"

text \<open>One \<open>write\<close>, which adds the bytes it accepts to what was sent.\<close>

definition channel_accept :: "channel \<Rightarrow> write_event list \<Rightarrow> string \<Rightarrow> backend \<Rightarrow> backend" where
  "channel_accept ch es bs s =
     (case ch of
        DataChannel \<Rightarrow> s\<lparr>data_wr := es, sent_data := sent_data s @ bs\<rparr>
      | SetupChannel \<Rightarrow> s\<lparr>setup_wr := es, sent_setup := sent_setup s @ bs\<rparr>)"

definition channel_write ::
  "channel \<Rightarrow> string \<Rightarrow> backend \<Rightarrow> (write_result \<times> backend) option"
where
  "channel_write ch bs s =
     (if channel_fd ch s < 0 then Some (PutErr EBADF, s)
      else
        (case sys_write bs (channel_wr ch s) of
           None \<Rightarrow> None
         | Some (Put n, es) \<Rightarrow> Some (Put n, channel_accept ch es (take n bs) s)
         | Some (PutErr e, es) \<Rightarrow> Some (PutErr e, channel_accept ch es [] s)))"

lemma channel_accept_sel [simp]:
  "channel_wr ch (channel_accept ch es bs s) = es"
  "channel_sent ch (channel_accept ch es bs s) = channel_sent ch s @ bs"
  by (cases ch; simp add: channel_wr_def channel_sent_def channel_accept_def)+

lemma channel_write_progress:
  "channel_write ch bs s = Some (r, t) \<Longrightarrow> r \<noteq> PutErr EBADF
     \<Longrightarrow> length (channel_wr ch t) < length (channel_wr ch s)"
  by (auto simp: channel_write_def split: if_splits option.splits write_result.splits prod.splits
      dest: sys_write_Put sys_write_Err)

lemma drain_err_channels:
  "drain_err s = Return u t \<Longrightarrow> data_wr t = data_wr s \<and> setup_wr t = setup_wr s"
  by (drule drain_err_frame) (simp add: same_but_err_def)

text \<open>
  \<open>write_all\<close>: \<open>None\<close> is the result true, \<open>Some e\<close> the result false with \<open>errno\<close> being \<open>e\<close>.
\<close>

function write_all :: "channel \<Rightarrow> string \<Rightarrow> backend \<Rightarrow> (errno option, backend) outcome" where
  "write_all ch bs s =
     (if bs = [] then Return None s
      else
        (case check_for_interrupts s of
           Raise e t \<Rightarrow> Raise e t
         | Waiting \<Rightarrow> Waiting
         | Return u t \<Rightarrow>
             (case channel_write ch bs t of
                None \<Rightarrow> Waiting
              | Some (Put n, t') \<Rightarrow> write_all ch (drop n bs) t'
              | Some (PutErr e, t') \<Rightarrow>
                  if e = EAGAIN \<or> e = EWOULDBLOCK then
                    (case drain_err t' of
                       Raise e' t'' \<Rightarrow> Raise e' t''
                     | Waiting \<Rightarrow> Waiting
                     | Return v t'' \<Rightarrow> write_all ch bs (wait_fd (channel_fd ch t'') t''))
                  else if e \<noteq> EINTR then Return (Some e) t'
                  else write_all ch bs t')))"
  by pat_completeness auto

lemma channel_wr_intr [simp]:
  "channel_wr ch (s\<lparr>intr := r\<rparr>) = channel_wr ch s" "channel_fd ch (s\<lparr>intr := r\<rparr>) = channel_fd ch s"
  "channel_sent ch (s\<lparr>intr := r\<rparr>) = channel_sent ch s"
  by (cases ch; simp add: channel_wr_def channel_fd_def channel_sent_def)+

lemma drain_err_channel_wr: "drain_err s = Return u t \<Longrightarrow> channel_wr ch t = channel_wr ch s"
  by (cases ch) (simp_all add: channel_wr_def drain_err_channels)

termination write_all
  by (relation "measure (\<lambda>(ch, bs, s). length (channel_wr ch s))")
    (auto simp: wait_fd_def drain_err_channel_wr dest!: channel_write_progress check_for_interrupts_Return)

declare write_all.simps [simp del]

definition write_setup :: "helper_env \<Rightarrow> string \<Rightarrow> backend \<Rightarrow> (unit, backend) outcome" where
  "write_setup env setup_bytes s =
     bindO (write_all SetupChannel setup_bytes s) (\<lambda>r t.
       case r of
         None \<Rightarrow> Return () (close_setup t)
       | Some e \<Rightarrow>
           if e = EPIPE then report_helper env ''could not start chDB'' t
           else Raise (ereport errcode_for_socket_access
             (''chdb: could not send the query to chDB: '' @ strerror env e)) t)"

section \<open>Starting the helper\<close>

text \<open>The answer to the next fallible call of the start: \<open>None\<close> is success.\<close>

definition sys_answer :: "backend \<Rightarrow> errno option \<times> backend" where
  "sys_answer s = (case sys_ev s of [] \<Rightarrow> (None, s) | a # r \<Rightarrow> (a, s\<lparr>sys_ev := r\<rparr>))"

datatype fd_flag = FD_CLOEXEC | O_NONBLOCK

definition put_flag :: "fd_flag \<Rightarrow> fdesc \<Rightarrow> fdesc" where
  "put_flag flag d = (case flag of FD_CLOEXEC \<Rightarrow> d\<lparr>cloexec := True\<rparr> | O_NONBLOCK \<Rightarrow> d\<lparr>nonblock := True\<rparr>)"

definition set_flag :: "helper_env \<Rightarrow> int \<Rightarrow> fd_flag \<Rightarrow> backend \<Rightarrow> (unit, backend) outcome" where
  "set_flag env fd flag s =
     (let fail = (\<lambda>e. Raise (ereport errcode_for_socket_access
             (''chdb: could not configure the chDB channel: '' @ strerror env e)))
      in case sys_answer s of
           (Some e, s) \<Rightarrow> fail e s
         | (None, s) \<Rightarrow>
             (case sys_answer s of
                (Some e, s) \<Rightarrow> fail e s
              | (None, s) \<Rightarrow> Return () (s\<lparr>fds := (fds s)(fd := map_option (put_flag flag) (fds s fd))\<rparr>)))"

text \<open>
  \<open>open_channel\<close>: \<open>socketpair\<close> and \<open>pipe\<close> take the two lowest free numbers, and take none
  when they fail. \<open>EMFILE\<close> is the error of a full table.
\<close>

abbreviation EMFILE :: errno where "EMFILE \<equiv> EOther 24"

definition open_channel ::
  "helper_env \<Rightarrow> open_file \<Rightarrow> open_file \<Rightarrow> backend \<Rightarrow> (int \<times> int, backend) outcome"
where
  "open_channel env f g s =
     (let fail = (\<lambda>e. Raise (ereport errcode_for_socket_access
             (''chdb: could not open a channel to chDB: '' @ strerror env e)))
      in case sys_answer s of
           (Some e, s) \<Rightarrow> fail e s
         | (None, s) \<Rightarrow>
             (case sys_open (fd_limit env) (fds s) f of
                (a, t) \<Rightarrow>
                  if a < 0 then fail EMFILE s
                  else
                    (case sys_open (fd_limit env) t g of
                       (b, t) \<Rightarrow> if b < 0 then fail EMFILE s else Return (a, b) (s\<lparr>fds := t\<rparr>))))"

definition new_helper :: "string \<Rightarrow> chdbHelper" where
  "new_helper query =
     \<lparr>h_pid = -1, h_data = -1, h_err = -1, h_setup = -1, h_data_peer = -1, h_err_peer = -1,
      h_setup_peer = -1, h_query = query, h_reaped = False, h_status = 0, h_wait_errno = None,
      h_err_buf = []\<rparr>"

definition MAXPGPATH :: nat where "MAXPGPATH = 1024"

definition helper_program :: "helper_env \<Rightarrow> string" where
  "helper_program env = take (MAXPGPATH - 1) (pkglib env @ ''/'' @ ''chdb_helper'')"

text \<open>The three calls of \<open>open_channel\<close>, and the six of \<open>set_flag\<close>.\<close>

definition open_channels :: "helper_env \<Rightarrow> backend \<Rightarrow> (unit, backend) outcome" where
  "open_channels env s =
     bindO (open_channel env DataOwn DataPeer s) (\<lambda>(own, peer) s.
       let s = s\<lparr>hp := (hp s)\<lparr>h_data := own, h_data_peer := peer\<rparr>\<rparr> in
     bindO (open_channel env ErrRead ErrWrite s) (\<lambda>(own, peer) s.
       let s = s\<lparr>hp := (hp s)\<lparr>h_err := own, h_err_peer := peer\<rparr>\<rparr> in
     bindO (open_channel env SetupRead SetupWrite s) (\<lambda>(peer, own) s.
       Return () (s\<lparr>hp := (hp s)\<lparr>h_setup_peer := peer, h_setup := own\<rparr>\<rparr>))))"

definition configure_channels :: "helper_env \<Rightarrow> backend \<Rightarrow> (unit, backend) outcome" where
  "configure_channels env s =
     each (\<lambda>(fd, flag). set_flag env fd flag)
       [(h_data (hp s), FD_CLOEXEC), (h_err (hp s), FD_CLOEXEC), (h_setup (hp s), FD_CLOEXEC),
        (h_data (hp s), O_NONBLOCK), (h_err (hp s), O_NONBLOCK), (h_setup (hp s), O_NONBLOCK)] s"

text \<open>
  \<open>fork\<close> in the parent: \<open>Inr n\<close> answers the positive pid \<open>n + 1\<close>. The child starts from a
  copy of the descriptor table and runs \<open>exec_helper\<close>.
\<close>

definition fork_helper :: "helper_env \<Rightarrow> char \<Rightarrow> backend \<Rightarrow> (unit, backend) outcome" where
  "fork_helper env c s =
     (case fork_ev s of
        Inl e \<Rightarrow> Raise (ereport errcode_for_file_access (''chdb: could not fork: '' @ strerror env e)) s
      | Inr n \<Rightarrow>
          Return () (s\<lparr>hp := (hp s)\<lparr>h_pid := int n + 1\<rparr>, calls := calls s @ [Fork (int n + 1)],
            child := Some (exec_helper (fd_limit env) (exec_ok s) (fds s) (h_data_peer (hp s))
              (h_err_peer (hp s)) (h_setup_peer (hp s)) c)\<rparr>))"

definition chdb_helper_start ::
  "helper_env \<Rightarrow> chdbHelperContext \<Rightarrow> string \<Rightarrow> (string \<times> string) list \<Rightarrow> backend
     \<Rightarrow> (unit, backend) outcome"
where
  "chdb_helper_start env ctx query params s =
     (case sys_answer (s\<lparr>hp := new_helper query\<rparr>) of
        (Some e, s) \<Rightarrow> Raise ((ereport errcode_for_file_access
          (''chdb: could not execute \"'' @ helper_program env @ ''\": '' @ strerror env e))
            \<lparr>errhint := Some ''The chdb extension installs chdb_helper beside its libraries.''\<rparr>) s
      | (None, s) \<Rightarrow>
          (case build_setup (byte_order env) (session_timezone env) ctx query params of
             Inl e \<Rightarrow> Raise e s
           | Inr payload \<Rightarrow>
               bindO (open_channels env s) (\<lambda>_ s.
               bindO (configure_channels env s) (\<lambda>_ s.
               bindO (fork_helper env (cmd ctx) s) (\<lambda>_ s.
               write_setup env payload (close_peers s))))))"

section \<open>Receiving, sending and finishing\<close>

text \<open>\<open>chdb_helper_recv\<close>: the bytes of one successful read, or none at the end of the stream.\<close>

definition recv_end :: "helper_env \<Rightarrow> backend \<Rightarrow> (string, backend) outcome" where
  "recv_end env s =
     bindO (drain_and_reap (close_data s)) (\<lambda>status t.
       if status \<noteq> 0 then report_helper env ''error executing chDB query'' t else Return [] t)"

definition read_data :: "nat \<Rightarrow> backend \<Rightarrow> (read_result \<times> backend) option" where
  "read_data len s =
     (if h_data (hp s) < 0 then Some (GotErr EBADF, s)
      else map_option (\<lambda>(r, es). (r, s\<lparr>data_ev := es\<rparr>)) (sys_read len (data_ev s)))"

lemma read_data_progress:
  "read_data len s = Some (r, t) \<Longrightarrow> r \<noteq> GotErr EBADF \<Longrightarrow> r \<noteq> GotEof
     \<Longrightarrow> read_size (data_ev t) < read_size (data_ev s)"
  by (cases r) (auto simp: read_data_def split: if_splits dest: sys_read_Got_size sys_read_Err_size)

lemma drain_err_data_ev: "drain_err s = Return u t \<Longrightarrow> data_ev t = data_ev s"
  by (drule drain_err_frame) (simp add: same_but_err_def)

function chdb_helper_recv :: "helper_env \<Rightarrow> nat \<Rightarrow> backend \<Rightarrow> (string, backend) outcome" where
  "chdb_helper_recv env len s =
     (case check_for_interrupts s of
        Raise e t \<Rightarrow> Raise e t
      | Waiting \<Rightarrow> Waiting
      | Return u t \<Rightarrow>
          (case read_data len t of
             None \<Rightarrow> Waiting
           | Some (Got bs, t') \<Rightarrow> Return bs t'
           | Some (GotEof, t') \<Rightarrow> recv_end env t'
           | Some (GotErr e, t') \<Rightarrow>
               if e = EAGAIN \<or> e = EWOULDBLOCK then
                 (case drain_err t' of
                    Raise e' t'' \<Rightarrow> Raise e' t''
                  | Waiting \<Rightarrow> Waiting
                  | Return v t'' \<Rightarrow> chdb_helper_recv env len (wait_fd (h_data (hp t'')) t''))
               else if e \<noteq> EINTR then report_helper env ''error fetching chDB query result'' t'
               else chdb_helper_recv env len t'))"
  by pat_completeness auto

termination chdb_helper_recv
  by (relation "measure (\<lambda>(env, len, s). read_size (data_ev s))")
    (auto simp: wait_fd_def drain_err_data_ev dest!: read_data_progress check_for_interrupts_Return)

declare chdb_helper_recv.simps [simp del]

definition chdb_helper_write :: "helper_env \<Rightarrow> string \<Rightarrow> backend \<Rightarrow> (unit, backend) outcome" where
  "chdb_helper_write env bs s =
     bindO (write_all DataChannel bs s) (\<lambda>r t.
       case r of None \<Rightarrow> Return () t | Some e \<Rightarrow> report_helper env ''error appending to chDB query'' t)"

definition chdb_helper_finish :: "helper_env \<Rightarrow> backend \<Rightarrow> (unit, backend) outcome" where
  "chdb_helper_finish env s =
     bindO (drain_and_reap (close_data s)) (\<lambda>status t.
       if status \<noteq> 0 then report_helper env ''error finishing chDB query'' t else Return () t)"

end
