(* ===== verification/Helper_Lifecycle.thy ===== *)
theory Helper_Lifecycle
  imports Helper_Process
begin

text \<open>
  What the operations of \<open>src/helper.c\<close> keep. The locale \<open>helper_invariant\<close> proves once that a
  property kept by the primitive steps (closing a channel, taking error output, collecting the
  exit status, moving bytes) is kept by every operation the COPY code calls, whether it
  returns or raises. Its interpretations give the ownership of the descriptors and the
  discipline of the process calls, which hold in every state a helper can reach, by rule
  induction over \<open>helper_life\<close>.
\<close>

section \<open>Outcomes that leave a property\<close>

definition leaves :: "('s \<Rightarrow> bool) \<Rightarrow> ('a, 's) outcome \<Rightarrow> bool" where
  "leaves P m = (case m of Return x t \<Rightarrow> P t | Raise e t \<Rightarrow> P t | Waiting \<Rightarrow> True)"

lemma leaves_simps [simp]:
  "leaves P (Return x t) = P t" "leaves P (Raise e t) = P t" "leaves P Waiting"
  by (simp_all add: leaves_def)

lemma leaves_bindO:
  "leaves P m \<Longrightarrow> (\<And>x t. m = Return x t \<Longrightarrow> P t \<Longrightarrow> leaves P (f x t)) \<Longrightarrow> leaves P (bindO m f)"
  by (cases m) auto

lemma leavesD:
  "leaves P m \<Longrightarrow> m = Return x t \<Longrightarrow> P t" "leaves P m \<Longrightarrow> m = Raise e t \<Longrightarrow> P t"
  by simp_all

section \<open>Properties kept by every operation\<close>

text \<open>First, what happens on the way to a report: the error output and the exit status.\<close>

locale report_invariant =
  fixes P :: "backend \<Rightarrow> bool"
  assumes keeps_intr: "P s \<Longrightarrow> P (s\<lparr>intr := r\<rparr>)"
    and keeps_err: "P s \<Longrightarrow> h_err (hp s) \<ge> 0 \<Longrightarrow> sys_read (err_room s) (err_ev s) = Some (Got bs, es)
      \<Longrightarrow> P (keep_err bs (s\<lparr>err_ev := es\<rparr>))"
    and keeps_err_fail: "P s \<Longrightarrow> h_err (hp s) \<ge> 0
      \<Longrightarrow> sys_read (err_room s) (err_ev s) = Some (GotErr e, es) \<Longrightarrow> P (s\<lparr>err_ev := es\<rparr>)"
    and keeps_close_err: "P s \<Longrightarrow> h_err (hp s) \<ge> 0 \<Longrightarrow> stream_bytes (err_ev s) = [] \<Longrightarrow> P (close_err s)"
    and keeps_reap: "P s \<Longrightarrow> leaves P (reap s)"
begin

lemma check_keeps: "P s \<Longrightarrow> leaves P (check_for_interrupts s)"
  by (auto simp: check_for_interrupts_def keeps_intr split: list.splits bool.splits)

lemma drain_err_keeps: "P s \<Longrightarrow> drain_err s = Return u t \<Longrightarrow> P t"
  by (erule drain_err_rule) (simp_all add: keeps_err keeps_err_fail keeps_close_err)

lemma drain_and_reap_keeps: "P s \<Longrightarrow> leaves P (drain_and_reap s)"
proof (induction s rule: drain_and_reap.induct)
  case (1 s)
  show ?case
  proof (cases "h_err (hp s) \<ge> 0")
    case False
    with "1.prems" show ?thesis by (subst drain_and_reap.simps) (simp add: keeps_reap)
  next
    case True
    then show ?thesis using "1.IH" check_keeps [OF "1.prems"] drain_err_keeps
      by (subst drain_and_reap.simps) (auto simp: wait_fd_def keeps_reap split: outcome.splits)
  qed
qed

lemma report_keeps: "P s \<Longrightarrow> leaves P (report_helper env what s)"
  by (auto simp: report_helper_def intro!: leaves_bindO drain_and_reap_keeps)

end

text \<open>Then every operation of the interface, which also moves data.\<close>

locale helper_invariant = report_invariant +
  assumes keeps_close_data: "P s \<Longrightarrow> P (close_data s)"
    and keeps_close_setup: "P s \<Longrightarrow> P (close_setup s)"
    and keeps_data: "P s \<Longrightarrow> P (s\<lparr>data_ev := es\<rparr>)"
    and keeps_accept: "P s \<Longrightarrow> P (channel_accept ch ws bs s)"
begin

lemma channel_write_keeps: "P s \<Longrightarrow> channel_write ch bs s = Some (r, t) \<Longrightarrow> P t"
  by (auto simp: channel_write_def keeps_accept
      split: if_splits option.splits prod.splits write_result.splits)

lemma write_all_keeps: "P s \<Longrightarrow> leaves P (write_all ch bs s)"
proof (induction ch bs s rule: write_all.induct)
  case (1 ch bs s)
  show ?case
  proof (cases "bs = [] \<or> (\<forall>u t. check_for_interrupts s \<noteq> Return u t)")
    case True
    with "1.prems" check_keeps [OF "1.prems"] show ?thesis
      by (subst write_all.simps) (auto split: outcome.split)
  next
    case False
    then obtain u t where c: "bs \<noteq> []" "check_for_interrupts s = Return u t" by blast
    with check_keeps [OF "1.prems"] have t: "P t" by simp
    show ?thesis
    proof (cases "channel_write ch bs t")
      case None
      with c show ?thesis by (subst write_all.simps) simp
    next
      case (Some rt)
      then obtain r t' where w: "channel_write ch bs t = Some (r, t')" by (cases rt) auto
      with t have t': "P t'" by (rule channel_write_keeps)
      show ?thesis
      proof (cases r)
        case (Put n)
        with "1.IH"(1) [OF c w refl Put t'] c w show ?thesis by (subst write_all.simps) simp
      next
        case (PutErr e)
        show ?thesis
        proof (cases "drain_err t'")
          case (Return v t'')
          with "1.IH"(2) [OF c w refl PutErr _ Return] "1.IH"(3) [OF c w refl PutErr _ _ t']
            drain_err_keeps [OF t' Return] t' c w PutErr
          show ?thesis by (subst write_all.simps) (auto simp: wait_fd_def)
        next
          case Waiting
          with "1.IH"(3) [OF c w refl PutErr _ _ t'] t' c w PutErr
          show ?thesis by (subst write_all.simps) auto
        qed simp
      qed
    qed
  qed
qed

lemma write_setup_keeps: "P s \<Longrightarrow> leaves P (write_setup env bs s)"
  by (auto simp: write_setup_def keeps_close_setup split: option.split
      intro!: leaves_bindO write_all_keeps report_keeps)

lemma write_keeps: "P s \<Longrightarrow> leaves P (chdb_helper_write env bs s)"
  by (auto simp: chdb_helper_write_def split: option.split
      intro!: leaves_bindO write_all_keeps report_keeps)

lemma finish_keeps: "P s \<Longrightarrow> leaves P (chdb_helper_finish env s)"
  by (auto simp: chdb_helper_finish_def
      intro!: leaves_bindO drain_and_reap_keeps keeps_close_data report_keeps)

lemma recv_end_keeps: "P s \<Longrightarrow> leaves P (recv_end env s)"
  by (auto simp: recv_end_def intro!: leaves_bindO drain_and_reap_keeps keeps_close_data report_keeps)

lemma read_data_keeps: "P s \<Longrightarrow> read_data len s = Some (r, t) \<Longrightarrow> P t"
  by (auto simp: read_data_def keeps_data split: if_splits)

lemma recv_keeps: "P s \<Longrightarrow> leaves P (chdb_helper_recv env len s)"
proof (induction env len s rule: chdb_helper_recv.induct)
  case (1 env len s)
  show ?case
  proof (cases "\<forall>u t. check_for_interrupts s \<noteq> Return u t")
    case True
    with check_keeps [OF "1.prems"] show ?thesis
      by (subst chdb_helper_recv.simps) (auto split: outcome.split)
  next
    case False
    then obtain u t where c: "check_for_interrupts s = Return u t" by blast
    with check_keeps [OF "1.prems"] have t: "P t" by simp
    show ?thesis
    proof (cases "read_data len t")
      case None
      with c show ?thesis by (subst chdb_helper_recv.simps) simp
    next
      case (Some rt)
      then obtain r t' where w: "read_data len t = Some (r, t')" by (cases rt) auto
      with t have t': "P t'" by (rule read_data_keeps)
      show ?thesis
      proof (cases r)
        case (GotErr e)
        show ?thesis
        proof (cases "drain_err t'")
          case (Return v t'')
          with "1.IH"(1) [OF c w refl GotErr _ Return] "1.IH"(2) [OF c w refl GotErr _ _ t']
            drain_err_keeps [OF t' Return] report_keeps [OF t'] c w GotErr
          show ?thesis by (subst chdb_helper_recv.simps) (auto simp: wait_fd_def)
        next
          case Waiting
          with "1.IH"(2) [OF c w refl GotErr _ _ t'] report_keeps [OF t'] c w GotErr
          show ?thesis by (subst chdb_helper_recv.simps) auto
        qed simp
      qed (use c w t' recv_end_keeps in \<open>simp_all add: chdb_helper_recv.simps [of env len s]\<close>)
    qed
  qed
qed

end

lemma leaves_reap:
  assumes "P s"
    and "\<And>st w es. \<not> h_reaped (hp s) \<Longrightarrow>
      P (s\<lparr>wait_ev := es, calls := calls s @ [Waited (h_pid (hp s))],
          hp := (hp s)\<lparr>h_status := st, h_reaped := True, h_wait_errno := w\<rparr>\<rparr>)"
  shows "leaves P (reap s)"
  using assms by (auto simp: reap_def split: option.splits)

section \<open>Descriptors\<close>

text \<open>
  The helper record owns the descriptors in its fields: they are distinct, open, and were
  free in the table \<open>base\<close> the command started from; every other number is as it was.
\<close>

definition holds :: "fdtable \<Rightarrow> fdtable \<Rightarrow> int list \<Rightarrow> bool" where
  "holds base t ks \<longleftrightarrow>
     distinct (filter (\<lambda>k. 0 \<le> k) ks) \<and> (\<forall>k \<in> set ks. 0 \<le> k \<longrightarrow> base k = None \<and> t k \<noteq> None)
     \<and> (\<forall>k. k < 0 \<or> k \<notin> set ks \<longrightarrow> t k = base k)"

definition held :: "chdbHelper \<Rightarrow> int list" where
  "held h = [h_data h, h_err h, h_setup h, h_data_peer h, h_err_peer h, h_setup_peer h]"

definition owns :: "fdtable \<Rightarrow> backend \<Rightarrow> bool" where
  "owns base s = holds base (fds s) (held (hp s))"

lemma holds_close:
  "holds base t (xs @ k # ys) \<Longrightarrow> holds base (close_fd k t) (xs @ - 1 # ys)"
  by (auto simp: holds_def close_fd_def sys_close_def)

lemma holds_take:
  assumes "holds base t (xs @ -1 # ys)" and "0 \<le> k" and "t k = None"
  shows "holds base (t(k \<mapsto> d)) (xs @ k # ys)"
proof -
  have k: "k \<notin> set xs" "k \<notin> set ys" using assms by (auto simp: holds_def)
  moreover have "t k = base k" using k assms(1,2) by (simp add: holds_def)
  ultimately show ?thesis using assms by (auto simp: holds_def)
qed

lemma holds_none: "holds base t [-1, -1, -1, -1, -1, -1] \<longleftrightarrow> t = base"
  by (fastforce simp: holds_def fun_eq_iff)

lemma holds_close_nth:
  "holds base t [a, b, c, d, e, f] \<Longrightarrow> holds base (close_fd a t) [-1, b, c, d, e, f]"
  "holds base t [a, b, c, d, e, f] \<Longrightarrow> holds base (close_fd b t) [a, -1, c, d, e, f]"
  "holds base t [a, b, c, d, e, f] \<Longrightarrow> holds base (close_fd c t) [a, b, -1, d, e, f]"
  "holds base t [a, b, c, d, e, f] \<Longrightarrow> holds base (close_fd d t) [a, b, c, -1, e, f]"
  "holds base t [a, b, c, d, e, f] \<Longrightarrow> holds base (close_fd e t) [a, b, c, d, -1, f]"
  "holds base t [a, b, c, d, e, f] \<Longrightarrow> holds base (close_fd f t) [a, b, c, d, e, -1]"
  using holds_close [of base t "[]"] holds_close [of base t "[a]"] holds_close [of base t "[a, b]"]
    holds_close [of base t "[a, b, c]"] holds_close [of base t "[a, b, c, d]"]
    holds_close [of base t "[a, b, c, d, e]"] by simp_all

lemma owns_close_peers: "owns base s \<Longrightarrow> owns base (close_peers s)"
  by (simp add: owns_def held_def close_peers_def holds_close_nth)

interpretation fdown: helper_invariant "owns base" for base
proof
  show "owns base s \<Longrightarrow> leaves (owns base) (reap s)" for s
    by (rule leaves_reap) (simp_all add: owns_def held_def)
  show "owns base s \<Longrightarrow> owns base (channel_accept ch ws bs s)" for s ch ws bs
    by (cases ch) (simp_all add: channel_accept_def owns_def)
qed (simp_all add: owns_def held_def keep_err_def close_err_def close_data_def close_setup_def holds_close_nth)

text \<open>The cleanup gives back every descriptor the record still owns.\<close>

lemma stop_helper_fds:
  assumes "owns base s" and "stop_helper s = Return u t"
  shows "fds t = base"
proof -
  let ?s = "close_peers (close_setup (close_err (close_data s)))"
  have "fds ?s = base"
    using assms(1) by (simp add: owns_def held_def close_data_def close_err_def close_setup_def
        close_peers_def holds_close_nth flip: holds_none [of base])
  moreover have "leaves (\<lambda>r. fds r = fds ?s) (reap (?s\<lparr>calls := c\<rparr>))" for c
    by (rule leaves_reap) simp_all
  ultimately show ?thesis using assms(2)
    by (auto simp: stop_helper_def Let_def bindO_eq_Return split: if_splits dest: leavesD)
qed

section \<open>Process calls\<close>

text \<open>
  Once forked, the only process call so far besides the fork is the one wait that the
  record remembers as \<open>reaped\<close>.
\<close>

definition forked :: "proc_call list \<Rightarrow> backend \<Rightarrow> bool" where
  "forked base s \<longleftrightarrow> 0 < h_pid (hp s)
     \<and> calls s = base @ Fork (h_pid (hp s)) # (if h_reaped (hp s) then [Waited (h_pid (hp s))] else [])"

definition unforked :: "proc_call list \<Rightarrow> backend \<Rightarrow> bool" where
  "unforked base s \<longleftrightarrow> h_pid (hp s) = -1 \<and> \<not> h_reaped (hp s) \<and> calls s = base"

interpretation proc: helper_invariant "forked base" for base
proof
  show "forked base s \<Longrightarrow> leaves (forked base) (reap s)" for s
    by (rule leaves_reap) (simp_all add: forked_def)
  show "forked base s \<Longrightarrow> forked base (channel_accept ch ws bs s)" for s ch ws bs
    by (cases ch) (simp_all add: channel_accept_def forked_def)
qed (simp_all add: forked_def keep_err_def close_err_def close_data_def close_setup_def)

text \<open>Cleaning up kills only a helper that was never waited for, then waits for it.\<close>

lemma stop_helper_calls:
  assumes "forked base s \<or> unforked base s" and "stop_helper s = Return u t"
  shows "\<exists>p. calls t = base \<or> calls t = base @ [Fork p, Waited p]
    \<or> calls t = base @ [Fork p, Kill p, Waited p]"
  using assms
  by (auto simp: stop_helper_def Let_def close_data_def close_err_def close_setup_def close_peers_def
      forked_def unforked_def bindO_eq_Return reap_def split: if_splits option.splits)

section \<open>Starting\<close>

lemma sys_answer_sel [simp]:
  "sys_answer s = (a, t) \<Longrightarrow> fds t = fds s" "sys_answer s = (a, t) \<Longrightarrow> hp t = hp s"
  "sys_answer s = (a, t) \<Longrightarrow> calls t = calls s" "sys_answer s = (a, t) \<Longrightarrow> child t = child s"
  "sys_answer s = (a, t) \<Longrightarrow> sent_setup t = sent_setup s"
  "sys_answer s = (a, t) \<Longrightarrow> sent_data t = sent_data s"
  by (auto simp: sys_answer_def split: list.splits)

text \<open>What the state keeps of the steps before the fork.\<close>

definition same_outside :: "backend \<Rightarrow> backend \<Rightarrow> bool" where
  "same_outside s t \<longleftrightarrow> calls t = calls s \<and> child t = child s \<and> sent_setup t = sent_setup s
     \<and> sent_data t = sent_data s"

lemma sys_answer_outside [simp]: "sys_answer s = (a, t) \<Longrightarrow> same_outside s t"
  by (simp add: same_outside_def)

lemma open_channel_Return:
  assumes "open_channel env f g s = Return (a, b) t"
  shows "0 \<le> a" "0 \<le> b" "a \<noteq> b" "fds s a = None" "fds s b = None" "hp t = hp s" "same_outside s t"
    "fds t = (fds s)(a \<mapsto> fresh_fd f, b \<mapsto> fresh_fd g)"
proof -
  obtain s' a' t1 b' t2 where o: "sys_answer s = (None, s')"
      "sys_open (fd_limit env) (fds s') f = (a', t1)" "\<not> a' < 0"
      "sys_open (fd_limit env) t1 g = (b', t2)" "\<not> b' < 0" "a = a'" "b = b'" "t = s'\<lparr>fds := t2\<rparr>"
    using assms by (auto simp: open_channel_def Let_def split: prod.splits option.splits if_splits)
  from sys_open_spec [OF o(2)] o have 1: "0 \<le> a" "fds s a = None" "t1 = (fds s)(a \<mapsto> fresh_fd f)" by auto
  from sys_open_spec [OF o(4)] o 1 have 2: "0 \<le> b" "t1 b = None" "t2 = t1(b \<mapsto> fresh_fd g)" by auto
  from 1 2 show "0 \<le> a" "0 \<le> b" "a \<noteq> b" "fds s a = None" "fds s b = None"
    by (auto split: if_splits)
  from 1 2 o show "hp t = hp s" "fds t = (fds s)(a \<mapsto> fresh_fd f, b \<mapsto> fresh_fd g)" "same_outside s t"
    by (simp_all add: same_outside_def)
qed

lemma open_channel_Raise:
  "open_channel env f g s = Raise e t \<Longrightarrow> fds t = fds s \<and> hp t = hp s \<and> same_outside s t"
  by (auto simp: open_channel_def Let_def split: prod.splits option.splits if_splits)

lemma open_channel_total: "open_channel env f g s \<noteq> Waiting"
  by (auto simp: open_channel_def Let_def split: prod.splits option.splits)

text \<open>Each field means its own end of its own channel.\<close>

definition wired :: "backend \<Rightarrow> bool" where
  "wired s \<longleftrightarrow> (\<forall>k \<in> set (held (hp s)). 0 \<le> k)
     \<and> map (\<lambda>k. map_option ofile (fds s k)) (held (hp s))
       = map Some [DataOwn, ErrRead, SetupWrite, DataPeer, ErrWrite, SetupRead]"

definition before_fork :: "fdtable \<Rightarrow> backend \<Rightarrow> backend \<Rightarrow> bool" where
  "before_fork base s t \<longleftrightarrow> owns base t \<and> unforked (calls s) t \<and> same_outside s t"

lemma before_fork_take:
  assumes "open_channel env f g s = Return (a, b) t" "before_fork base r s"
    and "holds base (fds s) ks \<Longrightarrow> holds base ((fds s)(a \<mapsto> fresh_fd f, b \<mapsto> fresh_fd g)) (held h)"
    and "held (hp s) = ks" "h_pid h = -1" "\<not> h_reaped h"
  shows "before_fork base r (t\<lparr>hp := h\<rparr>)"
  using assms open_channel_Return [OF assms(1)]
  by (auto simp: before_fork_def owns_def unforked_def same_outside_def)

lemma before_fork_same:
  "before_fork base r s \<Longrightarrow> fds t = fds s \<Longrightarrow> hp t = hp s \<Longrightarrow> same_outside s t \<Longrightarrow> before_fork base r t"
  by (simp add: before_fork_def owns_def unforked_def same_outside_def)

lemma holds_take_pair:
  assumes "0 \<le> a" "0 \<le> b" "a \<noteq> b" "t a = None" "t b = None"
  shows "holds base t [-1, -1, -1, -1, -1, -1] \<Longrightarrow> holds base (t(a \<mapsto> x, b \<mapsto> y)) [a, -1, -1, b, -1, -1]"
    "holds base t [c, -1, -1, d, -1, -1] \<Longrightarrow> holds base (t(a \<mapsto> x, b \<mapsto> y)) [c, a, -1, d, b, -1]"
    "holds base t [c, e, -1, d, f, -1] \<Longrightarrow> holds base (t(a \<mapsto> x, b \<mapsto> y)) [c, e, b, d, f, a]"
proof -
  have b: "(t(a \<mapsto> x)) b = None" using assms by simp
  show "holds base t [-1, -1, -1, -1, -1, -1] \<Longrightarrow> holds base (t(a \<mapsto> x, b \<mapsto> y)) [a, -1, -1, b, -1, -1]"
    using holds_take [of base t "[]" _ a x] holds_take [of base "t(a \<mapsto> x)" "[a, -1, -1]" _ b y, OF _ assms(2) b]
      assms by simp
  show "holds base t [c, -1, -1, d, -1, -1] \<Longrightarrow> holds base (t(a \<mapsto> x, b \<mapsto> y)) [c, a, -1, d, b, -1]"
    using holds_take [of base t "[c]" _ a x] holds_take [of base "t(a \<mapsto> x)" "[c, a, -1, d]" _ b y, OF _ assms(2) b]
      assms by simp
  show "holds base t [c, e, -1, d, f, -1] \<Longrightarrow> holds base (t(a \<mapsto> x, b \<mapsto> y)) [c, e, b, d, f, a]"
    using holds_take [of base t "[c, e, -1, d, f]" "[]" a x]
      holds_take [of base "t(a \<mapsto> x)" "[c, e]" "[d, f, a]" b y, OF _ assms(2) b] assms by simp
qed

lemma open_channel_keeps:
  assumes "before_fork base r s" "open_channel env f g s = m"
    and "\<And>a b t. m = Return (a, b) t \<Longrightarrow> leaves (before_fork base r) (k (a, b) t)"
  shows "leaves (before_fork base r) (bindO m k)"
proof (cases m)
  case (Return ab t)
  with assms(3) [of "fst ab" "snd ab" t] show ?thesis by simp
next
  case (Raise e t)
  with open_channel_Raise [of env f g s e t] assms(1,2) show ?thesis by (auto intro: before_fork_same)
qed simp

lemma open_channels_before_fork:
  assumes "before_fork base r s" "hp s = new_helper q"
  shows "leaves (before_fork base r) (open_channels env s)"
  unfolding open_channels_def Let_def prod.case
proof (rule open_channel_keeps [OF assms(1) refl], unfold prod.case, goal_cases)
  case (1 a b t)
  note o = open_channel_Return [OF 1]
  let ?t = "t\<lparr>hp := hp t\<lparr>h_data := a, h_data_peer := b\<rparr>\<rparr>"
  have t: "before_fork base r ?t"
    by (rule before_fork_take [OF 1 assms(1) _ refl])
      (use o assms(2) in \<open>simp_all add: held_def new_helper_def holds_take_pair\<close>)
  show ?case
  proof (rule open_channel_keeps [OF t refl], unfold prod.case, goal_cases)
    case (1 c d u)
    note p = open_channel_Return [OF 1]
    let ?u = "u\<lparr>hp := hp u\<lparr>h_err := c, h_err_peer := d\<rparr>\<rparr>"
    have u: "before_fork base r ?u"
      by (rule before_fork_take [OF 1 t _ refl])
        (use o p assms(2) in \<open>simp_all add: held_def new_helper_def holds_take_pair\<close>)
    show ?case
    proof (rule open_channel_keeps [OF u refl], unfold prod.case, goal_cases)
      case (1 e f v)
      show ?case unfolding leaves_simps
        by (rule before_fork_take [OF 1 u _ refl])
          (use o p open_channel_Return [OF 1] assms(2) in \<open>simp_all add: held_def new_helper_def holds_take_pair\<close>)
    qed
  qed
qed

lemma open_channels_wired:
  assumes "open_channels env s = Return u t"
  shows "wired t"
proof -
  obtain a b s1 where 1: "open_channel env DataOwn DataPeer s = Return (a, b) s1"
    and "\<exists>c d s2. open_channel env ErrRead ErrWrite (s1\<lparr>hp := hp s1\<lparr>h_data := a, h_data_peer := b\<rparr>\<rparr>)
        = Return (c, d) s2 \<and> (\<exists>e f s3. open_channel env SetupRead SetupWrite
            (s2\<lparr>hp := hp s2\<lparr>h_err := c, h_err_peer := d\<rparr>\<rparr>) = Return (e, f) s3
          \<and> t = s3\<lparr>hp := hp s3\<lparr>h_setup_peer := e, h_setup := f\<rparr>\<rparr>)"
    using assms by (auto simp: open_channels_def Let_def bindO_eq_Return simp del: split_paired_Ex)
  then obtain c d s2 e f s3
    where 2: "open_channel env ErrRead ErrWrite (s1\<lparr>hp := hp s1\<lparr>h_data := a, h_data_peer := b\<rparr>\<rparr>)
        = Return (c, d) s2"
      and 3: "open_channel env SetupRead SetupWrite (s2\<lparr>hp := hp s2\<lparr>h_err := c, h_err_peer := d\<rparr>\<rparr>)
        = Return (e, f) s3"
      and t: "t = s3\<lparr>hp := hp s3\<lparr>h_setup_peer := e, h_setup := f\<rparr>\<rparr>" by blast
  note o = open_channel_Return [OF 1] and p = open_channel_Return [OF 2] and q = open_channel_Return [OF 3]
  have ne: "c \<noteq> a" "c \<noteq> b" "d \<noteq> a" "d \<noteq> b" using p(4,5) o(8) by (auto split: if_splits)
  have ne': "e \<notin> {a, b, c, d}" "f \<notin> {a, b, c, d}" using q(4,5) p(8) o(8) ne by (auto split: if_splits)
  have h: "held (hp t) = [a, c, f, b, d, e]" using o(6) p(6) q(6) by (simp add: t held_def)
  have f: "fds t = (fds s)(a \<mapsto> fresh_fd DataOwn, b \<mapsto> fresh_fd DataPeer, c \<mapsto> fresh_fd ErrRead,
      d \<mapsto> fresh_fd ErrWrite, e \<mapsto> fresh_fd SetupRead, f \<mapsto> fresh_fd SetupWrite)"
    using o(8) p(8) q(8) by (simp add: t)
  show ?thesis using ne ne' o(1-3) p(1-3) q(1-3) by (auto simp: wired_def h f fresh_fd_def)
qed

definition apply_flags :: "(int \<times> fd_flag) list \<Rightarrow> fdtable \<Rightarrow> fdtable" where
  "apply_flags xs t = fold (\<lambda>(fd, flag) t. t(fd := map_option (put_flag flag) (t fd))) xs t"

lemma apply_flags_simps [simp]:
  "apply_flags [] t = t"
  "apply_flags ((fd, flag) # xs) t = apply_flags xs (t(fd := map_option (put_flag flag) (t fd)))"
  by (simp_all add: apply_flags_def)

lemma ofile_put_flag [simp]: "ofile (put_flag flag d) = ofile d"
  by (simp add: put_flag_def split: fd_flag.split)

lemma apply_flags_ofile: "map_option ofile (apply_flags xs t k) = map_option ofile (t k)"
  by (induction xs arbitrary: t) (auto simp: option.map_comp o_def)

lemma apply_flags_holds:
  "holds base t ks \<Longrightarrow> (\<And>fd flag. (fd, flag) \<in> set xs \<Longrightarrow> 0 \<le> fd \<and> fd \<in> set ks)
     \<Longrightarrow> holds base (apply_flags xs t) ks"
proof (induction xs arbitrary: t)
  case (Cons x xs)
  obtain fd flag where x: "x = (fd, flag)" by fastforce
  have "holds base (t(fd := map_option (put_flag flag) (t fd))) ks"
    using Cons.prems(1) Cons.prems(2) [of fd flag] by (auto simp: holds_def x)
  then show ?case unfolding x apply_flags_simps by (rule Cons.IH) (use Cons.prems(2) in auto)
qed simp

lemma apply_flags_keeps_cloexec:
  "(\<And>d. t k = Some d \<Longrightarrow> cloexec d) \<Longrightarrow> apply_flags xs t k = Some d \<Longrightarrow> cloexec d"
proof (induction xs arbitrary: t)
  case (Cons x xs)
  obtain fd flag where x: "x = (fd, flag)" by fastforce
  have "cloexec d" if "(t(fd := map_option (put_flag flag) (t fd))) k = Some d" for d
    using that Cons.prems(1) by (cases flag) (auto simp: put_flag_def split: if_splits)
  moreover have "apply_flags xs (t(fd := map_option (put_flag flag) (t fd))) k = Some d"
    using Cons.prems(2) by (simp only: x apply_flags_simps)
  ultimately show ?case by (rule Cons.IH)
qed simp

lemma apply_flags_cloexec:
  "(k, FD_CLOEXEC) \<in> set xs \<Longrightarrow> apply_flags xs t k = Some d \<Longrightarrow> cloexec d"
proof (induction xs arbitrary: t)
  case (Cons x xs)
  obtain fd flag where x: "x = (fd, flag)" by fastforce
  show ?case
  proof (cases "x = (k, FD_CLOEXEC)")
    case True
    with Cons.prems(2) show ?thesis
      by (auto simp: put_flag_def elim!: apply_flags_keeps_cloexec [rotated])
  next
    case False
    with Cons.prems Cons.IH show ?thesis by (auto simp: x)
  qed
qed simp

lemma set_flag_Return:
  "set_flag env fd flag s = Return u t
     \<Longrightarrow> fds t = apply_flags [(fd, flag)] (fds s) \<and> hp t = hp s \<and> same_outside s t"
  by (auto simp: set_flag_def Let_def same_outside_def split: prod.splits option.splits)

lemma set_flag_Raise:
  "set_flag env fd flag s = Raise e t \<Longrightarrow> fds t = fds s \<and> hp t = hp s \<and> same_outside s t"
  by (auto simp: set_flag_def Let_def same_outside_def split: prod.splits option.splits)

lemma set_flags:
  "leaves (\<lambda>t. \<exists>ys. set ys \<subseteq> set xs \<and> fds t = apply_flags ys (fds s) \<and> hp t = hp s \<and> same_outside s t)
     (each (\<lambda>(fd, flag). set_flag env fd flag) xs s)"
  "each (\<lambda>(fd, flag). set_flag env fd flag) xs s = Return u t \<Longrightarrow> fds t = apply_flags xs (fds s)"
proof (induction xs arbitrary: s)
  case Nil
  {
    case 1
    show ?case by (simp add: same_outside_def)
  next
    case 2
    then show ?case by simp
  }
next
  case (Cons x xs)
  obtain fd flag where x: "x = (fd, flag)" by fastforce
  {
    case 1
    show ?case
    proof (cases "set_flag env fd flag s")
      case (Return v r)
      have ext: "\<exists>ys. set ys \<subseteq> set (x # xs) \<and> fds t = apply_flags ys (fds s) \<and> hp t = hp s \<and> same_outside s t"
        if "set ys \<subseteq> set xs" "fds t = apply_flags ys (fds r)" "hp t = hp r" "same_outside r t" for ys t
        by (rule exI [of _ "(fd, flag) # ys"])
          (use that set_flag_Return [OF Return] in \<open>auto simp: x same_outside_def\<close>)
      show ?thesis
        using Cons.IH(1) [of r] ext
        by (cases "each (\<lambda>(fd, flag). set_flag env fd flag) xs r") (auto simp: x Return)
    next
      case (Raise e r)
      with set_flag_Raise [OF Raise] show ?thesis by (auto simp: x intro!: exI [of _ "[]"])
    qed (simp add: x)
  next
    case 2
    then obtain v r where r: "set_flag env fd flag s = Return v r"
        "each (\<lambda>(fd, flag). set_flag env fd flag) xs r = Return u t"
      by (auto simp: x bindO_eq_Return)
    from Cons.IH(2) [OF r(2)] set_flag_Return [OF r(1)] show ?case
      by (simp only: x apply_flags_simps)
  }
qed

lemma configure_channels_before_fork:
  assumes "before_fork base r s" "wired s"
  shows "leaves (before_fork base r) (configure_channels env s)"
proof -
  let ?xs = "[(h_data (hp s), FD_CLOEXEC), (h_err (hp s), FD_CLOEXEC), (h_setup (hp s), FD_CLOEXEC),
      (h_data (hp s), O_NONBLOCK), (h_err (hp s), O_NONBLOCK), (h_setup (hp s), O_NONBLOCK)]"
  have "before_fork base r t"
    if "set ys \<subseteq> set ?xs" "fds t = apply_flags ys (fds s)" "hp t = hp s" "same_outside s t" for ys t
  proof -
    have "holds base (apply_flags ys (fds s)) (held (hp s))"
      by (rule apply_flags_holds)
        (use assms that(1) in \<open>auto simp: before_fork_def owns_def wired_def held_def\<close>)
    with assms that show ?thesis
      by (simp add: before_fork_def owns_def unforked_def same_outside_def)
  qed
  with set_flags(1) [of ?xs s env] show ?thesis
    by (cases "configure_channels env s") (auto simp only: configure_channels_def leaves_simps)
qed

text \<open>The ends that stay with the backend.\<close>

abbreviation backend_ends :: "open_file set" where
  "backend_ends \<equiv> {DataOwn, ErrRead, SetupWrite}"

lemma configure_channels_Return:
  assumes "before_fork base r s" "wired s" "configure_channels env s = Return u t"
    and "\<forall>k d. base k = Some d \<longrightarrow> ofile d \<notin> backend_ends"
  shows "wired t" "confined backend_ends (fds t)" "before_fork base r t"
proof -
  let ?xs = "[(h_data (hp s), FD_CLOEXEC), (h_err (hp s), FD_CLOEXEC), (h_setup (hp s), FD_CLOEXEC),
      (h_data (hp s), O_NONBLOCK), (h_err (hp s), O_NONBLOCK), (h_setup (hp s), O_NONBLOCK)]"
  show bf: "before_fork base r t"
    using configure_channels_before_fork [OF assms(1,2), of env] assms(3) by simp
  have f: "fds t = apply_flags ?xs (fds s)"
    by (rule set_flags(2)) (use assms(3) in \<open>simp only: configure_channels_def\<close>)
  have h: "hp t = hp s"
    using set_flags(1) [of ?xs s env] assms(3) by (auto simp only: configure_channels_def leaves_simps)
  show w: "wired t" using assms(2) by (simp add: wired_def h f apply_flags_ofile del: apply_flags_simps)
  show "confined backend_ends (fds t)" unfolding confined_def
  proof (intro allI impI)
    fix k d
    assume k: "fds t k = Some d" "ofile d \<in> backend_ends"
    show "cloexec d"
    proof (cases "k \<in> {h_data (hp s), h_err (hp s), h_setup (hp s)}")
      case True
      then have "(k, FD_CLOEXEC) \<in> set ?xs" by auto
      then show ?thesis using k(1) unfolding f by (rule apply_flags_cloexec)
    next
      case False
      have "k \<notin> set (held (hp t))" using False k w by (auto simp: wired_def held_def h)
      with bf k(1) have "base k = Some d" by (simp add: before_fork_def owns_def holds_def)
      with assms(4) k(2) show ?thesis by blast
    qed
  qed
qed

text \<open>
  The state in which the child is forked: from here on the process calls are those of
  \<open>forked\<close>, and the child's table was made from channels that are all in place.
\<close>

definition child_wired :: "char \<Rightarrow> backend \<Rightarrow> bool" where
  "child_wired c s \<longleftrightarrow>
     (\<forall>t. child s = Some (Running t) \<longrightarrow> channels_placed backend_ends DataPeer ErrWrite SetupRead c t)"

lemma fork_helper_child:
  assumes "wired s" "owns base s" "base (-1) = None" "confined backend_ends (fds s)"
    and "fork_helper env c s = Return u t"
  shows "child_wired c t"
proof -
  let ?h = "hp s"
  obtain d e st where files: "fds s (h_data_peer ?h) = Some d" "fds s (h_err_peer ?h) = Some e"
      "fds s (h_setup_peer ?h) = Some st" "ofile d = DataPeer" "ofile e = ErrWrite" "ofile st = SetupRead"
    using assms(1) by (auto simp: wired_def held_def)
  then have ne: "h_data_peer ?h \<noteq> h_err_peer ?h" "h_data_peer ?h \<noteq> h_setup_peer ?h"
    "h_err_peer ?h \<noteq> h_setup_peer ?h" by auto
  have "fds s (-1) = None" using assms(2,3) by (simp add: owns_def holds_def)
  from exec_helper_channels [OF this files(1-3) ne _ assms(4)] files assms(5) show ?thesis
    by (auto simp: child_wired_def fork_helper_def split: sum.splits)
qed

interpretation childw: helper_invariant "child_wired c" for c
proof
  show "child_wired c s \<Longrightarrow> leaves (child_wired c) (reap s)" for s
    by (rule leaves_reap) (simp_all add: child_wired_def)
  show "child_wired c s \<Longrightarrow> child_wired c (channel_accept ch ws bs s)" for s ch ws bs
    by (cases ch) (simp_all add: channel_accept_def child_wired_def)
qed (simp_all add: child_wired_def keep_err_def close_err_def close_data_def close_setup_def)

lemma before_fork_init:
  "sys_answer (s\<lparr>hp := new_helper query\<rparr>) = (a, t) \<Longrightarrow> before_fork (fds s) s t"
  by (simp add: before_fork_def owns_def unforked_def same_outside_def)
    (simp add: held_def new_helper_def holds_none)

lemma fork_helper_forked:
  "unforked c s \<Longrightarrow> fork_helper env cm s = Return u t \<Longrightarrow> forked c (close_peers t)"
  by (auto simp: fork_helper_def unforked_def forked_def close_peers_def split: sum.splits)

lemma fork_helper_owns: "owns base s \<Longrightarrow> leaves (owns base) (fork_helper env cm s)"
  by (simp add: fork_helper_def owns_def held_def split: sum.split)

lemma fork_helper_Raise: "fork_helper env cm s = Raise e t \<Longrightarrow> t = s"
  by (simp add: fork_helper_def split: sum.splits)

text \<open>
  Whether the start returns or raises, the record owns exactly the descriptors that were
  taken, and the fork is the only process call besides the wait it remembers.
\<close>

definition accounted :: "backend \<Rightarrow> backend \<Rightarrow> bool" where
  "accounted s t \<longleftrightarrow> owns (fds s) t \<and> (forked (calls s) t \<or> unforked (calls s) t)"

lemma before_fork_accounted: "before_fork (fds s) s t \<Longrightarrow> accounted s t"
  by (simp add: before_fork_def accounted_def)

lemma leaves_mono: "leaves P m \<Longrightarrow> (\<And>t. P t \<Longrightarrow> Q t) \<Longrightarrow> leaves Q m"
  by (cases m) auto

lemma start_tail:
  assumes "before_fork (fds s) s r"
  shows "leaves (accounted s)
    (bindO (fork_helper env cm r) (\<lambda>_ s. write_setup env payload (close_peers s)))"
proof (cases "fork_helper env cm r")
  case (Return u t)
  have o: "owns (fds s) (close_peers t)"
    using assms fork_helper_owns [of "fds s" r env cm] Return
    by (simp add: before_fork_def owns_close_peers)
  have f: "forked (calls s) (close_peers t)"
    using assms Return by (auto simp: before_fork_def intro: fork_helper_forked)
  show ?thesis
    using fdown.write_setup_keeps [OF o, of env payload] proc.write_setup_keeps [OF f, of env payload]
    by (cases "write_setup env payload (close_peers t)") (simp_all add: Return accounted_def)
next
  case (Raise e t)
  with assms show ?thesis by (auto simp: before_fork_accounted dest: fork_helper_Raise)
qed simp

lemma start_accounted: "leaves (accounted s) (chdb_helper_start env ctx query params s)"
proof -
  obtain a r where r: "sys_answer (s\<lparr>hp := new_helper query\<rparr>) = (a, r)" by fastforce
  note bf = before_fork_init [OF r]
  have hr: "hp r = new_helper query" using sys_answer_sel(2) [OF r] by simp
  have "leaves (accounted s) (bindO (open_channels env r) (\<lambda>_ s. bindO (configure_channels env s)
      (\<lambda>_ s. bindO (fork_helper env (cmd ctx) s) (\<lambda>_ s. write_setup env payload (close_peers s)))))"
    for payload
  proof (rule leaves_bindO)
    show "leaves (accounted s) (open_channels env r)"
      by (rule leaves_mono [OF open_channels_before_fork [OF bf hr] before_fork_accounted])
  next
    fix u t
    assume o: "open_channels env r = Return u t"
    then have t: "before_fork (fds s) s t" using open_channels_before_fork [OF bf hr, of env] by simp
    note c = configure_channels_before_fork [OF t open_channels_wired [OF o], of env]
    show "leaves (accounted s) (bindO (configure_channels env t)
      (\<lambda>_ s. bindO (fork_helper env (cmd ctx) s) (\<lambda>_ s. write_setup env payload (close_peers s))))"
      by (rule leaves_bindO [OF leaves_mono [OF c before_fork_accounted] start_tail])
        (use c in simp_all)
  qed
  then show ?thesis using bf
    by (auto simp: chdb_helper_start_def r before_fork_accounted split: option.split sum.split)
qed

lemma start_child_wired:
  assumes "fds s (-1) = None" "\<forall>k d. fds s k = Some d \<longrightarrow> ofile d \<notin> backend_ends" "child s = None"
  shows "leaves (child_wired (cmd ctx)) (chdb_helper_start env ctx query params s)"
proof -
  obtain a r where r: "sys_answer (s\<lparr>hp := new_helper query\<rparr>) = (a, r)" by fastforce
  note bf = before_fork_init [OF r]
  have hr: "hp r = new_helper query" using sys_answer_sel(2) [OF r] by simp
  have early: "child_wired (cmd ctx) t" if "before_fork (fds s) s t" for t
    using that assms(3) by (simp add: before_fork_def same_outside_def child_wired_def)
  have "leaves (child_wired (cmd ctx)) (bindO (open_channels env r) (\<lambda>_ s. bindO (configure_channels env s)
      (\<lambda>_ s. bindO (fork_helper env (cmd ctx) s) (\<lambda>_ s. write_setup env payload (close_peers s)))))"
    for payload
  proof (rule leaves_bindO [OF leaves_mono [OF open_channels_before_fork [OF bf hr] early]], assumption)
    fix u t
    assume o: "open_channels env r = Return u t"
    then have t: "before_fork (fds s) s t" using open_channels_before_fork [OF bf hr, of env] by simp
    note c = configure_channels_before_fork [OF t open_channels_wired [OF o], of env]
    show "leaves (child_wired (cmd ctx)) (bindO (configure_channels env t)
      (\<lambda>_ s. bindO (fork_helper env (cmd ctx) s) (\<lambda>_ s. write_setup env payload (close_peers s))))"
    proof (rule leaves_bindO [OF leaves_mono [OF c early]], assumption)
      fix v t'
      assume cf: "configure_channels env t = Return v t'"
      note w = configure_channels_Return [OF t open_channels_wired [OF o] cf assms(2)]
      show "leaves (child_wired (cmd ctx))
        (bindO (fork_helper env (cmd ctx) t') (\<lambda>_ s. write_setup env payload (close_peers s)))"
      proof (cases "fork_helper env (cmd ctx) t'")
        case (Return x t'')
        then have "child_wired (cmd ctx) t''"
          using w assms(1) by (auto simp: before_fork_def intro: fork_helper_child)
        then have "child_wired (cmd ctx) (close_peers t'')" by (simp add: child_wired_def close_peers_def)
        then show ?thesis by (simp add: Return childw.write_setup_keeps)
      next
        case (Raise e t'')
        with early [OF w(3)] show ?thesis by (auto dest: fork_helper_Raise)
      qed simp
    qed
  qed
  then show ?thesis using early [OF bf]
    by (auto simp: chdb_helper_start_def r split: option.split sum.split)
qed

section \<open>The life of a helper\<close>

text \<open>
  The states of one command's helper: it starts once; while it is usable the COPY code
  receives, writes or finishes; an operation that raises leaves it to the cleanup.
\<close>

inductive helper_life :: "helper_env \<Rightarrow> backend \<Rightarrow> bool \<Rightarrow> backend \<Rightarrow> bool" for env s0 where
  start: "chdb_helper_start env ctx query params s0 = Return u s \<Longrightarrow> helper_life env s0 True s"
| start_raise: "chdb_helper_start env ctx query params s0 = Raise e s \<Longrightarrow> helper_life env s0 False s"
| recv: "helper_life env s0 True s \<Longrightarrow> chdb_helper_recv env len s = Return bs t \<Longrightarrow> helper_life env s0 True t"
| recv_raise: "helper_life env s0 True s \<Longrightarrow> chdb_helper_recv env len s = Raise e t \<Longrightarrow> helper_life env s0 False t"
| send: "helper_life env s0 True s \<Longrightarrow> chdb_helper_write env bs s = Return u t \<Longrightarrow> helper_life env s0 True t"
| send_raise: "helper_life env s0 True s \<Longrightarrow> chdb_helper_write env bs s = Raise e t \<Longrightarrow> helper_life env s0 False t"
| finish: "helper_life env s0 True s \<Longrightarrow> chdb_helper_finish env s = Return u t \<Longrightarrow> helper_life env s0 True t"
| finish_raise: "helper_life env s0 True s \<Longrightarrow> chdb_helper_finish env s = Raise e t \<Longrightarrow> helper_life env s0 False t"

lemma start_Return_forked:
  assumes "chdb_helper_start env ctx query params s = Return u t"
  shows "forked (calls s) t"
proof -
  have a: "leaves (forked (calls s)) (write_setup env payload (close_peers r'))"
    if "before_fork (fds s) s r" "fork_helper env (cmd ctx) r = Return v r'" for payload r r' v
    using that by (intro proc.write_setup_keeps fork_helper_forked) (auto simp: before_fork_def)
  obtain r0 payload r1 u1 r2 u2 r3 u3 where
      r: "sys_answer (s\<lparr>hp := new_helper query\<rparr>) = (None, r0)" "open_channels env r0 = Return u1 r1"
        "configure_channels env r1 = Return u2 r2" "fork_helper env (cmd ctx) r2 = Return u3 r3"
        "write_setup env payload (close_peers r3) = Return u t"
    using assms by (auto simp: chdb_helper_start_def bindO_eq_Return split: prod.splits option.splits sum.splits)
  have "before_fork (fds s) s r2"
    using open_channels_before_fork [OF before_fork_init [OF r(1)], of query env] sys_answer_sel(2) [OF r(1)]
      configure_channels_before_fork [of "fds s" s r1 env] open_channels_wired [OF r(2)] r(2,3) by simp
  from leavesD(1) [OF a [OF this r(4)] r(5)] show ?thesis .
qed

lemma helper_life_accounted:
  "helper_life env s0 b s \<Longrightarrow> accounted s0 s \<and> (b \<longrightarrow> forked (calls s0) s)"
proof (induction rule: helper_life.induct)
  case (start ctx query params u s)
  then show ?case using start_accounted [of s0 env ctx query params] by (simp add: start_Return_forked)
next
  case (start_raise ctx query params e s)
  then show ?case using start_accounted [of s0 env ctx query params] by simp
qed (auto simp: accounted_def
    dest: leavesD [OF fdown.recv_keeps] leavesD [OF proc.recv_keeps] leavesD [OF fdown.write_keeps]
      leavesD [OF proc.write_keeps] leavesD [OF fdown.finish_keeps] leavesD [OF proc.finish_keeps])

lemma waitpid_loop_ends: "\<exists>a \<in> set es. a \<noteq> WaitErr EINTR \<Longrightarrow> waitpid_loop es \<noteq> None"
  by (induction es rule: waitpid_loop.induct) auto

lemma stop_helper_returns:
  assumes "\<exists>a \<in> set (wait_ev s). a \<noteq> WaitErr EINTR"
  shows "\<exists>t. stop_helper s = Return () t"
  using waitpid_loop_ends [OF assms]
  by (auto simp: stop_helper_def Let_def reap_def close_data_def close_err_def close_setup_def close_peers_def)

text \<open>A concrete command: an empty descriptor table, and a helper that exits cleanly.\<close>

definition ex_env :: helper_env where
  "ex_env = \<lparr>mbcliplen = length, strerror = (\<lambda>_. ''error''), pkglib = ''/usr/lib/postgresql'',
     session_timezone = ''UTC'', byte_order = Little, fd_limit = 64\<rparr>"

definition ex_ctx :: chdbHelperContext where
  "ex_ctx = \<lparr>cmd = CHDB_CMD_SELECT, max_memory = 0, max_threads = 2, max_parsers = 0\<rparr>"

definition ex_backend :: backend where
  "ex_backend = \<lparr>fds = (\<lambda>_. None), hp = new_helper [], err_ev = [Data CHR ''w'' [], ReadErr EAGAIN, Eof],
     data_ev = [Data CHR ''r'' ''ows'', Eof], data_wr = [Accept 3, WriteErr EAGAIN, Accept 99],
     setup_wr = [Accept 999], wait_ev = [WaitErr EINTR, Ended 0], intr = [], sys_ev = [], fork_ev = Inr 41,
     exec_ok = True, child = None, sent_data = [], sent_setup = [], calls = []\<rparr>"

lemma write_all_once:
  assumes "bs \<noteq> []" "intr s = []" "0 \<le> channel_fd ch s" "channel_wr ch s = Accept n # es" "length bs \<le> Suc n"
  shows "write_all ch bs s = Return None (channel_accept ch es bs s)"
  using assms
  by (subst write_all.simps) (simp add: check_for_interrupts_def channel_write_def write_all.simps)

lemma ex_payload:
  obtains payload where "build_setup Little ''UTC'' ex_ctx ''SELECT 1'' [] = Inr payload"
    "payload \<noteq> []" "length payload \<le> 1000"
proof -
  have "\<exists>b. build_setup Little ''UTC'' ex_ctx ''SELECT 1'' [] = Inr b \<and> b \<noteq> [] \<and> length b \<le> 1000"
    by (simp add: build_setup_payload length_append_string CHDB_SETUP_MAX_def)
  with that show thesis by blast
qed

lemma first_free_step:
  "0 < n \<Longrightarrow> first_free t lo n = (if t lo = None then Some lo else first_free t (lo + 1) (n - 1))"
  by (cases n) simp_all

lemmas start_eval = chdb_helper_start_def sys_answer_def open_channels_def open_channel_def sys_open_def
  first_free_step configure_channels_def set_flag_def put_flag_def fork_helper_def exec_helper_def
  reserve_fd_def sys_dupfd_def sys_close_def place_fd_def sys_dup2_def CHDB_SETUP_FD_def fresh_fd_def
  close_peers_def close_fd_def write_setup_def write_all_once channel_fd_def channel_wr_def
  channel_accept_def close_setup_def new_helper_def

lemma ex_start:
  obtains t f where "chdb_helper_start ex_env ex_ctx ''SELECT 1'' [] ex_backend = Return () t"
    "wait_ev t = [WaitErr EINTR, Ended 0]" "child t = Some (Running f)" "calls t = [Fork 42]"
    "build_setup Little ''UTC'' ex_ctx ''SELECT 1'' [] = Inr (sent_setup t)"
    "h_data (hp t) = 0" "h_err (hp t) = 2" "\<not> h_reaped (hp t)" "intr t = []" "h_err_buf (hp t) = []"
    "err_ev t = err_ev ex_backend" "data_wr t = data_wr ex_backend" "data_ev t = data_ev ex_backend"
    "sent_data t = []" "h_pid (hp t) = 42"
proof -
  obtain payload where p: "build_setup Little ''UTC'' ex_ctx ''SELECT 1'' [] = Inr payload"
    "payload \<noteq> []" "length payload \<le> 1000" by (rule ex_payload)
  have e: "\<exists>t. chdb_helper_start ex_env ex_ctx ''SELECT 1'' [] ex_backend = Return () t
      \<and> wait_ev t = [WaitErr EINTR, Ended 0] \<and> (\<exists>f. child t = Some (Running f)) \<and> calls t = [Fork 42]
      \<and> sent_setup t = payload \<and> h_data (hp t) = 0 \<and> h_err (hp t) = 2 \<and> \<not> h_reaped (hp t)
      \<and> intr t = [] \<and> h_err_buf (hp t) = [] \<and> err_ev t = err_ev ex_backend
      \<and> data_wr t = data_wr ex_backend \<and> data_ev t = data_ev ex_backend \<and> sent_data t = []
      \<and> h_pid (hp t) = 42"
    using p by (simp add: start_eval ex_env_def ex_backend_def)
  from e show thesis by (elim exE conjE) (rule that, simp_all add: p(1))
qed

text \<open>The same start for any request of moderate size.\<close>

lemma ex_start_any:
  assumes p: "build_setup Little ''UTC'' ctx query params = Inr payload" "payload \<noteq> []" "length payload \<le> 1000"
  obtains t where "chdb_helper_start ex_env ctx query params ex_backend = Return () t"
    "wait_ev t = [WaitErr EINTR, Ended 0]" "h_err (hp t) = 2" "\<not> h_reaped (hp t)" "intr t = []"
    "err_ev t = err_ev ex_backend" "h_data (hp t) = 0" "data_wr t = data_wr ex_backend" "sent_data t = []"
proof -
  have "\<exists>t. chdb_helper_start ex_env ctx query params ex_backend = Return () t
      \<and> wait_ev t = [WaitErr EINTR, Ended 0] \<and> h_err (hp t) = 2 \<and> \<not> h_reaped (hp t) \<and> intr t = []
      \<and> err_ev t = err_ev ex_backend \<and> h_data (hp t) = 0 \<and> data_wr t = data_wr ex_backend \<and> sent_data t = []"
    using p by (simp add: start_eval ex_env_def ex_backend_def del: exec_helper_def)
  with that show thesis by blast
qed

text \<open>
  C22. No descriptor leaks: whatever happened to a helper, from a failed start to a raised
  error in the middle of a transfer, the memory context callback ends as soon as the killed
  child can be waited for, and the backend's descriptor table is then the one the command
  started from.
\<close>

theorem helper_no_leak:
  assumes "helper_life env s0 usable s" and "\<exists>a \<in> set (wait_ev s). a \<noteq> WaitErr EINTR"
  shows "\<exists>t. stop_helper s = Return () t \<and> fds t = fds s0"
  using helper_life_accounted [OF assms(1)] stop_helper_returns [OF assms(2)] stop_helper_fds
  unfolding accounted_def by blast

theorem helper_no_leak_witness:
  "\<exists>s t. helper_life ex_env ex_backend True s \<and> stop_helper s = Return () t \<and> fds t = (\<lambda>_. None)"
proof -
  obtain s f where s: "chdb_helper_start ex_env ex_ctx ''SELECT 1'' [] ex_backend = Return () s"
    "wait_ev s = [WaitErr EINTR, Ended 0]" by (rule ex_start)
  from helper_life.start [OF s(1)] have l: "helper_life ex_env ex_backend True s" .
  from helper_no_leak [OF l] s(2) obtain t where "stop_helper s = Return () t" "fds t = fds ex_backend"
    by auto
  with l show ?thesis by (auto simp: ex_backend_def)
qed

text \<open>
  C23. Over the whole life of a helper, its cleanup included, the process calls are: none when
  it was never forked, or one fork and one wait, with at most one kill between them. So the
  helper is never left as a zombie, and no signal goes to a pid that was already waited for.
\<close>

theorem helper_collected_once:
  assumes "helper_life env s0 usable s" and "stop_helper s = Return u t"
  shows "\<exists>p. calls t = calls s0 \<or> calls t = calls s0 @ [Fork p, Waited p]
    \<or> calls t = calls s0 @ [Fork p, Kill p, Waited p]"
  using helper_life_accounted [OF assms(1)] stop_helper_calls [OF _ assms(2)]
  unfolding accounted_def by blast

theorem helper_collected_once_witness:
  "\<exists>s t p. helper_life ex_env ex_backend True s \<and> stop_helper s = Return () t
     \<and> (calls t = [] \<or> calls t = [Fork p, Waited p] \<or> calls t = [Fork p, Kill p, Waited p])"
proof -
  obtain s f where s: "chdb_helper_start ex_env ex_ctx ''SELECT 1'' [] ex_backend = Return () s"
    "wait_ev s = [WaitErr EINTR, Ended 0]" by (rule ex_start)
  from helper_life.start [OF s(1)] have l: "helper_life ex_env ex_backend True s" .
  from stop_helper_returns [of s] s(2) obtain t where "stop_helper s = Return () t" by auto
  with helper_collected_once [OF l this] l show ?thesis by (auto simp: ex_backend_def)
qed

text \<open>
  C24. The child of a started helper, if it gets to run the program, has its end of the data
  channel on the standard descriptor the command uses and \<open>/dev/null\<close> on the other, the error
  pipe on 2 and the setup pipe on 3, and no descriptor at all for the ends that stay with
  the backend, whose closing is what the helper sees as the end of its input.
\<close>

theorem helper_started_with_channels:
  assumes "fds s (-1) = None" and "\<forall>k d. fds s k = Some d \<longrightarrow> ofile d \<notin> backend_ends"
    and "child s = None" and "chdb_helper_start env ctx query params s = Return u t"
    and "child t = Some (Running f)"
  shows "channels_placed backend_ends DataPeer ErrWrite SetupRead (cmd ctx) f"
  using leavesD(1) [OF start_child_wired [OF assms(1-3)] assms(4)] assms(5) by (simp add: child_wired_def)

theorem helper_started_with_channels_witness:
  "\<exists>t f. chdb_helper_start ex_env ex_ctx ''SELECT 1'' [] ex_backend = Return () t
     \<and> child t = Some (Running f) \<and> map_option ofile (f 1) = Some DataPeer
     \<and> map_option ofile (f 2) = Some ErrWrite"
proof -
  obtain t f where s: "chdb_helper_start ex_env ex_ctx ''SELECT 1'' [] ex_backend = Return () t"
    "child t = Some (Running f)" by (rule ex_start)
  have "channels_placed backend_ends DataPeer ErrWrite SetupRead (cmd ex_ctx) f"
    by (rule helper_started_with_channels [OF _ _ _ s]) (simp_all add: ex_backend_def)
  with s show ?thesis by (auto simp: channels_placed_def ex_ctx_def)
qed

end
