(* ===== verification/Helper_Streams.thy ===== *)
theory Helper_Streams
  imports Helper_Lifecycle
begin

text \<open>
  What crosses the channels of a helper: the captured head of its error output and how a
  failure is reported, the bytes the backend receives and when it may take the stream for
  complete, and the bytes it writes, which is an interpretation of the contract \<open>byte_sink\<close>.
\<close>

section \<open>The captured error output\<close>

definition captured :: "string \<Rightarrow> backend \<Rightarrow> bool" where
  "captured whole s \<longleftrightarrow>
     (\<exists>c. c @ stream_bytes (err_ev s) = whole \<and> h_err_buf (hp s) = take (CHDB_HELPER_ERR_MAX - 1) c)
     \<and> (h_err (hp s) < 0 \<longrightarrow> stream_bytes (err_ev s) = [])"

lemma captured_keep_err:
  assumes "captured whole s" "0 \<le> h_err (hp s)" "sys_read (err_room s) (err_ev s) = Some (Got bs, es)"
  shows "captured whole (keep_err bs (s\<lparr>err_ev := es\<rparr>))"
proof -
  let ?m = "CHDB_HELPER_ERR_MAX - 1"
  obtain c where c: "c @ stream_bytes (err_ev s) = whole" "h_err_buf (hp s) = take ?m c"
    using assms(1) by (auto simp: captured_def)
  have bs: "stream_bytes (err_ev s) = bs @ stream_bytes es" "length bs \<le> err_room s"
    using sys_read_Got [OF assms(3)] by simp_all
  have "h_err_buf (hp (keep_err bs (s\<lparr>err_ev := es\<rparr>))) = take ?m (c @ bs)"
  proof (cases "length c < ?m")
    case True
    then have b: "h_err_buf (hp s) = c" using c(2) by simp
    with True have "err_room s = ?m - length c" by (simp add: err_room_def Let_def) arith
    with bs(2) True have "take ?m (c @ bs) = c @ bs" by (intro take_all) simp
    moreover have "?m - length (h_err_buf (hp s)) \<noteq> 0" using True b by simp
    ultimately show ?thesis using b by (simp add: keep_err_def del: take_append)
  next
    case False
    then have "take ?m (c @ bs) = take ?m c" "length (h_err_buf (hp s)) = ?m" using c(2) by simp_all
    then show ?thesis using c(2) by (simp add: keep_err_def)
  qed
  with c(1) bs(1) assms(2) show ?thesis
    by (auto simp: captured_def intro!: exI [of _ "c @ bs"] simp del: take_append)
qed

interpretation errcap: helper_invariant "captured whole" for whole
proof
  show "captured whole s \<Longrightarrow> leaves (captured whole) (reap s)" for s
    by (rule leaves_reap) (simp_all add: captured_def)
  show "captured whole s \<Longrightarrow> captured whole (channel_accept ch ws bs s)" for s ch ws bs
    by (cases ch) (simp_all add: channel_accept_def captured_def)
  show "captured whole s \<Longrightarrow> 0 \<le> h_err (hp s) \<Longrightarrow> sys_read (err_room s) (err_ev s) = Some (GotErr e, es)
      \<Longrightarrow> captured whole (s\<lparr>err_ev := es\<rparr>)" for s e es
    by (frule sys_read_Err) (auto simp: captured_def)
  show "captured whole s \<Longrightarrow> 0 \<le> h_err (hp s) \<Longrightarrow> sys_read (err_room s) (err_ev s) = Some (Got bs, es)
      \<Longrightarrow> captured whole (keep_err bs (s\<lparr>err_ev := es\<rparr>))" for s bs es
    by (rule captured_keep_err)
qed (auto simp: captured_def close_err_def close_data_def close_setup_def)

section \<open>Draining ends\<close>

lemma drain_and_reap_Return:
  "drain_and_reap s = Return st t \<Longrightarrow> h_err (hp t) < 0 \<and> h_reaped (hp t) \<and> h_status (hp t) = st"
proof (induction s rule: drain_and_reap.induct)
  case (1 s)
  have r: "reap u = Return st t \<Longrightarrow> h_err (hp u) < 0
      \<Longrightarrow> h_err (hp t) < 0 \<and> h_reaped (hp t) \<and> h_status (hp t) = st" for u
    by (auto simp: reap_def split: if_splits option.splits)
  show ?case
  proof (cases "h_err (hp s) \<ge> 0")
    case False
    with "1.prems" r [of s] show ?thesis by (simp add: drain_and_reap.simps [of s])
  next
    case True
    with "1.prems" obtain u t1 v t2 where c: "check_for_interrupts s = Return u t1" "drain_err t1 = Return v t2"
      "(if h_err (hp t2) \<ge> 0 then drain_and_reap t2 else reap t2) = Return st t"
      by (auto simp: drain_and_reap.simps [of s] wait_fd_def split: outcome.splits if_splits)
    show ?thesis
    proof (cases "h_err (hp t2) \<ge> 0")
      case h: True
      with "1.IH" [OF True c(1,2) h] c(3) show ?thesis by (simp add: wait_fd_def)
    qed (use c(3) r [of t2] in simp)
  qed
qed

lemma drain_and_reap_done:
  "h_err (hp s) < 0 \<Longrightarrow> h_reaped (hp s) \<Longrightarrow> drain_and_reap s = Return (h_status (hp s)) s"
  by (subst drain_and_reap.simps) (simp add: reap_def)

lemma drain_err_returns:
  "clean_stream UNIV (err_ev s) \<Longrightarrow> \<exists>t. drain_err s = Return () t \<and> clean_stream UNIV (err_ev t)"
proof (induction s rule: drain_err.induct)
  case (1 s)
  show ?case
  proof (cases "h_err (hp s) \<ge> 0")
    case False
    with "1.prems" show ?thesis by (simp add: drain_err.simps [of s])
  next
    case True
    obtain r es where r: "sys_read (err_room s) (err_ev s) = Some (r, es)"
      using sys_read_clean [OF "1.prems"] by blast
    show ?thesis
    proof (cases r)
      case (Got bs)
      with "1.IH"(1) [OF True r refl Got] sys_read_Got(4) [of "err_room s" "err_ev s" bs es UNIV] r True "1.prems"
      show ?thesis by (simp add: drain_err.simps [of s])
    next
      case GotEof
      with r have "es = err_ev s" by (auto dest: sys_read_Eof)
      with "1.IH"(2) [OF True r refl GotEof] r GotEof True "1.prems" show ?thesis
        by (simp add: drain_err.simps [of s] close_err_def)
    next
      case (GotErr e)
      with "1.IH"(3) [OF True r refl GotErr] sys_read_Err [of "err_room s" "err_ev s" e es UNIV] r True "1.prems"
      show ?thesis by (cases "e = EINTR") (simp_all add: drain_err.simps [of s])
    qed
  qed
qed

text \<open>
  The error channel may fail any number of times before its end; with nothing to interrupt the
  backend and a child that can be waited for, draining and reaping end with its status.
\<close>

lemma drain_and_reap_returns:
  assumes "intr s = []" "clean_stream UNIV (err_ev s)" "\<not> h_reaped (hp s)"
    "waitpid_loop (wait_ev s) = Some ((st, w), es)"
  shows "\<exists>t. drain_and_reap s = Return st t"
  using assms
proof (induction s rule: drain_and_reap.induct)
  case (1 s)
  show ?case
  proof (cases "h_err (hp s) \<ge> 0")
    case False
    with "1.prems" show ?thesis by (simp add: drain_and_reap.simps [of s] reap_def)
  next
    case True
    have c: "check_for_interrupts s = Return () s" using "1.prems"(1) by (simp add: check_for_interrupts_def)
    obtain t where t: "drain_err s = Return () t" "clean_stream UNIV (err_ev t)"
      using drain_err_returns [OF "1.prems"(2)] by blast
    from drain_err_frame [OF t(1)] "1.prems" have f: "intr t = []" "\<not> h_reaped (hp t)"
      "waitpid_loop (wait_ev t) = Some ((st, w), es)" by (simp_all add: same_but_err_def)
    show ?thesis
    proof (cases "h_err (hp t) \<ge> 0")
      case h: True
      with "1.IH" [OF True c t(1) h] f t True c show ?thesis
        by (simp add: drain_and_reap.simps [of s] wait_fd_def)
    next
      case False
      with f t True c show ?thesis by (simp add: drain_and_reap.simps [of s] reap_def)
    qed
  qed
qed

section \<open>The end of a command\<close>

lemma report_helper_done:
  "h_err (hp s) < 0 \<Longrightarrow> h_reaped (hp s) \<Longrightarrow> report_helper env what s = Raise (helper_report env what (hp s)) s"
  by (simp add: report_helper_def drain_and_reap_done)

lemma finish_cases:
  assumes "drain_and_reap (close_data s) = Return st t"
  shows "chdb_helper_finish env s = (if st = 0 then Return () t
    else Raise (helper_report env ''error finishing chDB query'' (hp t)) t)"
  using drain_and_reap_Return [OF assms] by (simp add: chdb_helper_finish_def assms report_helper_done)

lemma recv_end_cases:
  assumes "drain_and_reap (close_data s) = Return st t"
  shows "recv_end env s = (if st = 0 then Return [] t
    else Raise (helper_report env ''error executing chDB query'' (hp t)) t)"
  using drain_and_reap_Return [OF assms] by (simp add: recv_end_def assms report_helper_done)

text \<open>
  The verdict of a finished COPY TO is the helper's exit status. Whatever the error pipe
  does before it ends, finishing returns exactly when the status is zero; otherwise it raises
  the report of that status, with the first 4095 bytes the helper wrote to its error output.
\<close>

theorem finish_verdict:
  assumes "intr s = []" and "clean_stream UNIV (err_ev s)" and "\<not> h_reaped (hp s)"
    and "waitpid_loop (wait_ev s) = Some ((st, w), es)" and "0 \<le> h_err (hp s)" and "h_err_buf (hp s) = []"
  shows "\<exists>t. h_err_buf (hp t) = take 4095 (stream_bytes (err_ev s)) \<and> h_status (hp t) = st
    \<and> chdb_helper_finish env s = (if st = 0 then Return () t
        else Raise (helper_report env ''error finishing chDB query'' (hp t)) t)"
proof -
  have c: "captured (stream_bytes (err_ev s)) (close_data s)"
    using assms(5,6) by (auto simp: captured_def close_data_def)
  obtain t where t: "drain_and_reap (close_data s) = Return st t"
    using drain_and_reap_returns [of "close_data s" st w es] assms(1-4) by (auto simp: close_data_def)
  have "captured (stream_bytes (err_ev s)) t" using errcap.drain_and_reap_keeps [OF c] t by simp
  with drain_and_reap_Return [OF t] have "h_err_buf (hp t) = take 4095 (stream_bytes (err_ev s))"
    by (auto simp: captured_def CHDB_HELPER_ERR_MAX_def)
  with finish_cases [OF t] drain_and_reap_Return [OF t] show ?thesis by blast
qed

theorem finish_verdict_witness:
  "\<exists>s t. chdb_helper_start ex_env ex_ctx ''SELECT 1'' [] ex_backend = Return () s
     \<and> h_err_buf (hp t) = ''w'' \<and> chdb_helper_finish ex_env s = Return () t"
proof -
  obtain s f where s: "chdb_helper_start ex_env ex_ctx ''SELECT 1'' [] ex_backend = Return () s"
    "wait_ev s = [WaitErr EINTR, Ended 0]" "h_err (hp s) = 2" "\<not> h_reaped (hp s)" "intr s = []"
    "h_err_buf (hp s) = []" "err_ev s = err_ev ex_backend" by (rule ex_start)
  have e: "err_ev s = [Data CHR ''w'' [], ReadErr EAGAIN, Eof]" using s(7) by (simp add: ex_backend_def)
  have "\<exists>t. h_err_buf (hp t) = take 4095 (stream_bytes (err_ev s)) \<and> h_status (hp t) = 0
    \<and> chdb_helper_finish ex_env s = (if (0 :: int) = 0 then Return () t
        else Raise (helper_report ex_env ''error finishing chDB query'' (hp t)) t)"
    by (rule finish_verdict [where w = None and es = "[]"]) (simp_all add: s(2-6) e)
  with s(1) show ?thesis by (auto simp add: e)
qed

lemma recv_Return:
  assumes "chdb_helper_recv env len s = Return bs t" and "0 < len"
  shows "if bs = [] then stream_bytes (data_ev s) = [] \<and> h_reaped (hp t) \<and> h_status (hp t) = 0
    else stream_bytes (data_ev s) = bs @ stream_bytes (data_ev t) \<and> length bs \<le> len"
  using assms
proof (induction env len s rule: chdb_helper_recv.induct)
  case (1 env len s)
  obtain u s1 where c: "check_for_interrupts s = Return u s1"
    using "1.prems"(1) by (auto simp: chdb_helper_recv.simps [of env len s] split: outcome.splits)
  then have d: "data_ev s1 = data_ev s" by (auto dest: check_for_interrupts_Return)
  obtain r s2 where r: "read_data len s1 = Some (r, s2)"
    using "1.prems"(1) c by (auto simp: chdb_helper_recv.simps [of env len s] split: option.splits)
  show ?case
  proof (cases r)
    case (Got b)
    with r c "1.prems" have "bs = b" "t = s2" by (simp_all add: chdb_helper_recv.simps [of env len s])
    with r Got d show ?thesis by (auto simp: read_data_def split: if_splits dest: sys_read_Got)
  next
    case GotEof
    with r c "1.prems" have e: "recv_end env s2 = Return bs t" by (simp add: chdb_helper_recv.simps [of env len s])
    have "stream_bytes (data_ev s) = []"
      using r GotEof d "1.prems"(2) by (auto simp: read_data_def split: if_splits dest: sys_read_Eof)
    moreover obtain st v where "drain_and_reap (close_data s2) = Return st v"
      using e by (auto simp: recv_end_def bindO_eq_Return)
    ultimately show ?thesis using recv_end_cases [of s2 st v env] drain_and_reap_Return e
      by (auto split: if_splits)
  next
    case (GotErr e)
    have f: "stream_bytes (data_ev s2) = stream_bytes (data_ev s)"
      using r GotErr d by (auto simp: read_data_def split: if_splits dest: sys_read_Err [where E = UNIV])
    consider v s3 where "e = EAGAIN \<or> e = EWOULDBLOCK" "drain_err s2 = Return v s3"
        "chdb_helper_recv env len s3 = Return bs t"
      | "e = EINTR" "chdb_helper_recv env len s2 = Return bs t"
      using "1.prems"(1) c r GotErr
      by (auto simp: chdb_helper_recv.simps [of env len s] wait_fd_def report_helper_def bindO_eq_Return
          split: outcome.splits if_splits)
    then show ?thesis
    proof cases
      case 1
      with "1.IH"(1) [OF c r refl GotErr 1(1,2)] drain_err_data_ev [OF 1(2)] f "1.prems"(2) show ?thesis
        by (simp add: wait_fd_def split: if_splits)
    next
      case 2
      with "1.IH"(2) [OF c r refl GotErr] f "1.prems"(2) show ?thesis by (simp split: if_splits)
    qed
  qed
qed

text \<open>
  A receive never invents, skips or repeats bytes, and an empty one is a promise: it
  returns bytes that are the head of what the helper had still to deliver, at most as many as
  asked for, or it returns nothing, and then the whole stream has been delivered, the helper
  has been waited for and its exit status was zero. A helper that fails after sending part of
  its result therefore never looks like the end of the result.
\<close>

theorem recv_stream:
  assumes "chdb_helper_recv env len s = Return bs t" and "0 < len"
  shows "if bs = [] then stream_bytes (data_ev s) = [] \<and> h_reaped (hp t) \<and> h_status (hp t) = 0
    else stream_bytes (data_ev s) = bs @ stream_bytes (data_ev t) \<and> length bs \<le> len"
  using assms by (rule recv_Return)

theorem recv_stream_witness:
  "\<exists>s t. chdb_helper_start ex_env ex_ctx ''SELECT 1'' [] ex_backend = Return () s
     \<and> chdb_helper_recv ex_env 3 s = Return ''row'' t \<and> stream_bytes (data_ev t) = ''s''"
proof -
  obtain s f where s: "chdb_helper_start ex_env ex_ctx ''SELECT 1'' [] ex_backend = Return () s"
    "h_data (hp s) = 0" "intr s = []" "data_ev s = data_ev ex_backend" by (rule ex_start)
  have d: "data_ev s = [Data CHR ''r'' ''ows'', Eof]" using s(4) by (simp add: ex_backend_def)
  obtain t where r: "chdb_helper_recv ex_env 3 s = Return ''row'' t"
    by (subst (asm) chdb_helper_recv.simps)
      (simp add: s(2,3) d check_for_interrupts_def read_data_def)
  from recv_stream [OF r] have "stream_bytes (data_ev t) = ''s''" by (simp add: d)
  with s(1) r show ?thesis by blast
qed

section \<open>Writing in order\<close>

interpretation unsent: report_invariant "\<lambda>s. channel_sent ch s = x" for ch x
proof
  show "channel_sent ch s = x \<Longrightarrow> leaves (\<lambda>s. channel_sent ch s = x) (reap s)" for s
    by (cases ch; rule leaves_reap) (simp_all add: channel_sent_def)
qed (cases ch; simp add: channel_sent_def keep_err_def close_err_def)+

text \<open>However a write ends, what it added to the channel is the head of its bytes.\<close>

definition added :: "channel \<Rightarrow> string \<Rightarrow> backend \<Rightarrow> backend \<Rightarrow> bool" where
  "added ch bs s t \<longleftrightarrow> (\<exists>b. prefix b bs \<and> channel_sent ch t = channel_sent ch s @ b)"

definition write_adds :: "channel \<Rightarrow> string \<Rightarrow> backend \<Rightarrow> (errno option, backend) outcome \<Rightarrow> bool" where
  "write_adds ch bs s m \<longleftrightarrow>
     leaves (added ch bs s) m \<and> (\<forall>t. m = Return None t \<longrightarrow> channel_sent ch t = channel_sent ch s @ bs)"

lemma added_same: "channel_sent ch t = channel_sent ch s \<Longrightarrow> added ch bs s t"
  by (simp add: added_def exI [of _ "[]"])

lemma added_later:
  assumes "channel_sent ch t = channel_sent ch s @ take n bs" "added ch (drop n bs) t u"
  shows "added ch bs s u"
proof -
  obtain b where b: "prefix b (drop n bs)" "channel_sent ch u = channel_sent ch s @ take n bs @ b"
    using assms by (auto simp: added_def)
  then have "prefix (take n bs @ b) (take n bs @ drop n bs)" by (simp only: same_prefix_prefix)
  with b(2) show ?thesis unfolding added_def by (intro exI [of _ "take n bs @ b"]) simp
qed

lemma write_adds_later:
  assumes "channel_sent ch t = channel_sent ch s @ take n bs" "write_adds ch (drop n bs) t m"
  shows "write_adds ch bs s m"
proof -
  from assms(2) have "leaves (added ch (drop n bs) t) m" by (simp add: write_adds_def)
  then have "leaves (added ch bs s) m" by (rule leaves_mono) (rule added_later [OF assms(1)])
  with assms show ?thesis by (simp add: write_adds_def)
qed

lemma write_adds_same:
  "channel_sent ch t = channel_sent ch s \<Longrightarrow> write_adds ch bs t m \<Longrightarrow> write_adds ch bs s m"
  using write_adds_later [of ch t s 0 bs m] by simp

lemma write_all_adds: "write_adds ch bs s (write_all ch bs s)"
proof (induction ch bs s rule: write_all.induct)
  case (1 ch bs s)
  show ?case
  proof (cases "bs = [] \<or> (\<forall>u t. check_for_interrupts s \<noteq> Return u t)")
    case True
    then show ?thesis
      by (subst write_all.simps)
        (auto simp: write_adds_def added_same split: outcome.split dest!: check_for_interrupts_Raise)
  next
    case False
    then obtain u t where c: "bs \<noteq> []" "check_for_interrupts s = Return u t" by blast
    then have st: "channel_sent ch t = channel_sent ch s" by (auto dest: check_for_interrupts_Return)
    show ?thesis
    proof (cases "channel_write ch bs t")
      case None
      with c show ?thesis by (subst write_all.simps) (simp add: write_adds_def)
    next
      case (Some rt)
      then obtain r t' where w: "channel_write ch bs t = Some (r, t')" by (cases rt) auto
      show ?thesis
      proof (cases r)
        case (Put n)
        with w have "channel_sent ch t' = channel_sent ch s @ take n bs"
          by (auto simp: channel_write_def st split: if_splits option.splits write_result.splits)
        from write_adds_later [OF this "1.IH"(1) [OF c w refl Put]] c w Put show ?thesis
          by (subst write_all.simps) simp
      next
        case (PutErr e)
        with w st have st': "channel_sent ch t' = channel_sent ch s"
          by (auto simp: channel_write_def split: if_splits option.splits write_result.splits)
        have dr: "channel_sent ch t'' = channel_sent ch s" if "drain_err t' = Return v t''" for v t''
          using unsent.drain_err_keeps [OF st' that] .
        have w3: "write_adds ch bs s (write_all ch bs t')"
          if "\<not> (e = EAGAIN \<or> e = EWOULDBLOCK)" "\<not> e \<noteq> EINTR"
          by (rule write_adds_same [OF st' "1.IH"(3) [OF c w refl PutErr that]])
        show ?thesis
        proof (cases "drain_err t'")
          case (Return v t'')
          have w2: "write_adds ch bs s (write_all ch bs (wait_fd (channel_fd ch t'') t''))"
            if "e = EAGAIN \<or> e = EWOULDBLOCK"
            by (rule write_adds_same [OF _ "1.IH"(2) [OF c w refl PutErr that Return]])
              (simp add: wait_fd_def dr [OF Return])
          show ?thesis using w2 w3 c w PutErr Return
            by (subst write_all.simps) (auto simp: write_adds_def added_same st')
        next
          case Waiting
          with w3 c w PutErr show ?thesis
            by (subst write_all.simps) (auto simp: write_adds_def added_same st')
        qed simp
      qed
    qed
  qed
qed

lemma helper_write_Return:
  "chdb_helper_write env bs s = Return u t \<Longrightarrow> sent_data t = sent_data s @ bs"
  using write_all_adds [of DataChannel bs s]
  by (auto simp: chdb_helper_write_def bindO_eq_Return write_adds_def channel_sent_def report_helper_def
      split: option.splits)

lemma helper_write_Raise:
  assumes "chdb_helper_write env bs s = Raise e t"
  shows "prefix (sent_data t) (sent_data s @ bs)"
proof -
  have a: "prefix (sent_data r) (sent_data s @ bs)" if "added DataChannel bs s r" for r
    using that by (auto simp: added_def channel_sent_def)
  from assms consider "write_all DataChannel bs s = Raise e t"
    | x r where "write_all DataChannel bs s = Return (Some x) r"
        "report_helper env ''error appending to chDB query'' r = (Raise e t :: (unit, backend) outcome)"
    by (auto simp: chdb_helper_write_def bindO_eq_Raise split: option.splits)
  then show ?thesis
  proof cases
    case 1
    with write_all_adds [of DataChannel bs s] a show ?thesis by (simp add: write_adds_def)
  next
    case 2
    from leavesD(2) [OF unsent.report_keeps [OF refl] 2(2), of DataChannel] have "sent_data t = sent_data r"
      by (simp add: channel_sent_def)
    with 2 write_all_adds [of DataChannel bs s] a show ?thesis by (simp add: write_adds_def)
  qed
qed

interpretation hw: byte_sink "chdb_helper_write env" sent_data sent_data "\<lambda>_. True" for env
  by unfold_locales (simp_all add: helper_write_Return helper_write_Raise)

text \<open>The channel keeps accepting: enough writes succeed and the others may be tried again.\<close>

definition retriable :: "write_event \<Rightarrow> bool" where
  "retriable a = (case a of Accept n \<Rightarrow> True | WriteErr e \<Rightarrow> e \<in> {EINTR, EAGAIN, EWOULDBLOCK})"

definition accepts :: "write_event list \<Rightarrow> nat" where
  "accepts es = length (filter (\<lambda>a. case a of Accept n \<Rightarrow> True | WriteErr e \<Rightarrow> False) es)"

lemma accepts_simps [simp]:
  "accepts [] = 0" "accepts (Accept n # es) = Suc (accepts es)" "accepts (WriteErr e # es) = accepts es"
  by (simp_all add: accepts_def)

lemma write_all_returns:
  assumes "intr s = []" "clean_stream UNIV (err_ev s)" "0 \<le> channel_fd ch s"
    "list_all retriable (channel_wr ch s)" "length bs \<le> accepts (channel_wr ch s)"
  shows "\<exists>t. write_all ch bs s = Return None t"
  using assms
proof (induction "channel_wr ch s" arbitrary: s bs)
  case Nil
  then show ?case by (simp add: write_all.simps)
next
  case (Cons a es)
  note wr = Cons.hyps(2) [symmetric]
  have ck: "check_for_interrupts s = Return () s" using Cons.prems(1) by (simp add: check_for_interrupts_def)
  have keep: "channel_fd ch (channel_accept ch es b s) = channel_fd ch s"
    "intr (channel_accept ch es b s) = intr s" "err_ev (channel_accept ch es b s) = err_ev s" for b
    by (cases ch; simp add: channel_fd_def channel_accept_def)+
  show ?case
  proof (cases "bs = []")
    case True
    then show ?thesis by (simp add: write_all.simps)
  next
    case False
    show ?thesis
    proof (cases a)
      case (Accept n)
      let ?k = "min (Suc n) (length bs)"
      have "\<exists>t. write_all ch (drop ?k bs) (channel_accept ch es (take ?k bs) s) = Return None t"
        by (rule Cons.hyps(1)) (use Cons.prems keep wr Accept in auto)
      with False ck Accept wr Cons.prems(3) show ?thesis
        by (subst write_all.simps) (simp add: channel_write_def)
    next
      case (WriteErr e)
      let ?s = "channel_accept ch es [] s"
      have e: "e \<in> {EINTR, EAGAIN, EWOULDBLOCK}" using Cons.prems(4) wr WriteErr by (simp add: retriable_def)
      obtain t where t: "drain_err ?s = Return () t" "clean_stream UNIV (err_ev t)"
        using drain_err_returns [of ?s] Cons.prems(2) keep by auto
      have f: "intr t = []" "channel_fd ch t = channel_fd ch s" "channel_wr ch t = es"
        using drain_err_frame [OF t(1)] keep Cons.prems(1) drain_err_channel_wr [OF t(1)]
        by (cases ch; simp add: same_but_err_def channel_fd_def)+
      have 1: "\<exists>r. write_all ch bs t = Return None r"
        by (rule Cons.hyps(1)) (use Cons.prems f t wr WriteErr in auto)
      have 2: "\<exists>r. write_all ch bs ?s = Return None r"
        by (rule Cons.hyps(1)) (use Cons.prems keep wr WriteErr in auto)
      from 1 2 e False ck WriteErr wr Cons.prems(3) t show ?thesis
        by (subst write_all.simps) (auto simp: channel_write_def wait_fd_def)
    qed
  qed
qed

text \<open>
  Blocks reach the helper in the order they are written, whole and once: after any
  sequence of writes the channel has carried exactly their concatenation, and when one of
  them raises it has carried a prefix of it, however the kernel split the bytes and however
  often a write was interrupted or would have blocked.
\<close>

theorem writes_in_order:
  "(each (chdb_helper_write env) bss s = Return u t \<longrightarrow> sent_data t = sent_data s @ concat bss)
   \<and> (each (chdb_helper_write env) bss s = Raise e r \<longrightarrow> prefix (sent_data r) (sent_data s @ concat bss))"
  by (auto dest: hw.each_Return [OF TrueI] hw.each_Raise [OF TrueI])

theorem writes_in_order_witness:
  "\<exists>t. each (chdb_helper_write ex_env) [''ab'', ''c''] (ex_backend\<lparr>hp := (new_helper [])\<lparr>h_data := 5, h_err := 4\<rparr>\<rparr>)
      = Return () t \<and> sent_data t = ''abc''"
proof -
  let ?s = "ex_backend\<lparr>hp := (new_helper [])\<lparr>h_data := 5, h_err := 4\<rparr>\<rparr>"
  obtain t where t: "each (chdb_helper_write ex_env) [''ab'', ''c''] ?s = Return () t"
    by (simp add: chdb_helper_write_def write_all.simps check_for_interrupts_def channel_write_def
        channel_fd_def channel_wr_def channel_accept_def ex_backend_def drain_err.simps err_room_def
        CHDB_HELPER_ERR_MAX_def keep_err_def new_helper_def wait_fd_def)
  with writes_in_order [of ex_env "[''ab'', ''c'']" ?s "()" t] show ?thesis by (auto simp: ex_backend_def)
qed

text \<open>
  Writing ends: with nothing to interrupt the backend, an open channel that accepts at
  least as many writes as there are bytes, and failures that are only interruptions and
  full buffers, the write returns and every byte has been sent. While the channel is full the
  backend drains the helper's error output, so the two cannot wait for each other.
\<close>

theorem write_completes:
  assumes "intr s = []" and "clean_stream UNIV (err_ev s)" and "0 \<le> h_data (hp s)"
    and "list_all retriable (data_wr s)" and "length bs \<le> accepts (data_wr s)"
  shows "\<exists>t. chdb_helper_write env bs s = Return () t \<and> sent_data t = sent_data s @ bs"
proof -
  obtain t where t: "write_all DataChannel bs s = Return None t"
    using write_all_returns [of s DataChannel bs] assms by (auto simp: channel_fd_def channel_wr_def)
  then have "chdb_helper_write env bs s = Return () t" by (simp add: chdb_helper_write_def)
  with helper_write_Return [OF this] show ?thesis by blast
qed

theorem write_completes_witness:
  "\<exists>t. chdb_helper_write ex_env ''ab'' (ex_backend\<lparr>hp := (new_helper [])\<lparr>h_data := 5, h_err := 4\<rparr>\<rparr>)
      = Return () t \<and> sent_data t = ''ab''"
  using write_completes [of "ex_backend\<lparr>hp := (new_helper [])\<lparr>h_data := 5, h_err := 4\<rparr>\<rparr>" "''ab''" ex_env]
  by (simp add: ex_backend_def retriable_def)

section \<open>The setup payload\<close>

lemma write_setup_Return:
  assumes "write_setup env payload s = Return u t"
  shows "sent_setup t = sent_setup s @ payload" "h_setup (hp t) = -1"
  using write_all_adds [of SetupChannel payload s] assms
  by (auto simp: write_setup_def bindO_eq_Return write_adds_def channel_sent_def report_helper_def
      close_setup_def split: option.splits if_splits)

text \<open>A write to the setup channel leaves the data channel alone.\<close>

lemma write_all_setup_data:
  "write_all ch bs s = Return r t \<Longrightarrow> ch = SetupChannel \<Longrightarrow> sent_data t = sent_data s"
proof (induction ch bs s rule: write_all.induct)
  case (1 ch bs s)
  show ?case
  proof (cases "bs = []")
    case True
    with "1.prems" show ?thesis by (simp add: write_all.simps)
  next
    case False
    with "1.prems" obtain u s1 where c: "check_for_interrupts s = Return u s1"
      by (subst (asm) write_all.simps) (auto split: outcome.splits)
    then have d1: "sent_data s1 = sent_data s" by (auto dest: check_for_interrupts_Return)
    from False c "1.prems" obtain w s2 where w: "channel_write ch bs s1 = Some (w, s2)"
      by (subst (asm) write_all.simps) (auto split: option.splits)
    with "1.prems"(2) d1 have d2: "sent_data s2 = sent_data s"
      by (auto simp: channel_write_def channel_accept_def split: if_splits option.splits write_result.splits)
    show ?thesis
    proof (cases w)
      case (Put n)
      with False c w "1.prems" have "write_all ch (drop n bs) s2 = Return r t"
        by (subst (asm) write_all.simps) simp
      from "1.IH"(1) [OF False c w refl Put this "1.prems"(2)] d2 show ?thesis by simp
    next
      case (PutErr e)
      note p = False c w PutErr "1.prems"
      show ?thesis
      proof (cases "e = EAGAIN \<or> e = EWOULDBLOCK")
        case True
        with p obtain v s3 where d: "drain_err s2 = Return v s3" "write_all ch bs (wait_fd (channel_fd ch s3) s3) = Return r t"
          by (subst (asm) write_all.simps) (auto split: outcome.splits)
        from "1.IH"(2) [OF False c w refl PutErr True d(1,2) "1.prems"(2)] drain_err_frame [OF d(1)] d2
        show ?thesis by (simp add: wait_fd_def same_but_err_def)
      next
        case no: False
        show ?thesis
        proof (cases "e = EINTR")
          case True
          with no p have "write_all ch bs s2 = Return r t" by (subst (asm) write_all.simps) simp
          from "1.IH"(3) [OF False c w refl PutErr no _ this "1.prems"(2)] True d2 show ?thesis by simp
        next
          case False
          with no p d2 show ?thesis by (subst (asm) write_all.simps) simp
        qed
      qed
    qed
  qed
qed

lemma start_Return_setup:
  assumes "chdb_helper_start env ctx query params s = Return u t"
  shows "\<exists>payload. build_setup (byte_order env) (session_timezone env) ctx query params = Inr payload
    \<and> sent_setup t = sent_setup s @ payload \<and> h_setup (hp t) = -1 \<and> sent_data t = sent_data s"
proof -
  obtain r0 payload r1 u1 r2 u2 r3 u3 where
      r: "sys_answer (s\<lparr>hp := new_helper query\<rparr>) = (None, r0)" "open_channels env r0 = Return u1 r1"
        "configure_channels env r1 = Return u2 r2" "fork_helper env (cmd ctx) r2 = Return u3 r3"
        "write_setup env payload (close_peers r3) = Return u t"
        "build_setup (byte_order env) (session_timezone env) ctx query params = Inr payload"
    using assms by (auto simp: chdb_helper_start_def bindO_eq_Return split: prod.splits option.splits sum.splits)
  have "before_fork (fds s) s r2"
    using open_channels_before_fork [OF before_fork_init [OF r(1)], of query env] sys_answer_sel(2) [OF r(1)]
      configure_channels_before_fork [of "fds s" s r1 env] open_channels_wired [OF r(2)] r(2,3) by simp
  then have k: "sent_setup (close_peers r3) = sent_setup s" "sent_data (close_peers r3) = sent_data s"
    using r(4) by (auto simp: before_fork_def same_outside_def close_peers_def fork_helper_def split: sum.splits)
  obtain x w where x: "write_all SetupChannel payload (close_peers r3) = Return x w"
    "(case x of None \<Rightarrow> Return () (close_setup w) | Some e \<Rightarrow>
       if e = EPIPE then report_helper env ''could not start chDB'' w
       else Raise (ereport errcode_for_socket_access
         (''chdb: could not send the query to chDB: '' @ strerror env e)) w) = Return u t"
    using r(5) unfolding write_setup_def bindO_eq_Return by blast
  then have "t = close_setup w" by (cases x) (auto simp: report_helper_def bindO_eq_Return split: if_splits)
  with write_all_setup_data [OF x(1) refl] k(2) have "sent_data t = sent_data s" by (simp add: close_setup_def)
  with k write_setup_Return [OF r(5)] r(6) show ?thesis by simp
qed

end
