(* ===== verification/Native_Send.thy ===== *)
theory Native_Send
  imports Helper_Streams Copy_Context
begin

text \<open>
  Postgres to chDB, the first half of \<open>src/native.c\<close>: the writer over a declared structure, the
  buffered sink in front of the helper's data channel, and the scan that cuts rows into Native
  blocks. The clickhouse-c and pg-clickhouse-c libraries are the parameter \<open>writer_lib\<close>: a type
  parser, the conversion of one datum to a cell, the size of the buffered rows, and the
  sequence of writes that encodes one block. A row of the scan is the list of its values,
  \<open>None\<close> for NULL.
\<close>

section \<open>The writer\<close>

record ('v, 'c) writer_lib =
  chc_type_parse :: "string \<Rightarrow> string + (string option \<times> string) list"
  pgch_raise :: "sqlstate \<Rightarrow> string \<Rightarrow> string \<Rightarrow> pg_error"
  pgch_append_datum :: "bool \<Rightarrow> string \<Rightarrow> nat \<Rightarrow> 'v option \<Rightarrow> pg_error + 'c"
  pgch_writer_bytes :: "'c list list \<Rightarrow> nat"
  chc_block_write :: "(string \<times> string) list \<Rightarrow> 'c list list \<Rightarrow> string list \<times> string option"

record 'c writer =
  w_cols :: "(string \<times> string) list"
  w_rows :: "'c list list"
  w_null_array_empty :: bool

text \<open>The fields of the parsed tuple, in order, refusing the first one without a name.\<close>

fun named_fields :: "nat \<Rightarrow> (string option \<times> string) list \<Rightarrow> pg_error + (string \<times> string) list" where
  "named_fields i [] = Inr []"
| "named_fields i ((None, ty) # fs) =
     Inl (ereport ERRCODE_INVALID_PARAMETER_VALUE
       (''chdb: structure column '' @ dec (i + 1) @ '' has no name''))"
| "named_fields i ((Some n, ty) # fs) =
     bindE (named_fields (i + 1) fs) (\<lambda>cols. Inr ((n, ty) # cols))"

definition writer_for :: "('v, 'c) writer_lib \<Rightarrow> string \<Rightarrow> nat \<Rightarrow> pg_error + 'c writer" where
  "writer_for lib structure nattrs =
     (case chc_type_parse lib (''Tuple('' @ structure @ '')'') of
        Inl msg \<Rightarrow> Inl (pgch_raise lib ERRCODE_INVALID_PARAMETER_VALUE ''structure: '' msg)
      | Inr fs \<Rightarrow>
          bindE (named_fields 0 fs) (\<lambda>cols.
          bindE (guardE (length cols = nattrs)
            (ereport ERRCODE_INVALID_PARAMETER_VALUE
              (''chdb: structure declares '' @ dec (length cols) @ '' columns, copy has '' @ dec nattrs))) (\<lambda>_.
          Inr \<lparr>w_cols = cols, w_rows = [], w_null_array_empty = False\<rparr>)))"

section \<open>The sink\<close>

definition CHDB_NATIVE_BLOCK_BYTES :: nat where "CHDB_NATIVE_BLOCK_BYTES = 8 * 1024 * 1024"
definition CHDB_NATIVE_SINK_BYTES :: nat where "CHDB_NATIVE_SINK_BYTES = 256 * 1024"
definition CHDB_NATIVE_SINK_DIRECT :: nat where "CHDB_NATIVE_SINK_DIRECT = 16 * 1024"

text \<open>\<open>nativeSink\<close>: the helper and the filled part of the buffer.\<close>

record nativeSink =
  sk_helper :: backend
  sk_buf :: string

definition sink_for :: "backend \<Rightarrow> nativeSink" where
  "sink_for h = \<lparr>sk_helper = h, sk_buf = []\<rparr>"

text \<open>An operation of the helper, seen from the sink.\<close>

definition on_helper :: "('a, backend) outcome \<Rightarrow> nativeSink \<Rightarrow> ('a, nativeSink) outcome" where
  "on_helper m s =
     (case m of Return x h \<Rightarrow> Return x (s\<lparr>sk_helper := h\<rparr>) | Raise e h \<Rightarrow> Raise e (s\<lparr>sk_helper := h\<rparr>)
      | Waiting \<Rightarrow> Waiting)"

definition sink_flush :: "helper_env \<Rightarrow> nativeSink \<Rightarrow> (unit, nativeSink) outcome" where
  "sink_flush env s =
     (if sk_buf s = [] then Return () s
      else bindO (on_helper (chdb_helper_write env (sk_buf s) (sk_helper s)) s)
        (\<lambda>_ s. Return () (s\<lparr>sk_buf := []\<rparr>)))"

definition sink_write :: "helper_env \<Rightarrow> string \<Rightarrow> nativeSink \<Rightarrow> (unit, nativeSink) outcome" where
  "sink_write env p s =
     (if length p \<ge> CHDB_NATIVE_SINK_DIRECT then
        bindO (sink_flush env s) (\<lambda>_ s. on_helper (chdb_helper_write env p (sk_helper s)) s)
      else
        bindO (if length (sk_buf s) + length p > CHDB_NATIVE_SINK_BYTES then sink_flush env s else Return () s)
          (\<lambda>_ s. Return () (s\<lparr>sk_buf := sk_buf s @ p\<rparr>)))"

section \<open>Blocks\<close>

record 'c sender =
  sd_writer :: "'c writer"
  sd_sink :: nativeSink

definition on_sink :: "('a, nativeSink) outcome \<Rightarrow> 'c sender \<Rightarrow> ('a, 'c sender) outcome" where
  "on_sink m s =
     (case m of Return x k \<Rightarrow> Return x (s\<lparr>sd_sink := k\<rparr>) | Raise e k \<Rightarrow> Raise e (s\<lparr>sd_sink := k\<rparr>)
      | Waiting \<Rightarrow> Waiting)"

text \<open>
  \<open>send_block\<close>: the encoder calls the sink for each piece of the block, then either fails or is
  done; the writer is emptied and the sink flushed.
\<close>

definition send_block :: "helper_env \<Rightarrow> ('v, 'c) writer_lib \<Rightarrow> 'c sender \<Rightarrow> (unit, 'c sender) outcome" where
  "send_block env lib s =
     (case chc_block_write lib (w_cols (sd_writer s)) (w_rows (sd_writer s)) of
        (pieces, failed) \<Rightarrow>
          bindO (on_sink (each (sink_write env) pieces (sd_sink s)) s) (\<lambda>_ s.
            case failed of
              Some msg \<Rightarrow> Raise (pgch_raise lib ERRCODE_EXTERNAL_ROUTINE_EXCEPTION ''block write: '' msg) s
            | None \<Rightarrow>
                (let s = s\<lparr>sd_writer := (sd_writer s)\<lparr>w_rows := []\<rparr>\<rparr>
                 in on_sink (sink_flush env (sd_sink s)) s)))"

text \<open>\<open>append_slot\<close>: one cell per attribute number, which counts from 1, in the order given.\<close>

fun append_slot ::
  "('v, 'c) writer_lib \<Rightarrow> 'c writer \<Rightarrow> attribute list \<Rightarrow> 'v option list \<Rightarrow> nat \<Rightarrow> nat list
     \<Rightarrow> pg_error + 'c list"
where
  "append_slot lib w desc slot col [] = Inr []"
| "append_slot lib w desc slot col (attnum # attnums) =
     (let i = attnum - 1
      in bindE (pgch_append_datum lib (w_null_array_empty w) (snd (w_cols w ! col))
                  (atttypid (desc ! i)) (slot ! i)) (\<lambda>cell.
         bindE (append_slot lib w desc slot (col + 1) attnums) (\<lambda>cells. Inr (cell # cells))))"

definition put_row :: "'c list \<Rightarrow> 'c sender \<Rightarrow> 'c sender" where
  "put_row cells s = s\<lparr>sd_writer := (sd_writer s)\<lparr>w_rows := w_rows (sd_writer s) @ [cells]\<rparr>\<rparr>"

text \<open>The loop of \<open>chdb_copy_send\<close> over the slots of the scan.\<close>

fun send_rows ::
  "helper_env \<Rightarrow> ('v, 'c) writer_lib \<Rightarrow> attribute list \<Rightarrow> nat list \<Rightarrow> 'v option list list \<Rightarrow> nat
     \<Rightarrow> 'c sender \<Rightarrow> (nat, 'c sender) outcome"
where
  "send_rows env lib desc attnums [] rows s = Return rows s"
| "send_rows env lib desc attnums (slot # slots) rows s =
     bindO (on_sink (on_helper (check_for_interrupts (sk_helper (sd_sink s))) (sd_sink s)) s) (\<lambda>_ s.
       case append_slot lib (sd_writer s) desc slot 0 attnums of
         Inl e \<Rightarrow> Raise e s
       | Inr cells \<Rightarrow>
           (let s = put_row cells s
            in bindO (if pgch_writer_bytes lib (w_rows (sd_writer s)) \<ge> CHDB_NATIVE_BLOCK_BYTES
                      then send_block env lib s else Return () s)
                 (\<lambda>_ s. send_rows env lib desc attnums slots (rows + 1) s)))"

definition chdb_copy_send ::
  "helper_env \<Rightarrow> ('v, 'c) writer_lib \<Rightarrow> relation \<Rightarrow> 'v option list list \<Rightarrow> string \<Rightarrow> nat list \<Rightarrow> backend
     \<Rightarrow> (nat, backend) outcome"
where
  "chdb_copy_send env lib rel scan structure attnums h =
     (case writer_for lib structure (length attnums) of
        Inl e \<Rightarrow> Raise e h
      | Inr w \<Rightarrow>
          (case bindO (send_rows env lib (rd_att rel) attnums scan 0
                   \<lparr>sd_writer = w\<lparr>w_null_array_empty := True\<rparr>, sd_sink = sink_for h\<rparr>)
                 (\<lambda>rows s. if w_rows (sd_writer s) = [] then Return rows s
                   else bindO (send_block env lib s) (\<lambda>_ s. Return rows s)) of
             Return rows s \<Rightarrow> Return rows (sk_helper (sd_sink s))
           | Raise e s \<Rightarrow> Raise e (sk_helper (sd_sink s))
           | Waiting \<Rightarrow> Waiting))"

section \<open>The writer's columns\<close>

lemma named_fields_Inr:
  "named_fields i fs = Inr cols \<longleftrightarrow> fs = map (\<lambda>(n, ty). (Some n, ty)) cols"
  by (induction i fs arbitrary: cols rule: named_fields.induct) (auto simp: error_simps)

lemma named_fields_Inl:
  "named_fields i fs = Inl e \<Longrightarrow> \<exists>k < length fs. fst (fs ! k) = None
     \<and> e = ereport ERRCODE_INVALID_PARAMETER_VALUE (''chdb: structure column '' @ dec (i + k + 1) @ '' has no name'')"
proof (induction i fs rule: named_fields.induct)
  case (3 i n ty fs)
  then obtain k where "k < length fs" "fst (fs ! k) = None"
    "e = ereport ERRCODE_INVALID_PARAMETER_VALUE (''chdb: structure column '' @ dec (i + 1 + k + 1) @ '' has no name'')"
    by (auto simp: error_simps)
  then show ?case by (intro exI [of _ "Suc k"]) simp
qed (auto intro: exI [of _ 0])

lemma writer_for_Inr:
  "writer_for lib structure n = Inr w \<longleftrightarrow>
     (\<exists>cols. chc_type_parse lib (''Tuple('' @ structure @ '')'') = Inr (map (\<lambda>(c, ty). (Some c, ty)) cols)
        \<and> length cols = n \<and> w = \<lparr>w_cols = cols, w_rows = [], w_null_array_empty = False\<rparr>)"
  by (auto simp: writer_for_def error_simps named_fields_Inr split: sum.split)

text \<open>
  A structure is accepted for a copy of \<open>n\<close> columns exactly when it parses as the fields of a
  tuple, every field has a name, and there are \<open>n\<close> of them; the writer then carries the declared
  names and types in their order. So a structure that would shift the columns, or that chDB could
  not match by name, never reaches the helper.
\<close>

theorem writer_for_accepts:
  "writer_for lib structure n = Inr w \<longleftrightarrow>
     (\<exists>cols. chc_type_parse lib (''Tuple('' @ structure @ '')'') = Inr (map (\<lambda>(c, ty). (Some c, ty)) cols)
        \<and> length cols = n \<and> w = \<lparr>w_cols = cols, w_rows = [], w_null_array_empty = False\<rparr>)"
  by (rule writer_for_Inr)

section \<open>The sink is an ordered byte stream\<close>

definition sink_out :: "nativeSink \<Rightarrow> string" where
  "sink_out s = sent_data (sk_helper s) @ sk_buf s"

definition sink_sent :: "nativeSink \<Rightarrow> string" where
  "sink_sent s = sent_data (sk_helper s)"

definition sink_ok :: "nativeSink \<Rightarrow> bool" where
  "sink_ok s \<longleftrightarrow> length (sk_buf s) \<le> CHDB_NATIVE_SINK_BYTES"

lemma on_helper_simps [simp]:
  "on_helper (Return x h) s = Return x (s\<lparr>sk_helper := h\<rparr>)" "on_helper (Raise e h) s = Raise e (s\<lparr>sk_helper := h\<rparr>)"
  "on_helper Waiting s = Waiting"
  by (simp_all add: on_helper_def)

lemma on_helper_eq:
  "on_helper m s = Return x t \<longleftrightarrow> (\<exists>h. m = Return x h \<and> t = s\<lparr>sk_helper := h\<rparr>)"
  "on_helper m s = Raise e t \<longleftrightarrow> (\<exists>h. m = Raise e h \<and> t = s\<lparr>sk_helper := h\<rparr>)"
  by (cases m; auto)+

lemma sink_flush_Return:
  "sink_flush env s = Return u t \<Longrightarrow> sk_buf t = [] \<and> sink_out t = sink_out s"
  by (auto simp: sink_flush_def sink_out_def bindO_eq_Return on_helper_eq split: if_splits
      dest: helper_write_Return)

lemma sink_flush_Raise:
  "sink_flush env s = Raise e t \<Longrightarrow> prefix (sink_sent t) (sink_out s)"
  by (auto simp: sink_flush_def sink_out_def sink_sent_def bindO_eq_Raise on_helper_eq split: if_splits
      dest: helper_write_Raise)

interpretation sink: byte_sink "sink_write env" sink_out sink_sent sink_ok for env
proof
  fix s t p u
  assume ok: "sink_ok s" and w: "sink_write env p s = Return u t"
  show "sink_out t = sink_out s @ p \<and> sink_ok t"
  proof (cases "length p \<ge> CHDB_NATIVE_SINK_DIRECT")
    case True
    then obtain v r h where f: "sink_flush env s = Return v r" "chdb_helper_write env p (sk_helper r) = Return u h"
        "t = r\<lparr>sk_helper := h\<rparr>"
      using w by (auto simp: sink_write_def bindO_eq_Return on_helper_eq)
    with sink_flush_Return [OF f(1)] helper_write_Return [OF f(2)] show ?thesis
      by (auto simp: sink_out_def sink_ok_def)
  next
    case False
    then obtain v r where f: "(if length (sk_buf s) + length p > CHDB_NATIVE_SINK_BYTES
        then sink_flush env s else Return () s) = Return v r" "t = r\<lparr>sk_buf := sk_buf r @ p\<rparr>"
      using w by (auto simp: sink_write_def bindO_eq_Return)
    with False ok sink_flush_Return [of env s v r] show ?thesis
      by (auto simp: sink_out_def sink_ok_def CHDB_NATIVE_SINK_BYTES_def CHDB_NATIVE_SINK_DIRECT_def split: if_splits)
  qed
next
  fix s t p e
  assume w: "sink_write env p s = Raise e t"
  have flush: "prefix (sink_sent t) (sink_out s @ p)" if "sink_flush env s = Raise e t"
    using sink_flush_Raise [OF that] by (rule prefix_prefix)
  show "prefix (sink_sent t) (sink_out s @ p)"
  proof (cases "length p \<ge> CHDB_NATIVE_SINK_DIRECT")
    case True
    then consider "sink_flush env s = Raise e t"
      | v r h where "sink_flush env s = Return v r" "chdb_helper_write env p (sk_helper r) = Raise e h"
        "t = r\<lparr>sk_helper := h\<rparr>"
      using w by (auto simp: sink_write_def bindO_eq_Raise on_helper_eq)
    then show ?thesis
    proof cases
      case 2
      with sink_flush_Return [OF 2(1)] helper_write_Raise [OF 2(2)] show ?thesis
        by (auto simp: sink_out_def sink_sent_def)
    qed (rule flush)
  next
    case False
    with w flush show ?thesis by (auto simp: sink_write_def bindO_eq_Raise split: if_splits)
  qed
qed

text \<open>
  Buffering does not change the stream: however small writes were collected and large ones
  passed straight through, after a flush the helper's channel has carried exactly the
  concatenation of the writes, in order, and the buffer never holds more than its 256 KiB.
\<close>

theorem sink_order:
  assumes "each (sink_write env) pieces (sink_for h) = Return u s"
  shows "length (sk_buf s) \<le> 256 * 1024
    \<and> (sink_flush env s = Return v t \<longrightarrow> sent_data (sk_helper t) = sent_data h @ concat pieces \<and> sk_buf t = [])
    \<and> (sink_flush env s = Raise e r \<longrightarrow> prefix (sent_data (sk_helper r)) (sent_data h @ concat pieces))"
proof -
  have "sink_ok (sink_for h)" by (simp add: sink_ok_def sink_for_def)
  from sink.each_Return [OF this assms] have o: "sink_out s = sent_data h @ concat pieces" "sink_ok s"
    by (simp_all add: sink_out_def sink_for_def)
  with sink_flush_Return [of env s v t] sink_flush_Raise [of env s e r] show ?thesis
    by (auto simp: sink_ok_def CHDB_NATIVE_SINK_BYTES_def sink_out_def sink_sent_def)
qed

theorem sink_order_witness:
  "\<exists>s t. each (sink_write ex_env) [''a'', ''b''] (sink_for (ex_backend\<lparr>hp := (new_helper [])\<lparr>h_data := 5\<rparr>\<rparr>)) = Return () s
     \<and> sink_flush ex_env s = Return () t \<and> sent_data (sk_helper t) = ''ab''"
proof -
  let ?h = "ex_backend\<lparr>hp := (new_helper [])\<lparr>h_data := 5\<rparr>\<rparr>"
  let ?s = "\<lparr>sk_helper = ?h, sk_buf = ''ab''\<rparr>"
  have s: "each (sink_write ex_env) [''a'', ''b''] (sink_for ?h) = Return () ?s"
    by (simp add: sink_write_def sink_for_def CHDB_NATIVE_SINK_DIRECT_def CHDB_NATIVE_SINK_BYTES_def)
  obtain k where "chdb_helper_write ex_env ''ab'' ?h = Return () k"
    by (simp add: chdb_helper_write_def write_all_once channel_fd_def channel_wr_def ex_backend_def)
  then obtain t where t: "sink_flush ex_env ?s = Return () t" by (simp add: sink_flush_def)
  from sink_order [OF s, where t = t and v = "()"] t have "sent_data (sk_helper t) = sent_data ?h @ ''ab''" by simp
  then have "sent_data (sk_helper t) = ''ab''" by (simp add: ex_backend_def)
  with s t show ?thesis by blast
qed

section \<open>Rows and blocks\<close>

text \<open>The bytes of one block.\<close>

definition block_bytes :: "('v, 'c) writer_lib \<Rightarrow> (string \<times> string) list \<Rightarrow> 'c list list \<Rightarrow> string" where
  "block_bytes lib cols rows = concat (fst (chc_block_write lib cols rows))"

text \<open>How the scan is cut: a block ends with the row that brings it to the limit.\<close>

fun cut_blocks :: "('v, 'c) writer_lib \<Rightarrow> 'c list list \<Rightarrow> 'c list list \<Rightarrow> 'c list list list" where
  "cut_blocks lib pending [] = (if pending = [] then [] else [pending])"
| "cut_blocks lib pending (r # rs) =
     (if pgch_writer_bytes lib (pending @ [r]) \<ge> CHDB_NATIVE_BLOCK_BYTES
      then (pending @ [r]) # cut_blocks lib [] rs
      else cut_blocks lib (pending @ [r]) rs)"

lemma concat_cut_blocks: "concat (cut_blocks lib pending rs) = pending @ rs"
  by (induction lib pending rs rule: cut_blocks.induct) auto

lemma cut_blocks_nonempty: "b \<in> set (cut_blocks lib pending rs) \<Longrightarrow> b \<noteq> []"
  by (induction lib pending rs rule: cut_blocks.induct) (auto split: if_splits)

lemma cut_blocks_bounds:
  "pending = [] \<or> pgch_writer_bytes lib pending < CHDB_NATIVE_BLOCK_BYTES \<Longrightarrow> b \<in> set (cut_blocks lib pending rs)
     \<Longrightarrow> pgch_writer_bytes lib b < CHDB_NATIVE_BLOCK_BYTES \<or> butlast b = []
       \<or> pgch_writer_bytes lib (butlast b) < CHDB_NATIVE_BLOCK_BYTES"
  by (induction lib pending rs rule: cut_blocks.induct) (auto split: if_splits)

lemma cut_blocks_full:
  "b \<in> set (butlast (cut_blocks lib pending rs)) \<Longrightarrow> pgch_writer_bytes lib b \<ge> CHDB_NATIVE_BLOCK_BYTES"
  by (induction lib pending rs rule: cut_blocks.induct) (auto split: if_splits)

text \<open>The cells of every slot.\<close>

definition slot_cells ::
  "('v, 'c) writer_lib \<Rightarrow> (string \<times> string) list \<Rightarrow> attribute list \<Rightarrow> nat list \<Rightarrow> 'v option list \<Rightarrow> 'c list \<Rightarrow> bool"
where
  "slot_cells lib cols desc attnums slot cells \<longleftrightarrow>
     list_all2 (\<lambda>(ty, attnum) cell. pgch_append_datum lib True ty (atttypid (desc ! (attnum - 1)))
         (slot ! (attnum - 1)) = Inr cell)
       (zip (map snd cols) attnums) cells"

lemma append_slot_cells:
  assumes "append_slot lib w desc slot col attnums = Inr cells" "w_null_array_empty w"
    "length (w_cols w) = col + length attnums"
  shows "slot_cells lib (drop col (w_cols w)) desc attnums slot cells"
  using assms
proof (induction lib w desc slot col attnums arbitrary: cells rule: append_slot.induct)
  case (2 lib w desc slot col attnum attnums)
  then have "drop col (w_cols w) = w_cols w ! col # drop (Suc col) (w_cols w)"
    by (simp add: Cons_nth_drop_Suc)
  with 2 show ?case by (auto simp: slot_cells_def error_simps Let_def)
qed (simp add: slot_cells_def)

lemma on_sink_eq:
  "on_sink m s = Return x t \<longleftrightarrow> (\<exists>k. m = Return x k \<and> t = s\<lparr>sd_sink := k\<rparr>)"
  by (cases m) (auto simp: on_sink_def)

text \<open>Between rows the sink is empty, and everything before is with the helper.\<close>

definition at_row :: "'c sender \<Rightarrow> (string \<times> string) list \<Rightarrow> 'c list list \<Rightarrow> string \<Rightarrow> bool" where
  "at_row s cols pending sent \<longleftrightarrow> sd_writer s = \<lparr>w_cols = cols, w_rows = pending, w_null_array_empty = True\<rparr>
     \<and> sk_buf (sd_sink s) = [] \<and> sent_data (sk_helper (sd_sink s)) = sent"

lemma send_block_Return:
  assumes "send_block env lib s = Return u t" "at_row s cols pending sent"
  shows "at_row t cols [] (sent @ block_bytes lib cols pending)"
proof -
  obtain pieces failed where p: "chc_block_write lib cols pending = (pieces, failed)" by fastforce
  obtain v k where e: "each (sink_write env) pieces (sd_sink s) = Return v k" and f: "failed = None"
    and g: "on_sink (sink_flush env k) (s\<lparr>sd_sink := k, sd_writer := (sd_writer s)\<lparr>w_rows := []\<rparr>\<rparr>) = Return u t"
    using assms p by (auto simp: send_block_def at_row_def bindO_eq_Return on_sink_eq Let_def split: option.splits)
  then obtain k' where k': "sink_flush env k = Return u k'"
    "t = s\<lparr>sd_sink := k', sd_writer := (sd_writer s)\<lparr>w_rows := []\<rparr>\<rparr>" by (auto simp: on_sink_eq)
  have "sink_ok (sd_sink s)" using assms(2) by (simp add: sink_ok_def at_row_def)
  from sink.each_Return [OF this e] have "sink_out k = sent @ concat pieces"
    using assms(2) by (simp add: sink_out_def at_row_def)
  with sink_flush_Return [OF k'(1)] have "sk_buf k' = []" "sent_data (sk_helper k') = sent @ concat pieces"
    by (auto simp: sink_out_def)
  with assms(2) k'(2) p show ?thesis by (simp add: at_row_def block_bytes_def)
qed

lemma send_rows_Return:
  assumes "send_rows env lib desc attnums slots n s = Return m t" "at_row s cols pending sent"
    "length cols = length attnums"
  shows "\<exists>cells left blocks. m = n + length slots \<and> list_all2 (slot_cells lib cols desc attnums) slots cells
    \<and> at_row t cols left (sent @ concat (map (block_bytes lib cols) blocks))
    \<and> cut_blocks lib pending cells = blocks @ (if left = [] then [] else [left])"
  using assms
proof (induction slots arbitrary: n s pending sent)
  case Nil
  then show ?case by (intro exI [of _ "[]"] exI [of _ pending] exI [of _ "[]"]) auto
next
  case (Cons slot slots)
  let ?full = "\<lambda>rs. pgch_writer_bytes lib rs \<ge> CHDB_NATIVE_BLOCK_BYTES"
  let ?next = "\<lambda>cells r. bindO (if ?full (w_rows (sd_writer (put_row cells r))) then send_block env lib (put_row cells r)
      else Return () (put_row cells r)) (\<lambda>_ s. send_rows env lib desc attnums slots (n + 1) s)"
  obtain u r where
      c: "on_sink (on_helper (check_for_interrupts (sk_helper (sd_sink s))) (sd_sink s)) s = Return u r"
    and k: "(case append_slot lib (sd_writer r) desc slot 0 attnums of Inl e \<Rightarrow> Raise e r
        | Inr cells \<Rightarrow> ?next cells r) = Return m t"
    using Cons.prems(1) unfolding send_rows.simps Let_def bindO_eq_Return by blast
  then obtain cells where a: "append_slot lib (sd_writer r) desc slot 0 attnums = Inr cells"
    and k': "?next cells r = Return m t" by (auto split: sum.splits)
  then obtain r' where
      b: "(if ?full (w_rows (sd_writer (put_row cells r))) then send_block env lib (put_row cells r)
        else Return () (put_row cells r)) = Return () r'"
    and rest: "send_rows env lib desc attnums slots (n + 1) r' = Return m t"
    unfolding bindO_eq_Return by auto
  have r: "at_row r cols pending sent"
    using c Cons.prems(2) by (auto simp: on_sink_eq on_helper_eq at_row_def dest: check_for_interrupts_Return)
  then have p: "at_row (put_row cells r) cols (pending @ [cells]) sent" by (simp add: at_row_def put_row_def)
  have sc: "slot_cells lib cols desc attnums slot cells"
    using append_slot_cells [OF a] r Cons.prems(3) by (simp add: at_row_def)
  have w: "w_rows (sd_writer (put_row cells r)) = pending @ [cells]" using p by (simp add: at_row_def)
  show ?case
  proof (cases "?full (pending @ [cells])")
    case True
    with b w have "at_row r' cols [] (sent @ block_bytes lib cols (pending @ [cells]))"
      by (auto intro: send_block_Return [OF _ p])
    from Cons.IH [OF rest this Cons.prems(3)] obtain cs left blocks where
      "m = n + 1 + length slots" "list_all2 (slot_cells lib cols desc attnums) slots cs"
      "at_row t cols left (sent @ concat (map (block_bytes lib cols) ((pending @ [cells]) # blocks)))"
      "cut_blocks lib [] cs = blocks @ (if left = [] then [] else [left])" by auto
    with sc True show ?thesis
      by (intro exI [of _ "cells # cs"] exI [of _ left] exI [of _ "(pending @ [cells]) # blocks"]) simp
  next
    case False
    with b w p have "at_row r' cols (pending @ [cells]) sent" by auto
    from Cons.IH [OF rest this Cons.prems(3)] obtain cs left blocks where
      "m = n + 1 + length slots" "list_all2 (slot_cells lib cols desc attnums) slots cs"
      "at_row t cols left (sent @ concat (map (block_bytes lib cols) blocks))"
      "cut_blocks lib (pending @ [cells]) cs = blocks @ (if left = [] then [] else [left])" by auto
    with sc False show ?thesis
      by (intro exI [of _ "cells # cs"] exI [of _ left] exI [of _ blocks]) simp
  qed
qed

lemma copy_send_refines:
  assumes "chdb_copy_send env lib rel scan structure attnums h = Return n t"
  obtains w cells where "writer_for lib structure (length attnums) = Inr w" "n = length scan"
    "list_all2 (slot_cells lib (w_cols w) (rd_att rel) attnums) scan cells"
    "sent_data t = sent_data h @ concat (map (block_bytes lib (w_cols w)) (cut_blocks lib [] cells))"
proof -
  obtain w where w: "writer_for lib structure (length attnums) = Inr w"
    using assms by (auto simp: chdb_copy_send_def split: sum.splits)
  then obtain cols where cols: "w = \<lparr>w_cols = cols, w_rows = [], w_null_array_empty = False\<rparr>" "length cols = length attnums"
    by (auto simp: writer_for_Inr)
  let ?s = "\<lparr>sd_writer = w\<lparr>w_null_array_empty := True\<rparr>, sd_sink = sink_for h\<rparr>"
  obtain s s' where s: "send_rows env lib (rd_att rel) attnums scan 0 ?s = Return n s"
    "(if w_rows (sd_writer s) = [] then Return n s else bindO (send_block env lib s) (\<lambda>_. Return n)) = Return n s'"
    "t = sk_helper (sd_sink s')"
    using assms w by (auto simp: chdb_copy_send_def bindO_eq_Return split: outcome.splits if_splits)
  have "at_row ?s cols [] (sent_data h)" by (simp add: at_row_def cols sink_for_def)
  from send_rows_Return [OF s(1) this cols(2)] obtain cells left blocks where
    c: "n = length scan" "list_all2 (slot_cells lib cols (rd_att rel) attnums) scan cells"
      "at_row s cols left (sent_data h @ concat (map (block_bytes lib cols) blocks))"
      "cut_blocks lib [] cells = blocks @ (if left = [] then [] else [left])" by auto
  have "sent_data t = sent_data h @ concat (map (block_bytes lib cols) (cut_blocks lib [] cells))"
  proof (cases "left = []")
    case True
    with s(2,3) c(3,4) show ?thesis by (auto simp: at_row_def)
  next
    case False
    then obtain u where "send_block env lib s = Return u s'"
      using s(2) c(3) by (auto simp: at_row_def bindO_eq_Return)
    from send_block_Return [OF this c(3)] s(3) c(4) False show ?thesis by (simp add: at_row_def)
  qed
  with that [OF w c(1)] c(2) cols(1) show thesis by simp
qed

text \<open>
  C25. A COPY TO that returns has sent the relation: the count is the number of rows of the scan,
  and the channel has carried the encoded blocks of their cells, where the blocks are a cut of the
  rows in order into non-empty pieces. Every block but the last has reached the 8 MiB limit, and no
  block had reached it before its last row.
\<close>

theorem copy_send_correct:
  assumes "chdb_copy_send env lib rel scan structure attnums h = Return n t"
  shows "n = length scan \<and> (\<exists>w cells blocks. writer_for lib structure (length attnums) = Inr w
    \<and> list_all2 (slot_cells lib (w_cols w) (rd_att rel) attnums) scan cells \<and> concat blocks = cells
    \<and> sent_data t = sent_data h @ concat (map (block_bytes lib (w_cols w)) blocks)
    \<and> (\<forall>b \<in> set blocks. b \<noteq> [] \<and> (pgch_writer_bytes lib b < 8 * 1024 * 1024 \<or> butlast b = []
        \<or> pgch_writer_bytes lib (butlast b) < 8 * 1024 * 1024))
    \<and> (\<forall>b \<in> set (butlast blocks). pgch_writer_bytes lib b \<ge> 8 * 1024 * 1024))"
proof -
  obtain w cells where c: "writer_for lib structure (length attnums) = Inr w" "n = length scan"
    "list_all2 (slot_cells lib (w_cols w) (rd_att rel) attnums) scan cells"
    "sent_data t = sent_data h @ concat (map (block_bytes lib (w_cols w)) (cut_blocks lib [] cells))"
    by (rule copy_send_refines [OF assms])
  have "\<forall>b \<in> set (cut_blocks lib [] cells). b \<noteq> [] \<and> (pgch_writer_bytes lib b < 8 * 1024 * 1024 \<or> butlast b = []
      \<or> pgch_writer_bytes lib (butlast b) < 8 * 1024 * 1024)"
    using cut_blocks_nonempty cut_blocks_bounds [of "[]" lib _ cells] by (fastforce simp: CHDB_NATIVE_BLOCK_BYTES_def)
  moreover have "\<forall>b \<in> set (butlast (cut_blocks lib [] cells)). pgch_writer_bytes lib b \<ge> 8 * 1024 * 1024"
    using cut_blocks_full [of _ lib "[]" cells] by (simp add: CHDB_NATIVE_BLOCK_BYTES_def)
  moreover have "concat (cut_blocks lib [] cells) = cells" by (simp add: concat_cut_blocks)
  ultimately show ?thesis using c by blast
qed

definition ex_writer :: "(string, string) writer_lib" where
  "ex_writer = \<lparr>chc_type_parse = (\<lambda>_. Inr [(Some ''a'', ''String'')]), pgch_raise = (\<lambda>c p m. ereport c (p @ m)),
     pgch_append_datum = (\<lambda>_ _ _ v. Inr (case v of None \<Rightarrow> ''0'' | Some s \<Rightarrow> s)),
     pgch_writer_bytes = (\<lambda>rows. length (concat (concat rows))),
     chc_block_write = (\<lambda>cols rows. (map concat rows, None))\<rparr>"

definition ex_rel :: relation where
  "ex_rel = \<lparr>relname = ''t'', relid = 1, rd_relkind = RELKIND_RELATION,
     rd_att = [\<lparr>attname = ''a'', atttypid = 25, atttypmod = -1, attnotnull = False, attisdropped = False, attgenerated = False\<rparr>]\<rparr>"

theorem copy_send_correct_witness:
  "\<exists>t. chdb_copy_send ex_env ex_writer ex_rel [[Some ''x''], [None]] ''a String'' [1]
     (ex_backend\<lparr>hp := (new_helper [])\<lparr>h_data := 5\<rparr>\<rparr>) = Return 2 t
     \<and> (\<exists>blocks. concat blocks = [[''x''], [''0'']] \<and> sent_data t = concat (map (block_bytes ex_writer [(''a'', ''String'')]) blocks))"
proof -
  let ?h = "ex_backend\<lparr>hp := (new_helper [])\<lparr>h_data := 5\<rparr>\<rparr>"
  obtain k where k: "chdb_helper_write ex_env ''x0'' ?h = Return () k"
    by (simp add: chdb_helper_write_def write_all_once channel_fd_def channel_wr_def ex_backend_def)
  have i: "check_for_interrupts ?h = Return () ?h" by (simp add: check_for_interrupts_def ex_backend_def)
  have w: "writer_for ex_writer ''a String'' 1 = Inr \<lparr>w_cols = [(''a'', ''String'')], w_rows = [], w_null_array_empty = False\<rparr>"
    by (simp add: writer_for_def ex_writer_def)
  have t: "chdb_copy_send ex_env ex_writer ex_rel [[Some ''x''], [None]] ''a String'' [1] ?h = Return 2 k"
    using k i w by (simp add: chdb_copy_send_def ex_writer_def ex_rel_def sink_for_def on_sink_def put_row_def
        Let_def send_block_def sink_write_def sink_flush_def CHDB_NATIVE_BLOCK_BYTES_def
        CHDB_NATIVE_SINK_DIRECT_def CHDB_NATIVE_SINK_BYTES_def)
  obtain cells blocks where c: "list_all2 (slot_cells ex_writer [(''a'', ''String'')] (rd_att ex_rel) [1]) [[Some ''x''], [None]] cells"
    "concat blocks = cells" "sent_data k = sent_data ?h @ concat (map (block_bytes ex_writer [(''a'', ''String'')]) blocks)"
    using copy_send_correct [OF t] w by auto
  have "cells = [[''x''], [''0'']]"
    using c(1) by (auto simp: slot_cells_def ex_writer_def list_all2_Cons1)
  moreover have "sent_data ?h = []" by (simp add: ex_backend_def)
  ultimately show ?thesis using t c(2,3) by auto
qed

end
