(* ===== verification/Native_Receive.thy ===== *)
theory Native_Receive
  imports Posix_Channel Copy_Context
begin

text \<open>
  chDB to Postgres, the second half of \<open>src/native.c\<close>: the block source over the helper's output,
  the defaults of the columns a copy leaves out, the multi-insert buffer, the insert loop of
  \<open>chdb_copy_receive\<close>, the reading of a DESCRIBE and the materialised rows of \<open>chdb_query\<close>.
  PostgreSQL's executor is the parameter \<open>executor\<close> and the pg-clickhouse-c reader the parameter
  \<open>native_reader\<close>: what its calls deliver. A tuple is the list of its attributes' values,
  \<open>None\<close> for NULL. What the loop does to tables and triggers is a log of effects, in order.
\<close>

type_synonym 'v tuple = "'v option list"

section \<open>The block source\<close>

text \<open>What \<open>chc_block_read\<close> gives: a block, the end of the stream (a NULL block), or an error text.\<close>

datatype 'b block_event = Block 'b | StreamEnd | BadBlock string

record 'b nativeSource =
  src_in :: "'b block_event list"
  src_error :: "string option"

text \<open>\<open>source_for\<close>: \<open>in_error\<close> is what \<open>chc_in_init\<close> fails with, if it fails.\<close>

definition source_for ::
  "(sqlstate \<Rightarrow> string \<Rightarrow> string \<Rightarrow> pg_error) \<Rightarrow> string option \<Rightarrow> 'b block_event list \<Rightarrow> pg_error + 'b nativeSource"
where
  "source_for raise_with in_error es =
     (case in_error of
        Some msg \<Rightarrow> Inl (raise_with ERRCODE_EXTERNAL_ROUTINE_EXCEPTION ''reader init: '' msg)
      | None \<Rightarrow> Inr \<lparr>src_in = es, src_error = None\<rparr>)"

fun source_next :: "'b nativeSource \<Rightarrow> 'b option \<times> 'b nativeSource" where
  "source_next s =
     (case src_error s of
        Some e \<Rightarrow> (None, s)
      | None \<Rightarrow>
          (case src_in s of
             [] \<Rightarrow> (None, s)
           | Block b # es \<Rightarrow> (Some b, s\<lparr>src_in := es\<rparr>)
           | StreamEnd # es \<Rightarrow> (None, s)
           | BadBlock msg # es \<Rightarrow>
               (None, s\<lparr>src_in := es, src_error := Some (if msg = [] then ''chDB block could not be read'' else msg)\<rparr>)))"

text \<open>\<open>source_error\<close>, and all the blocks a reader gets when it asks until there is none.\<close>

definition source_error :: "'b nativeSource \<Rightarrow> string option" where
  "source_error s = src_error s"

function source_blocks :: "'b nativeSource \<Rightarrow> 'b list \<times> 'b nativeSource" where
  "source_blocks s =
     (case source_next s of
        (None, t) \<Rightarrow> ([], t)
      | (Some b, t) \<Rightarrow> (case source_blocks t of (bs, u) \<Rightarrow> (b # bs, u)))"
  by pat_completeness auto

lemma source_next_Some: "source_next s = (Some b, t) \<Longrightarrow> src_in s = Block b # src_in t \<and> src_error t = None \<and> src_error s = None"
  by (auto split: option.splits list.splits block_event.splits)

termination source_blocks
  by (relation "measure (\<lambda>s. length (src_in s))") (auto simp del: source_next.simps dest!: source_next_Some [OF sym])

declare source_blocks.simps [simp del] source_next.simps [simp del]

text \<open>
  Every block up to the end of the stream is delivered in order. A block that cannot be read ends
  the blocks too, but leaves an error, and a source with an error gives no further block.
\<close>

lemma source_blocks_all:
  assumes "src_error s = None" "src_in s = map Block bs @ es" "case es of Block b # _ \<Rightarrow> False | _ \<Rightarrow> True"
  shows "\<exists>t. source_blocks s = (bs, t) \<and> (source_error t \<noteq> None \<longleftrightarrow> (\<exists>m r. es = BadBlock m # r))
    \<and> source_next t = (None, t)"
  using assms(1,2)
proof (induction bs arbitrary: s)
  case Nil
  then show ?case using assms(3)
    by (subst source_blocks.simps) (auto simp: source_next.simps source_error_def split: list.splits block_event.splits)
next
  case (Cons b bs)
  then have n: "source_next s = (Some b, s\<lparr>src_in := map Block bs @ es\<rparr>)" by (simp add: source_next.simps)
  from Cons.IH [of "s\<lparr>src_in := map Block bs @ es\<rparr>"] Cons.prems show ?case
    by (subst source_blocks.simps) (auto simp: n)
qed

section \<open>The reader and the executor\<close>

text \<open>
  \<open>pgch_reader\<close> over a source: an error of its start, the number of columns, an error of
  \<open>pgch_reader_convert_init\<close> for a column without a conversion to its attribute, the rows that
  \<open>pgch_reader_next\<close> and the conversion deliver in order, and the error that is set when
  \<open>pgch_reader_next\<close> has returned false, if there is one. A row may be an error: what
  \<open>CHECK_FOR_INTERRUPTS\<close> at the head of the loop or the conversion raises.
\<close>

record 'v native_reader =
  rd_init_error :: "string option"
  rd_columns :: nat
  rd_convert_init :: "pg_error option"
  rd_rows :: "(pg_error + 'v option list) list"
  rd_end_error :: "string option"

datatype 'v effect =
    BeforeStatement
  | Stored nat "'v tuple"
  | AfterInsert nat "'v tuple"
  | ForeignStored nat "'v tuple"
  | InsteadOf nat "'v tuple"
  | AfterStatement

text \<open>
  The executor, by relation: triggers and their actions (a BEFORE ROW or INSTEAD OF trigger sees what the
  log has stored so far, and the former drops or changes the tuple), routing, tuple conversion, generated
  columns, constraints (whose functions may look at tables as well), foreign tables, and the size of a tuple. \<open>table_insert_error\<close> is what storing a tuple in
  its table fails with; \<open>ExecInsertIndexTuples\<close> what its index entries or the queueing of its triggers
  fail with, a duplicate key for example, given the rows that have theirs already. The statement
  triggers, the queueing of a foreign table's triggers, and the row triggers queued for the end of the
  statement may raise as well.
\<close>

record 'v executor =
  CheckValidResultRel :: "nat \<Rightarrow> pg_error option"
  ExecBSInsertTriggers :: "nat \<Rightarrow> pg_error option"
  AfterTriggerEndQuery :: "'v effect list \<Rightarrow> pg_error option"
  table_insert_error :: "nat \<Rightarrow> 'v tuple \<Rightarrow> pg_error option"
  ExecInsertIndexTuples :: "(nat \<times> 'v tuple) list \<Rightarrow> nat \<Rightarrow> 'v tuple \<Rightarrow> pg_error option"
  trig_before_row :: "nat \<Rightarrow> bool"
  trig_instead_row :: "nat \<Rightarrow> bool"
  ExecBRInsertTriggers :: "'v effect list \<Rightarrow> nat \<Rightarrow> 'v tuple \<Rightarrow> pg_error + 'v tuple option"
  ExecIRInsertTriggers :: "'v effect list \<Rightarrow> nat \<Rightarrow> 'v tuple \<Rightarrow> pg_error option"
  ExecFindPartition :: "'v tuple \<Rightarrow> pg_error + nat"
  root_to_child :: "nat \<Rightarrow> 'v tuple \<Rightarrow> 'v tuple"
  has_generated_stored :: "nat \<Rightarrow> bool"
  ExecComputeStoredGenerated :: "nat \<Rightarrow> 'v tuple \<Rightarrow> pg_error + 'v tuple"
  has_constr :: "nat \<Rightarrow> bool"
  ExecConstraints :: "'v effect list \<Rightarrow> nat \<Rightarrow> 'v tuple \<Rightarrow> pg_error option"
  relispartition :: "nat \<Rightarrow> bool"
  ExecPartitionCheck :: "nat \<Rightarrow> 'v tuple \<Rightarrow> pg_error option"
  is_foreign :: "nat \<Rightarrow> bool"
  ExecForeignInsert :: "nat \<Rightarrow> 'v tuple \<Rightarrow> pg_error + 'v tuple option"
  ExecARInsertTriggers :: "nat \<Rightarrow> 'v tuple \<Rightarrow> pg_error option"
  heap_compute_data_size :: "'v tuple \<Rightarrow> nat"

text \<open>The effects of a kind, in order.\<close>

fun stored_of :: "'v effect list \<Rightarrow> (nat \<times> 'v tuple) list" where
  "stored_of [] = []"
| "stored_of (Stored r t # es) = (r, t) # stored_of es"
| "stored_of (ForeignStored r t # es) = (r, t) # stored_of es"
| "stored_of (_ # es) = stored_of es"

fun after_of :: "'v effect list \<Rightarrow> (nat \<times> 'v tuple) list" where
  "after_of [] = []"
| "after_of (AfterInsert r t # es) = (r, t) # after_of es"
| "after_of (_ # es) = after_of es"

definition counted :: "'v effect list \<Rightarrow> nat" where
  "counted es = length (filter (\<lambda>e. case e of Stored r t \<Rightarrow> True | ForeignStored r t \<Rightarrow> True
     | InsteadOf r t \<Rightarrow> True | _ \<Rightarrow> False) es)"

lemma stored_of_append [simp]: "stored_of (xs @ ys) = stored_of xs @ stored_of ys"
  by (induction xs rule: stored_of.induct) auto

lemma after_of_append [simp]: "after_of (xs @ ys) = after_of xs @ after_of ys"
  by (induction xs rule: after_of.induct) auto

lemma counted_append [simp]: "counted (xs @ ys) = counted xs + counted ys"
  by (simp add: counted_def)

lemma counted_Cons [simp]:
  "counted [] = 0" "counted (Stored r t # es) = Suc (counted es)" "counted (AfterInsert r t # es) = counted es"
  "counted (ForeignStored r t # es) = Suc (counted es)" "counted (InsteadOf r t # es) = Suc (counted es)"
  "counted (BeforeStatement # es) = counted es" "counted (AfterStatement # es) = counted es"
  by (simp_all add: counted_def)

lemma flushed_effects [simp]:
  "stored_of (map (Stored r) ts) = map (Pair r) ts" "stored_of (map (AfterInsert r) ts) = []"
  "after_of (map (Stored r) ts) = []" "after_of (map (AfterInsert r) ts) = map (Pair r) ts"
  "counted (map (Stored r) ts) = length ts" "counted (map (AfterInsert r) ts) = 0"
  by (induction ts) auto

section \<open>The multi-insert buffer\<close>

definition CHDB_MAX_BUFFERED_TUPLES :: nat where "CHDB_MAX_BUFFERED_TUPLES = 1000"
definition CHDB_MAX_BUFFERED_BYTES :: nat where "CHDB_MAX_BUFFERED_BYTES = 64 * 1024"

text \<open>
  \<open>nativeInsert\<close>: the target relation, whether it takes a buffer, the filled slots (\<open>nused\<close> is their
  number) and their bytes; with it the effects so far, the partition of the last row and
  the trigger flags of the loop.
\<close>

record 'v nativeInsert =
  ins_target :: nat
  ins_buffered :: bool
  ins_slots :: "'v tuple list"
  ins_bytes :: nat
  ins_log :: "'v effect list"
  ins_routed :: "nat option"
  ins_before_row :: bool
  ins_instead_row :: bool

text \<open>\<open>after_insert\<close>: the index entries and AFTER ROW triggers of a tuple already in the table.\<close>

definition after_insert :: "'v executor \<Rightarrow> nat \<Rightarrow> 'v tuple \<Rightarrow> 'v nativeInsert \<Rightarrow> (unit, 'v nativeInsert) outcome" where
  "after_insert ex rri slot ins =
     (case ExecInsertIndexTuples ex (after_of (ins_log ins)) rri slot of
        Some e \<Rightarrow> Raise e ins
      | None \<Rightarrow> Return () (ins\<lparr>ins_log := ins_log ins @ [AfterInsert rri slot]\<rparr>))"

text \<open>\<open>table_multi_insert\<close> and \<open>table_tuple_insert\<close>: the tuples up to the first that cannot be stored.\<close>

fun table_multi_insert :: "'v executor \<Rightarrow> nat \<Rightarrow> 'v tuple list \<Rightarrow> 'v nativeInsert \<Rightarrow> (unit, 'v nativeInsert) outcome" where
  "table_multi_insert ex rri [] ins = Return () ins"
| "table_multi_insert ex rri (slot # slots) ins =
     (case table_insert_error ex rri slot of
        Some e \<Rightarrow> Raise e ins
      | None \<Rightarrow> table_multi_insert ex rri slots (ins\<lparr>ins_log := ins_log ins @ [Stored rri slot]\<rparr>))"

definition flush_buffer :: "'v executor \<Rightarrow> 'v nativeInsert \<Rightarrow> (unit, 'v nativeInsert) outcome" where
  "flush_buffer ex ins =
     (if ins_slots ins = [] then Return () ins
      else
        bindO (table_multi_insert ex (ins_target ins) (ins_slots ins) ins) (\<lambda>_ t.
          bindO (each (after_insert ex (ins_target ins)) (ins_slots ins) t) (\<lambda>_ u.
            Return () (u\<lparr>ins_slots := [], ins_bytes := 0\<rparr>))))"

definition buffer_store :: "'v executor \<Rightarrow> 'v tuple \<Rightarrow> 'v nativeInsert \<Rightarrow> (unit, 'v nativeInsert) outcome" where
  "buffer_store ex slot ins =
     (let ins = ins\<lparr>ins_bytes := ins_bytes ins + heap_compute_data_size ex slot,
                    ins_slots := ins_slots ins @ [slot]\<rparr>
      in if length (ins_slots ins) \<ge> CHDB_MAX_BUFFERED_TUPLES \<or> ins_bytes ins \<ge> CHDB_MAX_BUFFERED_BYTES
         then flush_buffer ex ins else Return () ins)"

text \<open>\<open>insert_row\<close>: false when a foreign table stored nothing.\<close>

definition insert_row ::
  "'v executor \<Rightarrow> nat \<Rightarrow> 'v tuple \<Rightarrow> 'v nativeInsert \<Rightarrow> (bool, 'v nativeInsert) outcome"
where
  "insert_row ex rri slot ins =
     (if is_foreign ex rri then
        (case ExecForeignInsert ex rri slot of
           Inl e \<Rightarrow> Raise e ins
         | Inr None \<Rightarrow> Return False ins
         | Inr (Some slot) \<Rightarrow>
             (let ins = ins\<lparr>ins_log := ins_log ins @ [ForeignStored rri slot]\<rparr>
              in case ExecARInsertTriggers ex rri slot of
                   Some e \<Rightarrow> Raise e ins
                 | None \<Rightarrow> Return True (ins\<lparr>ins_log := ins_log ins @ [AfterInsert rri slot]\<rparr>)))
      else
        bindO (table_multi_insert ex rri [slot] ins) (\<lambda>_ t.
          bindO (after_insert ex rri slot t) (\<lambda>_ u. Return True u)))"

section \<open>Defaults\<close>

text \<open>
  \<open>defaults_for\<close>: \<open>build_column_default\<close> gives the expression of an attribute number, if it has one.
  The result pairs attribute offsets with expressions.
\<close>

definition defaults_for :: "attribute list \<Rightarrow> (nat \<Rightarrow> 'e option) \<Rightarrow> nat list \<Rightarrow> (nat \<times> 'e) list" where
  "defaults_for desc build_column_default attnums =
     concat (map (\<lambda>attnum.
       let attr = desc ! (attnum - 1)
       in if attisdropped attr \<or> attgenerated attr \<or> attnum \<in> set attnums then []
          else (case build_column_default attnum of None \<Rightarrow> [] | Some expr \<Rightarrow> [(attnum - 1, expr)]))
       [1 ..< Suc (length desc)])"

fun fill_defaults :: "('e \<Rightarrow> 'v option) \<Rightarrow> (nat \<times> 'e) list \<Rightarrow> 'v tuple \<Rightarrow> 'v tuple" where
  "fill_defaults eval [] slot = slot"
| "fill_defaults eval ((dest, expr) # ds) slot = fill_defaults eval ds (slot[dest := eval expr])"

text \<open>\<open>pgch_reader_fill_map\<close> puts the value of stream column \<open>i\<close> at offset \<open>dest[i]\<close>.\<close>

fun fill_map :: "nat list \<Rightarrow> 'v option list \<Rightarrow> 'v tuple \<Rightarrow> 'v tuple" where
  "fill_map (d # dest) (v # vals) slot = fill_map dest vals (slot[d := v])"
| "fill_map _ _ slot = slot"

text \<open>A slot: all null, then the streamed columns, then the defaults.\<close>

definition build_slot ::
  "attribute list \<Rightarrow> nat list \<Rightarrow> (nat \<times> 'e) list \<Rightarrow> ('e \<Rightarrow> 'v option) \<Rightarrow> 'v option list \<Rightarrow> 'v tuple"
where
  "build_slot desc attnums defaults eval vals =
     fill_defaults eval defaults
       (fill_map (map (\<lambda>a. a - 1) attnums) vals (replicate (length desc) None))"

section \<open>The insert loop\<close>

text \<open>
  The body of the loop after the slot is built. The result is whether the row counts; \<open>proute\<close> is
  whether the target is a partitioned table.
\<close>

definition route_row ::
  "'v executor \<Rightarrow> bool \<Rightarrow> 'v tuple \<Rightarrow> 'v nativeInsert \<Rightarrow> (nat \<times> 'v tuple, 'v nativeInsert) outcome"
where
  "route_row ex proute slot ins =
     (if \<not> proute then Return (ins_target ins, slot) ins
      else
        (case ExecFindPartition ex slot of
           Inl e \<Rightarrow> Raise e ins
         | Inr rri \<Rightarrow>
             Return (rri, root_to_child ex rri slot)
               (if Some rri \<noteq> ins_routed ins
                then ins\<lparr>ins_before_row := trig_before_row ex rri, ins_instead_row := trig_instead_row ex rri,
                         ins_routed := Some rri\<rparr>
                else ins)))"

definition check_row ::
  "'v executor \<Rightarrow> 'v effect list \<Rightarrow> bool \<Rightarrow> bool \<Rightarrow> nat \<Rightarrow> 'v tuple \<Rightarrow> pg_error + 'v tuple"
where
  "check_row ex log proute before rri slot =
     bindE (if has_constr ex rri \<and> has_generated_stored ex rri then ExecComputeStoredGenerated ex rri slot else Inr slot) (\<lambda>slot.
       case (if \<not> is_foreign ex rri \<and> has_constr ex rri then ExecConstraints ex log rri slot else None) of
         Some e \<Rightarrow> Inl e
       | None \<Rightarrow>
           (case (if relispartition ex rri \<and> (\<not> proute \<or> before) then ExecPartitionCheck ex rri slot else None) of
              Some e \<Rightarrow> Inl e
            | None \<Rightarrow> Inr slot))"

definition store_row ::
  "'v executor \<Rightarrow> bool \<Rightarrow> nat \<Rightarrow> 'v tuple \<Rightarrow> 'v nativeInsert \<Rightarrow> (bool, 'v nativeInsert) outcome"
where
  "store_row ex proute rri slot ins =
     (if ins_instead_row ins then
        (case ExecIRInsertTriggers ex (ins_log ins) rri slot of
           Some e \<Rightarrow> Raise e ins
         | None \<Rightarrow> Return True (ins\<lparr>ins_log := ins_log ins @ [InsteadOf rri slot]\<rparr>))
      else
        (case check_row ex (ins_log ins) proute (ins_before_row ins) rri slot of
           Inl e \<Rightarrow> Raise e ins
         | Inr slot \<Rightarrow>
             if ins_buffered ins then bindO (buffer_store ex slot ins) (\<lambda>_. Return True)
             else insert_row ex rri slot ins))"

definition receive_row ::
  "'v executor \<Rightarrow> bool \<Rightarrow> 'v tuple \<Rightarrow> 'v nativeInsert \<Rightarrow> (bool, 'v nativeInsert) outcome"
where
  "receive_row ex proute slot ins =
     bindO (route_row ex proute slot ins) (\<lambda>(rri, slot) ins.
       if ins_before_row ins then
         (case ExecBRInsertTriggers ex (ins_log ins) rri slot of
            Inl e \<Rightarrow> Raise e ins
          | Inr None \<Rightarrow> Return False ins
          | Inr (Some slot) \<Rightarrow> store_row ex proute rri slot ins)
       else store_row ex proute rri slot ins)"

text \<open>
  The loop, with the number \<open>k\<close> of rows read so far. A default is evaluated when its row is built, and may
  raise: a volatile one may differ from row to row, and a function in it may look at the table, which then
  has what the log has stored. The row is built from the log, the number and the streamed values.
\<close>

fun receive_rows ::
  "'v executor \<Rightarrow> bool \<Rightarrow> ('v effect list \<Rightarrow> nat \<Rightarrow> 'v option list \<Rightarrow> pg_error + 'v tuple)
     \<Rightarrow> (pg_error + 'v option list) list \<Rightarrow> nat \<Rightarrow> nat \<Rightarrow> 'v nativeInsert \<Rightarrow> (nat, 'v nativeInsert) outcome"
where
  "receive_rows ex proute slot_of [] k rows ins = Return rows ins"
| "receive_rows ex proute slot_of (Inl e # rs) k rows ins = Raise e ins"
| "receive_rows ex proute slot_of (Inr vals # rs) k rows ins =
     (case slot_of (ins_log ins) k vals of
        Inl e \<Rightarrow> Raise e ins
      | Inr slot \<Rightarrow>
          bindO (receive_row ex proute slot ins) (\<lambda>counts ins.
            receive_rows ex proute slot_of rs (k + 1) (if counts then rows + 1 else rows) ins))"

definition report_reader_error :: "string \<Rightarrow> pg_error" where
  "report_reader_error error =
     (ereport ERRCODE_EXTERNAL_ROUTINE_EXCEPTION ''chdb: error fetching chDB query result'')
       \<lparr>errdetail := Some error\<rparr>"

definition new_insert :: "'v executor \<Rightarrow> relation \<Rightarrow> 'v nativeInsert" where
  "new_insert ex rel =
     (let target = relid rel; proute = (rd_relkind rel = RELKIND_PARTITIONED_TABLE)
      in \<lparr>ins_target = target,
          ins_buffered = (\<not> proute \<and> \<not> is_foreign ex target \<and> \<not> trig_before_row ex target
            \<and> \<not> trig_instead_row ex target),
          ins_slots = [], ins_bytes = 0, ins_log = [], ins_routed = None,
          ins_before_row = trig_before_row ex target, ins_instead_row = trig_instead_row ex target\<rparr>)"

text \<open>
  After the loop: an error the reader stopped with is raised before the flush, so the rows still
  in the buffer are never stored then.
\<close>

definition finish_insert ::
  "'v executor \<Rightarrow> 'v native_reader \<Rightarrow> nat \<Rightarrow> 'v nativeInsert \<Rightarrow> (nat, 'v nativeInsert) outcome"
where
  "finish_insert ex reader rows ins =
     (case rd_end_error reader of
        Some e \<Rightarrow> Raise (report_reader_error e) ins
      | None \<Rightarrow>
          bindO (flush_buffer ex ins) (\<lambda>_ ins.
            case AfterTriggerEndQuery ex (ins_log ins) of
              Some e \<Rightarrow> Raise e ins
            | None \<Rightarrow> Return rows (ins\<lparr>ins_log := ins_log ins @ [AfterStatement]\<rparr>)))"

text \<open>The loop between the statement triggers.\<close>

definition insert_stream ::
  "'v executor \<Rightarrow> relation \<Rightarrow> ('v effect list \<Rightarrow> nat \<Rightarrow> 'v option list \<Rightarrow> pg_error + 'v tuple) \<Rightarrow> 'v native_reader
     \<Rightarrow> (nat, 'v nativeInsert) outcome"
where
  "insert_stream ex rel slot_of reader =
     (let ins = new_insert ex rel
      in case ExecBSInsertTriggers ex (relid rel) of
           Some e \<Rightarrow> Raise e ins
         | None \<Rightarrow>
             bindO (receive_rows ex (rd_relkind rel = RELKIND_PARTITIONED_TABLE) slot_of (rd_rows reader) 0 0
               (ins\<lparr>ins_log := [BeforeStatement]\<rparr>)) (finish_insert ex reader))"

text \<open>
  \<open>chdb_copy_receive\<close>: the checks of the stream's shape, of the conversions and of the target, then
  the loop. \<open>eval log k\<close> are the values of the default expressions for row \<open>k\<close>, or what evaluating them
  raises. What is left of an error is the log of what was done before it.
\<close>

definition chdb_copy_receive ::
  "'v executor \<Rightarrow> relation \<Rightarrow> nat list \<Rightarrow> (nat \<Rightarrow> 'e option)
     \<Rightarrow> ('v effect list \<Rightarrow> nat \<Rightarrow> pg_error + ('e \<Rightarrow> 'v option)) \<Rightarrow> 'v native_reader \<Rightarrow> (nat, 'v effect list) outcome"
where
  "chdb_copy_receive ex rel attnums build_column_default eval reader =
     (case rd_init_error reader of
        Some e \<Rightarrow> Raise (report_reader_error e) []
      | None \<Rightarrow>
          if rd_columns reader = 0 then Return 0 []
          else if rd_columns reader \<noteq> length attnums then
            Raise (ereport ERRCODE_BAD_COPY_FILE_FORMAT (''chdb: chDB returned '' @ dec (rd_columns reader)
              @ '' columns, expected '' @ dec (length attnums))) []
          else
            (case rd_convert_init reader of
               Some e \<Rightarrow> Raise e []
             | None \<Rightarrow>
                 (case CheckValidResultRel ex (relid rel) of
                    Some e \<Rightarrow> Raise e []
                  | None \<Rightarrow>
                      (let defaults = defaults_for (rd_att rel) build_column_default attnums
                       in case insert_stream ex rel
                                 (\<lambda>log k vals. map_sum id (\<lambda>ev. build_slot (rd_att rel) attnums defaults ev vals) (eval log k))
                                 reader of
                            Raise e ins \<Rightarrow> Raise e (ins_log ins)
                          | Waiting \<Rightarrow> Waiting
                          | Return rows ins \<Rightarrow> Return rows (ins_log ins)))))"

section \<open>DESCRIBE and chdb_query\<close>

type_synonym chdbDescribedColumn = "string \<times> string"

fun describe_rows :: "(pg_error + string option list) list \<Rightarrow> pg_error + chdbDescribedColumn list" where
  "describe_rows [] = Inr []"
| "describe_rows (Inl e # rs) = Inl e"
| "describe_rows (Inr vals # rs) =
     (case (vals ! 0, vals ! 1) of
        (Some name, Some ty) \<Rightarrow> bindE (describe_rows rs) (\<lambda>cols. Inr ((name, ty) # cols))
      | _ \<Rightarrow> Inl (ereport ERRCODE_BAD_COPY_FILE_FORMAT
               ''chdb: DESCRIBE produced a column with no name or type''))"

definition chdb_native_describe :: "string native_reader \<Rightarrow> pg_error + chdbDescribedColumn list" where
  "chdb_native_describe reader =
     (case rd_init_error reader of
        Some e \<Rightarrow> Inl (report_reader_error e)
      | None \<Rightarrow>
          if rd_columns reader \<noteq> 2 then
            Inl (ereport ERRCODE_BAD_COPY_FILE_FORMAT
              (''chdb: DESCRIBE returned '' @ dec (rd_columns reader) @ '' columns, expected 2''))
          else
            bindE (describe_rows (rd_rows reader)) (\<lambda>cols.
              case rd_end_error reader of Some e \<Rightarrow> Inl (report_reader_error e) | None \<Rightarrow> Inr cols))"

text \<open>The rows put into the tuplestore, one array of values being reused from row to row.\<close>

fun store_values ::
  "nat list \<Rightarrow> (pg_error + 'v option list) list \<Rightarrow> 'v tuple \<Rightarrow> 'v tuple list \<Rightarrow> (unit, 'v tuple list) outcome"
where
  "store_values attr_nums [] arr tupstore = Return () tupstore"
| "store_values attr_nums (Inl e # rs) arr tupstore = Raise e tupstore"
| "store_values attr_nums (Inr row # rs) arr tupstore =
     (let arr = fill_map attr_nums row arr in store_values attr_nums rs arr (tupstore @ [arr]))"

definition chdb_select_receive :: "nat \<Rightarrow> 'v native_reader \<Rightarrow> (unit, 'v tuple list) outcome" where
  "chdb_select_receive natts reader =
     (case rd_init_error reader of
        Some e \<Rightarrow> Raise (report_reader_error e) []
      | None \<Rightarrow>
          if rd_columns reader = 0 then Return () []
          else if rd_columns reader \<noteq> natts then
            Raise (ereport ERRCODE_BAD_COPY_FILE_FORMAT (''chdb: chDB returned '' @ dec (rd_columns reader)
              @ '' columns, expected '' @ dec natts)) []
          else
            (case rd_convert_init reader of
               Some e \<Rightarrow> Raise e []
             | None \<Rightarrow> store_values [0 ..< natts] (rd_rows reader) (replicate natts None) []))"

text \<open>An executor without triggers, constraints or partitions, and a table of two columns.\<close>

definition plain_executor :: "string executor" where
  "plain_executor = \<lparr>CheckValidResultRel = (\<lambda>_. None),
     ExecBSInsertTriggers = (\<lambda>_. None), AfterTriggerEndQuery = (\<lambda>_. None), table_insert_error = (\<lambda>_ _. None),
     ExecInsertIndexTuples = (\<lambda>_ _ _. None), trig_before_row = (\<lambda>_. False), trig_instead_row = (\<lambda>_. False),
     ExecBRInsertTriggers = (\<lambda>_ _ t. Inr (Some t)), ExecIRInsertTriggers = (\<lambda>_ _ _. None),
     ExecFindPartition = (\<lambda>_. Inr 0), root_to_child = (\<lambda>_ t. t),
     has_generated_stored = (\<lambda>_. False), ExecComputeStoredGenerated = (\<lambda>_ t. Inr t), has_constr = (\<lambda>_. False),
     ExecConstraints = (\<lambda>_ _ _. None), relispartition = (\<lambda>_. False), ExecPartitionCheck = (\<lambda>_ _. None),
     is_foreign = (\<lambda>_. False), ExecForeignInsert = (\<lambda>_ t. Inr (Some t)), ExecARInsertTriggers = (\<lambda>_ _. None),
     heap_compute_data_size = (\<lambda>t. 40000)\<rparr>"

definition plain_attr :: "string \<Rightarrow> attribute" where
  "plain_attr n = \<lparr>attname = n, atttypid = 25, atttypmod = -1, attnotnull = False, attisdropped = False, attgenerated = False\<rparr>"

definition plain_table :: relation where
  "plain_table = \<lparr>relname = ''t'', relid = 7, rd_relkind = RELKIND_RELATION, rd_att = [plain_attr ''a'', plain_attr ''b'']\<rparr>"

definition plain_reader :: "string native_reader" where
  "plain_reader = \<lparr>rd_init_error = None, rd_columns = 1, rd_convert_init = None, rd_rows = [Inr [Some ''x''], Inr [None], Inr [Some ''y'']], rd_end_error = None\<rparr>"

lemmas plain_defs = plain_executor_def plain_attr_def plain_table_def plain_reader_def

lemmas receive_eval = chdb_copy_receive_def new_insert_def Let_def defaults_for_def receive_row_def route_row_def
  store_row_def finish_insert_def insert_stream_def after_insert_def check_row_def buffer_store_def flush_buffer_def insert_row_def build_slot_def
  CHDB_MAX_BUFFERED_TUPLES_def CHDB_MAX_BUFFERED_BYTES_def

section \<open>Where the values go\<close>

lemma length_fill_map [simp]: "length (fill_map dest vals slot) = length slot"
  by (induction dest vals slot rule: fill_map.induct) simp_all

lemma length_fill_defaults [simp]: "length (fill_defaults eval ds slot) = length slot"
  by (induction eval ds slot rule: fill_defaults.induct) simp_all

lemma fill_map_other: "k \<notin> set dest \<Longrightarrow> fill_map dest vals slot ! k = slot ! k"
  by (induction dest vals slot rule: fill_map.induct) auto

lemma fill_map_dest:
  "distinct dest \<Longrightarrow> set dest \<subseteq> {..<length slot} \<Longrightarrow> length vals = length dest \<Longrightarrow> i < length dest
     \<Longrightarrow> fill_map dest vals slot ! (dest ! i) = vals ! i"
proof (induction dest vals slot arbitrary: i rule: fill_map.induct)
  case (1 d dest v vals slot)
  then show ?case by (cases i) (auto simp: fill_map_other)
qed auto

lemma fill_defaults_other: "k \<notin> fst ` set ds \<Longrightarrow> fill_defaults eval ds slot ! k = slot ! k"
  by (induction eval ds slot rule: fill_defaults.induct) (auto simp: nth_list_update_neq)

lemma fill_defaults_dest:
  "distinct (map fst ds) \<Longrightarrow> (k, e) \<in> set ds \<Longrightarrow> k < length slot \<Longrightarrow> fill_defaults eval ds slot ! k = eval e"
proof (induction eval ds slot rule: fill_defaults.induct)
  case (2 eval dest expr ds slot)
  then show ?case by (cases "k = dest") (auto simp: fill_defaults_other image_iff)
qed simp

lemma set_defaults_for:
  "(k, e) \<in> set (defaults_for desc dflt attnums) \<longleftrightarrow> k < length desc \<and> \<not> attisdropped (desc ! k)
     \<and> \<not> attgenerated (desc ! k) \<and> Suc k \<notin> set attnums \<and> dflt (Suc k) = Some e"
proof
  assume "(k, e) \<in> set (defaults_for desc dflt attnums)"
  then show "k < length desc \<and> \<not> attisdropped (desc ! k) \<and> \<not> attgenerated (desc ! k)
      \<and> Suc k \<notin> set attnums \<and> dflt (Suc k) = Some e"
    by (auto simp: defaults_for_def Let_def simp del: upt_Suc split: if_splits option.splits)
next
  assume "k < length desc \<and> \<not> attisdropped (desc ! k) \<and> \<not> attgenerated (desc ! k)
      \<and> Suc k \<notin> set attnums \<and> dflt (Suc k) = Some e"
  then show "(k, e) \<in> set (defaults_for desc dflt attnums)"
    by (auto simp: defaults_for_def Let_def simp del: upt_Suc intro!: bexI [of _ "Suc k"])
qed

lemma distinct_defaults_for: "distinct (map fst (defaults_for desc dflt attnums))"
proof -
  have "distinct (map fst (concat (map (\<lambda>a. if P a then [] else (case g a of None \<Rightarrow> [] | Some e \<Rightarrow> [(a - 1, e)])) xs)))"
    if "distinct xs" "0 \<notin> set xs" for xs :: "nat list" and P and g :: "nat \<Rightarrow> 'e option"
    using that
  proof (induction xs)
    case (Cons x xs)
    have "x - 1 \<notin> fst ` set (concat (map (\<lambda>a. if P a then [] else (case g a of None \<Rightarrow> [] | Some e \<Rightarrow> [(a - 1, e)])) xs))"
    proof
      assume "x - 1 \<in> fst ` set (concat (map (\<lambda>a. if P a then [] else (case g a of None \<Rightarrow> [] | Some e \<Rightarrow> [(a - 1, e)])) xs))"
      then obtain a where "a \<in> set xs" "a - 1 = x - 1" by (auto split: if_splits option.splits)
      moreover have "a \<noteq> 0" "x \<noteq> 0" "x \<notin> set xs" using Cons.prems \<open>a \<in> set xs\<close> by (auto intro: gr0I)
      ultimately show False by (metis Suc_diff_1 gr0I)
    qed
    with Cons show ?case by (auto split: option.split)
  qed simp
  from this [of "[1..<Suc (length desc)]"] show ?thesis
    by (simp add: defaults_for_def Let_def del: upt_Suc)
qed

text \<open>
  C31. Every attribute of a received row has its value from the right place: a copied column the
  value streamed for it, a column left out its default, evaluated for that row, if it has one,
  and any other column (dropped, generated, or without a default) NULL.
\<close>

theorem build_slot_columns:
  fixes dflt :: "nat \<Rightarrow> 'e option" and eval :: "'e \<Rightarrow> 'v option"
  assumes "distinct attnums" and "set attnums \<subseteq> {1..length desc}" and "length vals = length attnums"
  defines "slot \<equiv> build_slot desc attnums (defaults_for desc dflt attnums) eval vals"
  shows "length slot = length desc \<and> (\<forall>i < length attnums. slot ! (attnums ! i - 1) = vals ! i)
    \<and> (\<forall>k < length desc. Suc k \<notin> set attnums \<longrightarrow> slot ! k =
        (if attisdropped (desc ! k) \<or> attgenerated (desc ! k) then None
         else (case dflt (Suc k) of None \<Rightarrow> None | Some e \<Rightarrow> eval e)))"
proof (intro conjI allI impI)
  let ?dest = "map (\<lambda>a. a - 1) attnums"
  let ?base = "fill_map ?dest vals (replicate (length desc) None)"
  show "length slot = length desc" by (simp add: slot_def build_slot_def)
  have dest: "distinct ?dest" "set ?dest \<subseteq> {..<length desc}"
  proof -
    have "inj_on (\<lambda>a. a - 1) (set attnums)"
      using assms(2) by (intro inj_onI) (metis Suc_diff_1 atLeastAtMost_iff less_eq_Suc_le subsetD One_nat_def)
    with assms(1) show "distinct ?dest" by (simp add: distinct_map)
    show "set ?dest \<subseteq> {..<length desc}" using assms(2) by fastforce
  qed
  show "slot ! (attnums ! i - 1) = vals ! i" if "i < length attnums" for i
  proof -
    have a: "attnums ! i \<in> set attnums" "1 \<le> attnums ! i" using that assms(2) nth_mem by fastforce+
    then have "attnums ! i - 1 \<notin> fst ` set (defaults_for desc dflt attnums)"
      by (auto simp: set_defaults_for)
    then show ?thesis using fill_map_dest [OF dest(1), of "replicate (length desc) None" vals i] dest(2) assms(3) that
      by (simp add: slot_def build_slot_def fill_defaults_other)
  qed
  fix k
  assume k: "k < length desc" "Suc k \<notin> set attnums"
  have "k \<notin> set ?dest"
  proof
    assume "k \<in> set ?dest"
    then obtain a where "a \<in> set attnums" "k = a - 1" by auto
    with k(2) assms(2) show False by (metis Suc_diff_1 atLeastAtMost_iff less_eq_Suc_le subsetD One_nat_def)
  qed
  then have b: "?base ! k = None" using k(1) by (simp add: fill_map_other)
  show "slot ! k = (if attisdropped (desc ! k) \<or> attgenerated (desc ! k) then None
         else (case dflt (Suc k) of None \<Rightarrow> None | Some e \<Rightarrow> eval e))"
  proof (cases "\<exists>e. (k, e) \<in> set (defaults_for desc dflt attnums)")
    case True
    then obtain e where e: "(k, e) \<in> set (defaults_for desc dflt attnums)" by blast
    with fill_defaults_dest [OF distinct_defaults_for e, of ?base eval] k(1) show ?thesis
      by (simp add: slot_def build_slot_def set_defaults_for)
  next
    case False
    then have "k \<notin> fst ` set (defaults_for desc dflt attnums)" by force
    with b have "slot ! k = None" by (simp add: slot_def build_slot_def fill_defaults_other)
    with False k show ?thesis by (auto simp: set_defaults_for split: option.split)
  qed
qed

theorem build_slot_columns_witness:
  "build_slot [plain_attr ''a'', plain_attr ''b''] [2] (defaults_for [plain_attr ''a'', plain_attr ''b'']
     (\<lambda>a. if a = 1 then Some () else None) [2]) (\<lambda>e. Some ''d'') [Some ''x''] ! 0 = Some ''d''"
  using build_slot_columns [of "[2]" "[plain_attr ''a'', plain_attr ''b'']" "[Some ''x'']"
      "\<lambda>a. if a = 1 then Some () else None" "\<lambda>e. Some ''d''"] by (simp add: plain_attr_def)

section \<open>Results of chdb_query\<close>

lemma fill_map_all:
  assumes "length row = length arr"
  shows "fill_map [0 ..< length arr] row arr = row"
proof (rule nth_equalityI)
  show "fill_map [0 ..< length arr] row arr ! i = row ! i" if "i < length (fill_map [0 ..< length arr] row arr)" for i
    using fill_map_dest [of "[0 ..< length arr]" arr row i] assms that by (simp add: lessThan_atLeast0)
qed (simp add: assms)

lemma store_values_all:
  "list_all (\<lambda>row. length row = natts) rows \<Longrightarrow> length arr = natts
     \<Longrightarrow> store_values [0 ..< natts] (map Inr rows) arr ts = Return () (ts @ rows)"
proof (induction rows arbitrary: arr ts)
  case (Cons row rows)
  then have "fill_map [0 ..< natts] row arr = row" using fill_map_all [of row arr] by simp
  with Cons show ?case by (simp add: Let_def)
qed simp

text \<open>
  C40. The rows of \<open>chdb_query\<close> are the streamed rows in order; but, unlike a COPY FROM, the function
  does not look at the reader's error when the rows end, so the rows before a block that could
  not be read are returned as if they were the whole result.
\<close>

theorem select_ignores_end_error:
  assumes "rd_init_error reader = None" and "rd_columns reader = natts" and "0 < natts" and "rd_convert_init reader = None"
    and "rd_rows reader = map Inr rows" and "list_all (\<lambda>row. length row = natts) rows"
  shows "chdb_select_receive natts (reader\<lparr>rd_end_error := Some msg\<rparr>) = Return () rows"
  using assms store_values_all [of natts rows "replicate natts None" "[]"] by (simp add: chdb_select_receive_def)

theorem select_ignores_end_error_witness:
  "chdb_select_receive 1 (plain_reader\<lparr>rd_end_error := Some ''bad block''\<rparr>) = Return () [[Some ''x''], [None], [Some ''y'']]"
  by (rule select_ignores_end_error) (simp_all add: plain_reader_def)

section \<open>Columns of a DESCRIBE\<close>

lemma describe_rows_Inr:
  "describe_rows rs = Inr cols \<longleftrightarrow> list_all2 (\<lambda>r (n, ty). \<exists>vals. r = Inr vals \<and> vals ! 0 = Some n \<and> vals ! 1 = Some ty) rs cols"
proof (induction rs arbitrary: cols rule: describe_rows.induct)
  case (3 vals rs)
  then show ?case by (cases cols) (auto simp: error_simps split: option.splits)
qed (auto simp: list_all2_Cons1)

text \<open>
  A DESCRIBE is accepted exactly when the stream had two columns, every row a name and a type,
  and it ended without an error; the result then has one column per row, in order.
\<close>

theorem native_describe_accepts:
  "chdb_native_describe reader = Inr cols \<longleftrightarrow> rd_init_error reader = None \<and> rd_columns reader = 2
     \<and> rd_end_error reader = None
     \<and> list_all2 (\<lambda>r (n, ty). \<exists>vals. r = Inr vals \<and> vals ! 0 = Some n \<and> vals ! 1 = Some ty) (rd_rows reader) cols"
  by (auto simp: chdb_native_describe_def error_simps describe_rows_Inr split: option.split)

end
