(* ===== verification/Native_Effects.thy ===== *)
theory Native_Effects
  imports Native_Receive
begin

text \<open>
  What a COPY FROM does to its table: which rows are stored, what the returned count counts, and that
  the multi-insert buffer of \<open>src/native.c\<close> changes neither the rows, nor their order, nor whether
  the copy fails, only at most which of several errors is reported, as long as no default and no
  constraint looks at the table that is filled; and what a default that does look at it sees.
\<close>

section \<open>Storing through a buffer\<close>

text \<open>When a batch is stored, and what it leaves then.\<close>

fun index_ok :: "'v executor \<Rightarrow> nat \<Rightarrow> (nat \<times> 'v tuple) list \<Rightarrow> 'v tuple list \<Rightarrow> bool" where
  "index_ok ex rri after [] = True"
| "index_ok ex rri after (t # ts) = (ExecInsertIndexTuples ex after rri t = None \<and> index_ok ex rri (after @ [(rri, t)]) ts)"

definition batch_ok :: "'v executor \<Rightarrow> nat \<Rightarrow> (nat \<times> 'v tuple) list \<Rightarrow> 'v tuple list \<Rightarrow> bool" where
  "batch_ok ex rri after ts \<longleftrightarrow> list_all (\<lambda>t. table_insert_error ex rri t = None) ts \<and> index_ok ex rri after ts"

definition flushed :: "'v nativeInsert \<Rightarrow> 'v nativeInsert" where
  "flushed ins =
     (if ins_slots ins = [] then ins
      else ins\<lparr>ins_log := ins_log ins @ map (Stored (ins_target ins)) (ins_slots ins)
                 @ map (AfterInsert (ins_target ins)) (ins_slots ins),
               ins_slots := [], ins_bytes := 0\<rparr>)"

definition ok_pending :: "'v executor \<Rightarrow> 'v nativeInsert \<Rightarrow> bool" where
  "ok_pending ex ins \<longleftrightarrow> batch_ok ex (ins_target ins) (after_of (ins_log ins)) (ins_slots ins)"

lemma index_always: "\<forall>after rri t. ExecInsertIndexTuples ex after rri t = None \<Longrightarrow> index_ok ex rri after ts"
  by (induction ts arbitrary: after) auto

lemma index_ok_snoc [simp]:
  "index_ok ex rri after (ts @ [t])
     \<longleftrightarrow> index_ok ex rri after ts \<and> ExecInsertIndexTuples ex (after @ map (Pair rri) ts) rri t = None"
  by (induction ts arbitrary: after) auto

lemma batch_ok_snoc [simp]:
  "batch_ok ex rri after (ts @ [t]) \<longleftrightarrow> batch_ok ex rri after ts \<and> table_insert_error ex rri t = None
     \<and> ExecInsertIndexTuples ex (after @ map (Pair rri) ts) rri t = None"
  by (auto simp: batch_ok_def)

lemma batch_ok_Nil [simp]: "batch_ok ex rri after []"
  by (simp add: batch_ok_def)

lemma multi_insert_value:
  "table_multi_insert ex rri ts ins =
     (if list_all (\<lambda>t. table_insert_error ex rri t = None) ts
      then Return () (ins\<lparr>ins_log := ins_log ins @ map (Stored rri) ts\<rparr>) else table_multi_insert ex rri ts ins)"
  by (induction ts arbitrary: ins) (auto split: option.splits)

lemma multi_insert_raises:
  "\<not> list_all (\<lambda>t. table_insert_error ex rri t = None) ts \<Longrightarrow> \<exists>e i. table_multi_insert ex rri ts ins = Raise e i"
  by (induction ts arbitrary: ins) (auto split: option.splits)

lemma after_inserts_value:
  "index_ok ex rri (after_of (ins_log ins)) ts
     \<Longrightarrow> each (after_insert ex rri) ts ins = Return () (ins\<lparr>ins_log := ins_log ins @ map (AfterInsert rri) ts\<rparr>)"
  by (induction ts arbitrary: ins) (auto simp: after_insert_def)

lemma after_inserts_raise:
  "\<not> index_ok ex rri (after_of (ins_log ins)) ts \<Longrightarrow> \<exists>e i. each (after_insert ex rri) ts ins = Raise e i"
proof (induction ts arbitrary: ins)
  case (Cons t ts)
  then show ?case
    using Cons.IH [of "ins\<lparr>ins_log := ins_log ins @ [AfterInsert rri t]\<rparr>"]
    by (cases "ExecInsertIndexTuples ex (after_of (ins_log ins)) rri t") (simp_all add: after_insert_def)
qed simp

lemma flush_ok: "ok_pending ex ins \<Longrightarrow> flush_buffer ex ins = Return () (flushed ins)"
  using multi_insert_value [of ex "ins_target ins" "ins_slots ins" ins]
  by (simp add: flush_buffer_def flushed_def ok_pending_def batch_ok_def after_inserts_value)

lemma flush_raises:
  assumes "\<not> ok_pending ex ins"
  shows "\<exists>e i. flush_buffer ex ins = Raise e i"
proof (cases "list_all (\<lambda>t. table_insert_error ex (ins_target ins) t = None) (ins_slots ins)")
  case True
  then have s: "table_multi_insert ex (ins_target ins) (ins_slots ins) ins
      = Return () (ins\<lparr>ins_log := ins_log ins @ map (Stored (ins_target ins)) (ins_slots ins)\<rparr>)"
    using multi_insert_value [of ex "ins_target ins" "ins_slots ins" ins] by simp
  from True assms have "\<not> index_ok ex (ins_target ins) (after_of (ins_log ins)) (ins_slots ins)" "ins_slots ins \<noteq> []"
    by (auto simp: ok_pending_def batch_ok_def)
  with s after_inserts_raise [of ex "ins_target ins"
      "ins\<lparr>ins_log := ins_log ins @ map (Stored (ins_target ins)) (ins_slots ins)\<rparr>" "ins_slots ins"]
  show ?thesis by (auto simp: flush_buffer_def)
next
  case False
  then have "ins_slots ins \<noteq> []" by auto
  with multi_insert_raises [OF False, of ins] show ?thesis by (auto simp: flush_buffer_def)
qed

lemma flush_Return: "flush_buffer ex ins = Return u ins' \<Longrightarrow> ok_pending ex ins \<and> ins' = flushed ins"
  using flush_ok [of ex ins] flush_raises [of ex ins] by (cases "ok_pending ex ins") auto

text \<open>
  The contract of a store of rows: what is visible in the table, followed by what is still
  pending, grows by exactly the stored row, and finishing makes everything visible.
\<close>

locale row_store =
  fixes store :: "'t \<Rightarrow> 's \<Rightarrow> (unit, 's) outcome" and finish :: "'s \<Rightarrow> (unit, 's) outcome"
    and visible :: "'s \<Rightarrow> 't list" and pending :: "'s \<Rightarrow> 't list" and inv :: "'s \<Rightarrow> bool"
  assumes store_rows: "inv s \<Longrightarrow> store t s = Return u s' \<Longrightarrow> visible s' @ pending s' = visible s @ pending s @ [t]"
    and store_inv: "inv s \<Longrightarrow> store t s = Return u s' \<Longrightarrow> inv s'"
    and finish_rows: "inv s \<Longrightarrow> finish s = Return u s' \<Longrightarrow> visible s' = visible s @ pending s \<and> pending s' = []"
begin

lemma store_all:
  "inv s \<Longrightarrow> each store ts s = Return u s' \<Longrightarrow> visible s' @ pending s' = visible s @ pending s @ ts \<and> inv s'"
proof (induction ts arbitrary: s)
  case (Cons t ts)
  then obtain v r where "store t s = Return v r" "each store ts r = Return u s'" by (auto simp: bindO_eq_Return)
  with Cons.IH [of r] Cons.prems(1) store_rows [of s t v r] store_inv [of s t v r] show ?case
    by (metis append_Cons append_Nil append_assoc)
qed simp

lemma stored_all:
  "inv s \<Longrightarrow> bindO (each store ts s) (\<lambda>_. finish) = Return u s' \<Longrightarrow> visible s' = visible s @ pending s @ ts"
  using store_all finish_rows by (fastforce simp: bindO_eq_Return)

end

text \<open>The buffer of the insert loop, and the direct insert into a plain relation.\<close>

definition insert_visible :: "'v nativeInsert \<Rightarrow> 'v tuple list" where
  "insert_visible ins = map snd (stored_of (ins_log ins))"

definition buffer_ok :: "'v nativeInsert \<Rightarrow> bool" where
  "buffer_ok ins \<longleftrightarrow> length (ins_slots ins) < CHDB_MAX_BUFFERED_TUPLES \<and> ins_bytes ins < CHDB_MAX_BUFFERED_BYTES"

text \<open>The slots with one more, before the test whether the buffer is full.\<close>

definition with_slot :: "'v executor \<Rightarrow> 'v tuple \<Rightarrow> 'v nativeInsert \<Rightarrow> 'v nativeInsert" where
  "with_slot ex slot ins = ins\<lparr>ins_bytes := ins_bytes ins + heap_compute_data_size ex slot, ins_slots := ins_slots ins @ [slot]\<rparr>"

lemma with_slot_sel [simp]:
  "ins_slots (with_slot ex slot ins) = ins_slots ins @ [slot]" "ins_log (with_slot ex slot ins) = ins_log ins"
  "ins_target (with_slot ex slot ins) = ins_target ins" "ins_buffered (with_slot ex slot ins) = ins_buffered ins"
  "ins_before_row (with_slot ex slot ins) = ins_before_row ins" "ins_instead_row (with_slot ex slot ins) = ins_instead_row ins"
  by (simp_all add: with_slot_def)

lemma flushed_sel [simp]:
  "ins_slots (flushed ins) = []" "ins_target (flushed ins) = ins_target ins" "ins_buffered (flushed ins) = ins_buffered ins"
  "ins_before_row (flushed ins) = ins_before_row ins" "ins_instead_row (flushed ins) = ins_instead_row ins"
  "stored_of (ins_log (flushed ins)) = stored_of (ins_log ins) @ map (Pair (ins_target ins)) (ins_slots ins)"
  "after_of (ins_log (flushed ins)) = after_of (ins_log ins) @ map (Pair (ins_target ins)) (ins_slots ins)"
  "counted (ins_log (flushed ins)) = counted (ins_log ins) + length (ins_slots ins)"
  by (simp_all add: flushed_def)

lemma buffer_store_cases:
  "buffer_store ex slot ins = Return () (with_slot ex slot ins) \<and> buffer_ok (with_slot ex slot ins)
     \<or> buffer_store ex slot ins = flush_buffer ex (with_slot ex slot ins)"
  by (auto simp: buffer_store_def with_slot_def Let_def buffer_ok_def)

lemma buffer_store_Return:
  assumes "buffer_store ex slot ins = Return u ins'"
  shows "ins' = with_slot ex slot ins \<and> buffer_ok ins' \<or> ins' = flushed (with_slot ex slot ins)"
  using buffer_store_cases [of ex slot ins] assms flush_Return by fastforce

lemma buffer_ok_flushed: "ins_slots ins \<noteq> [] \<Longrightarrow> buffer_ok (flushed ins)"
  by (simp add: buffer_ok_def flushed_def CHDB_MAX_BUFFERED_TUPLES_def CHDB_MAX_BUFFERED_BYTES_def)

interpretation buffered: row_store "buffer_store ex" "flush_buffer ex" insert_visible ins_slots buffer_ok for ex
proof
  fix s s' :: "'a nativeInsert" and t :: "'a tuple" and u
  show "insert_visible s' @ ins_slots s' = insert_visible s @ ins_slots s @ [t]" if "buffer_store ex t s = Return u s'"
    using buffer_store_Return [OF that] by (auto simp: insert_visible_def comp_def)
  show "buffer_ok s'" if "buffer_store ex t s = Return u s'"
    using buffer_store_Return [OF that] by (auto simp: buffer_ok_flushed)
  show "insert_visible s' = insert_visible s @ ins_slots s \<and> ins_slots s' = []" if "flush_buffer ex s = Return u s'"
    using flush_Return [OF that] by (auto simp: insert_visible_def comp_def)
qed

lemma insert_row_Return:
  assumes "\<not> is_foreign ex rri" "insert_row ex rri slot ins = Return c ins'"
  shows "c \<and> ins' = ins\<lparr>ins_log := ins_log ins @ [Stored rri slot, AfterInsert rri slot]\<rparr>
    \<and> table_insert_error ex rri slot = None \<and> ExecInsertIndexTuples ex (after_of (ins_log ins)) rri slot = None"
  using assms by (auto simp: insert_row_def after_insert_def bindO_eq_Return split: option.splits)

interpretation direct: row_store "\<lambda>t ins. bindO (insert_row (ex\<lparr>is_foreign := \<lambda>_. False\<rparr>) (ins_target ins) t ins) (\<lambda>_. Return ())"
    "Return ()" insert_visible ins_slots "\<lambda>ins. ins_slots ins = []" for ex
  by unfold_locales (auto simp: bindO_eq_Return insert_visible_def dest!: insert_row_Return [rotated])

section \<open>The effects of a received stream\<close>

definition row_effect :: "'v effect \<Rightarrow> bool" where
  "row_effect e \<longleftrightarrow> e \<noteq> BeforeStatement \<and> e \<noteq> AfterStatement"

lemma row_effect_simps [simp]:
  "row_effect (Stored r t)" "row_effect (AfterInsert r t)" "row_effect (ForeignStored r t)"
  "row_effect (InsteadOf r t)"
  by (simp_all add: row_effect_def)

text \<open>The invariant of the loop, with the count \<open>n\<close> it keeps.\<close>

definition loop_inv :: "nat \<Rightarrow> 'v nativeInsert \<Rightarrow> bool" where
  "loop_inv n ins \<longleftrightarrow> n = counted (ins_log ins) + length (ins_slots ins)
     \<and> stored_of (ins_log ins) = after_of (ins_log ins) \<and> buffer_ok ins
     \<and> (\<not> ins_buffered ins \<longrightarrow> ins_slots ins = [])
     \<and> (\<exists>mid. ins_log ins = BeforeStatement # mid \<and> list_all row_effect mid)"

lemma list_all_map_effects [simp]:
  "list_all row_effect (map (Stored r) ts)" "list_all row_effect (map (AfterInsert r) ts)"
  by (induction ts) simp_all

lemma flushed_log: "\<exists>mid. ins_log ins = BeforeStatement # mid \<and> list_all row_effect mid
    \<Longrightarrow> \<exists>mid. ins_log (flushed ins) = BeforeStatement # mid \<and> list_all row_effect mid"
  by (auto simp: flushed_def)

lemma flush_buffer_inv:
  assumes "loop_inv n ins" "flush_buffer ex ins = Return u ins'"
  shows "loop_inv n ins'" "ins_slots ins' = []"
proof -
  have f: "ins' = flushed ins" using flush_Return [OF assms(2)] by simp
  show "ins_slots ins' = []" by (simp add: f)
  have "buffer_ok (flushed ins)" using assms(1) buffer_ok_flushed [of ins] by (cases "ins_slots ins = []") (auto simp: loop_inv_def flushed_def)
  then show "loop_inv n ins'" using assms(1) flushed_log [of ins] by (simp add: f loop_inv_def)
qed

lemma buffer_store_inv:
  assumes "loop_inv n ins" "ins_buffered ins" "buffer_store ex slot ins = Return u ins'"
  shows "loop_inv (Suc n) ins'"
proof -
  have b: "buffer_ok ins'" using assms buffered.store_inv by (auto simp: loop_inv_def)
  from buffer_store_Return [OF assms(3)] show ?thesis
  proof
    assume "ins' = with_slot ex slot ins \<and> buffer_ok ins'"
    then have "ins' = with_slot ex slot ins" "buffer_ok (with_slot ex slot ins)" by auto
    with assms(1,2) show ?thesis by (simp add: loop_inv_def)
  next
    assume "ins' = flushed (with_slot ex slot ins)"
    with assms(1,2) b flushed_log [of "with_slot ex slot ins"] show ?thesis by (simp add: loop_inv_def)
  qed
qed

lemma insert_row_inv:
  assumes "loop_inv n ins" "\<not> ins_buffered ins" "insert_row ex rri slot ins = Return c ins'"
  shows "loop_inv (if c then Suc n else n) ins'"
proof (cases "is_foreign ex rri")
  case True
  with assms show ?thesis by (auto simp: loop_inv_def insert_row_def buffer_ok_def Let_def split: sum.splits option.splits)
next
  case False
  from insert_row_Return [OF False assms(3)] assms(1,2) show ?thesis by (auto simp: loop_inv_def buffer_ok_def)
qed

lemma store_row_inv:
  assumes "loop_inv n ins" "store_row ex proute rri slot ins = Return c ins'"
  shows "loop_inv (if c then Suc n else n) ins'"
proof (cases "ins_instead_row ins")
  case True
  with assms show ?thesis by (auto simp: store_row_def loop_inv_def buffer_ok_def split: option.splits)
next
  case False
  then obtain slot' where "check_row ex (ins_log ins) proute (ins_before_row ins) rri slot = Inr slot'"
    using assms(2) by (auto simp: store_row_def split: sum.splits)
  with False assms buffer_store_inv [OF assms(1), of ex slot'] insert_row_inv [OF assms(1), of ex rri slot' c ins']
  show ?thesis by (auto simp: store_row_def bindO_eq_Return split: if_splits)
qed

lemma route_row_inv:
  "loop_inv n ins \<Longrightarrow> route_row ex proute slot ins = Return x ins' \<Longrightarrow> loop_inv n ins'"
  by (auto simp: route_row_def loop_inv_def buffer_ok_def split: if_splits sum.splits)

lemma receive_row_inv:
  assumes "loop_inv n ins" "receive_row ex proute slot ins = Return c ins'"
  shows "loop_inv (if c then Suc n else n) ins'"
proof -
  obtain rri s1 ins1 where r: "route_row ex proute slot ins = Return (rri, s1) ins1"
    and k: "(if ins_before_row ins1 then
         (case ExecBRInsertTriggers ex (ins_log ins1) rri s1 of
            Inl e \<Rightarrow> Raise e ins1
          | Inr None \<Rightarrow> Return False ins1
          | Inr (Some slot) \<Rightarrow> store_row ex proute rri slot ins1)
       else store_row ex proute rri s1 ins1) = Return c ins'"
    using assms(2) unfolding receive_row_def bindO_eq_Return by auto
  note i = route_row_inv [OF assms(1) r]
  show ?thesis
    using k i by (auto split: if_splits sum.splits option.splits dest!: store_row_inv [OF i])
qed

lemma receive_rows_inv:
  "loop_inv n ins \<Longrightarrow> receive_rows ex proute slot_of rs k n ins = Return m ins' \<Longrightarrow> loop_inv m ins'"
proof (induction ex proute slot_of rs k n ins rule: receive_rows.induct)
  case (3 ex proute slot_of vals rs k rows ins)
  then obtain slot c ins1 where b: "slot_of (ins_log ins) k vals = Inr slot"
    and r: "receive_row ex proute slot ins = Return c ins1"
    "receive_rows ex proute slot_of rs (k + 1) (if c then rows + 1 else rows) ins1 = Return m ins'"
    by (auto simp: bindO_eq_Return split: sum.splits)
  with receive_row_inv [OF "3.prems"(1) r(1)] "3.IH" [OF b, of c ins1] show ?case by (cases c) simp_all
qed simp_all

lemma new_insert_inv: "loop_inv 0 ((new_insert ex rel)\<lparr>ins_log := [BeforeStatement]\<rparr>)"
  by (simp add: loop_inv_def new_insert_def Let_def buffer_ok_def CHDB_MAX_BUFFERED_TUPLES_def CHDB_MAX_BUFFERED_BYTES_def)

lemma copy_receive_Return:
  assumes "chdb_copy_receive ex rel attnums dflt eval reader = Return n log"
  shows "rd_init_error reader = None \<and> (if rd_columns reader = 0 then n = 0 \<and> log = []
    else rd_columns reader = length attnums \<and> rd_end_error reader = None
      \<and> n = counted log \<and> stored_of log = after_of log
      \<and> (\<exists>mid. log = BeforeStatement # mid @ [AfterStatement] \<and> list_all row_effect mid))"
proof (cases "rd_columns reader = 0 \<or> rd_init_error reader \<noteq> None")
  case True
  with assms show ?thesis by (auto simp: chdb_copy_receive_def split: option.splits)
next
  case False
  let ?slot = "\<lambda>log k vals. map_sum id (\<lambda>ev. build_slot (rd_att rel) attnums (defaults_for (rd_att rel) dflt attnums) ev vals) (eval log k)"
  let ?ins = "(new_insert ex rel)\<lparr>ins_log := [BeforeStatement]\<rparr>"
  obtain last where r: "insert_stream ex rel ?slot reader = Return n last" "log = ins_log last"
    and e: "rd_columns reader = length attnums" "rd_init_error reader = None"
    using assms False by (auto simp: chdb_copy_receive_def Let_def split: option.splits if_splits outcome.splits)
  obtain ins where i: "receive_rows ex (rd_relkind rel = RELKIND_PARTITIONED_TABLE) ?slot (rd_rows reader) 0 0 ?ins = Return n ins"
    and f: "finish_insert ex reader n ins = Return n last"
    using r(1) by (auto simp: insert_stream_def Let_def bindO_eq_Return finish_insert_def split: option.splits)
  obtain u full where g: "flush_buffer ex ins = Return u full" "rd_end_error reader = None"
    "ins_log last = ins_log full @ [AfterStatement]"
    using f by (auto simp: finish_insert_def bindO_eq_Return split: option.splits)
  have "loop_inv n full" "ins_slots full = []"
    using flush_buffer_inv [OF receive_rows_inv [OF new_insert_inv i] g(1)] by simp_all
  with e r(2) g False show ?thesis by (auto simp: loop_inv_def)
qed

text \<open>
  C26. A COPY FROM that returns a count has no row left in its buffer and has missed no error of
  the stream: the reader ended without one, and the effects are the statement triggers around the
  rows' own effects, in which exactly the counted rows were stored, handed to a foreign table or
  given to an INSTEAD OF trigger, and the rows that got their index entries and AFTER ROW triggers
  are exactly the stored rows, in the same order. A stream without columns does nothing at all.
\<close>

theorem copy_receive_effects:
  assumes "chdb_copy_receive ex rel attnums dflt eval reader = Return n log"
  shows "rd_init_error reader = None \<and> (if rd_columns reader = 0 then n = 0 \<and> log = []
    else rd_columns reader = length attnums \<and> rd_end_error reader = None
      \<and> n = counted log \<and> stored_of log = after_of log
      \<and> (\<exists>mid. log = BeforeStatement # mid @ [AfterStatement] \<and> list_all row_effect mid))"
  using assms by (rule copy_receive_Return)

theorem copy_receive_effects_witness:
  "\<exists>log. chdb_copy_receive plain_executor plain_table [2] (\<lambda>a. if a = 1 then Some () else None) (\<lambda>log k. Inr (\<lambda>e. Some ''d'')) plain_reader
     = Return 3 log \<and> counted log = 3 \<and> stored_of log = after_of log"
proof -
  obtain log where r: "chdb_copy_receive plain_executor plain_table [2] (\<lambda>a. if a = 1 then Some () else None) (\<lambda>log k. Inr (\<lambda>e. Some ''d'')) plain_reader
     = Return 3 log"
    by (simp add: receive_eval plain_defs)
  from copy_receive_effects [OF r] r show ?thesis by (auto simp: plain_reader_def)
qed

section \<open>Buffering is invisible\<close>

text \<open>
  The same loop with and without the buffer, on a target that may be buffered. The unbuffered
  run is the reference: one row is stored, indexed and given to its triggers before the next. As
  long as the reference has not failed, the rows in the buffer can be stored; once it has, the
  buffered run is doomed: the rows in its buffer cannot be stored any more.
\<close>

definition unbuffered :: "'v nativeInsert \<Rightarrow> 'v nativeInsert" where
  "unbuffered ins = ins\<lparr>ins_buffered := False\<rparr>"

definition plain_target :: "'v executor \<Rightarrow> 'v nativeInsert \<Rightarrow> bool" where
  "plain_target ex ins \<longleftrightarrow> \<not> ins_before_row ins \<and> \<not> ins_instead_row ins \<and> \<not> is_foreign ex (ins_target ins)"

definition same_rows :: "'v executor \<Rightarrow> 'v nativeInsert \<Rightarrow> 'v nativeInsert \<Rightarrow> bool" where
  "same_rows ex ins ref \<longleftrightarrow> ins_buffered ins \<and> \<not> ins_buffered ref \<and> ins_target ref = ins_target ins
     \<and> plain_target ex ins \<and> plain_target ex ref \<and> ok_pending ex ins
     \<and> stored_of (ins_log ref) = stored_of (ins_log ins) @ map (Pair (ins_target ins)) (ins_slots ins)
     \<and> after_of (ins_log ref) = after_of (ins_log ins) @ map (Pair (ins_target ins)) (ins_slots ins)"

definition doomed :: "'v executor \<Rightarrow> 'v nativeInsert \<Rightarrow> bool" where
  "doomed ex ins \<longleftrightarrow> ins_buffered ins \<and> plain_target ex ins \<and> \<not> ok_pending ex ins"

text \<open>
  What the rows and the checks on them do not depend on: neither a default nor a constraint looks at
  what has been stored so far.
\<close>

definition table_blind :: "'v executor \<Rightarrow> ('v effect list \<Rightarrow> nat \<Rightarrow> 'v option list \<Rightarrow> pg_error + 'v tuple) \<Rightarrow> bool" where
  "table_blind ex slot_of \<longleftrightarrow> (\<forall>log log' k vals. slot_of log k vals = slot_of log' k vals)
     \<and> (\<forall>log log' rri t. ExecConstraints ex log rri t = ExecConstraints ex log' rri t)"

lemma blind_slot: "table_blind ex slot_of \<Longrightarrow> slot_of log k vals = slot_of log' k vals"
  unfolding table_blind_def by blast

lemma blind_check:
  assumes "table_blind ex slot_of"
  shows "check_row ex log p b rri t = check_row ex log' p b rri t"
proof -
  have "ExecConstraints ex log = ExecConstraints ex log'" using assms unfolding table_blind_def by (intro ext) blast
  then show ?thesis unfolding check_row_def by simp
qed

text \<open>The errors that storing a row may meet.\<close>

definition stores_always :: "'v executor \<Rightarrow> bool" where
  "stores_always ex \<longleftrightarrow> (\<forall>rri t. table_insert_error ex rri t = None) \<and> (\<forall>after rri t. ExecInsertIndexTuples ex after rri t = None)"

lemma ok_pending_snoc:
  "ok_pending ex (with_slot ex slot ins) \<longleftrightarrow> ok_pending ex ins \<and> table_insert_error ex (ins_target ins) slot = None
     \<and> ExecInsertIndexTuples ex (after_of (ins_log ins) @ map (Pair (ins_target ins)) (ins_slots ins)) (ins_target ins) slot = None"
  by (simp add: ok_pending_def)

lemma plain_step:
  assumes "plain_target ex ins"
  shows "receive_row ex False slot ins =
    (case check_row ex (ins_log ins) False False (ins_target ins) slot of
       Inl e \<Rightarrow> Raise e ins
     | Inr s \<Rightarrow> if ins_buffered ins then bindO (buffer_store ex s ins) (\<lambda>_. Return True) else insert_row ex (ins_target ins) s ins)"
  using assms by (simp add: receive_row_def route_row_def store_row_def plain_target_def)

lemma plain_target_store:
  assumes "buffer_store ex slot ins = Return u ins'" "plain_target ex ins"
  shows "plain_target ex ins'" "ins_buffered ins' = ins_buffered ins" "ins_target ins' = ins_target ins"
  using buffer_store_Return [OF assms(1)] assms(2) by (auto simp: plain_target_def)

lemma doomed_step:
  assumes "doomed ex ins"
  shows "(\<exists>e i. receive_row ex False slot ins = Raise e i) \<or> (\<exists>i. receive_row ex False slot ins = Return True i \<and> doomed ex i)"
proof (cases "check_row ex (ins_log ins) False False (ins_target ins) slot")
  case (Inl e)
  with assms show ?thesis by (simp add: plain_step doomed_def)
next
  case (Inr s)
  have d: "\<not> ok_pending ex (with_slot ex s ins)" using assms by (simp add: ok_pending_snoc doomed_def)
  from buffer_store_cases [of ex s ins] show ?thesis
  proof
    assume b: "buffer_store ex s ins = Return () (with_slot ex s ins) \<and> buffer_ok (with_slot ex s ins)"
    with assms d have "doomed ex (with_slot ex s ins)" by (simp add: doomed_def plain_target_def)
    with assms Inr b show ?thesis by (simp add: plain_step doomed_def)
  next
    assume "buffer_store ex s ins = flush_buffer ex (with_slot ex s ins)"
    with assms Inr flush_raises [OF d] show ?thesis by (auto simp: plain_step doomed_def)
  qed
qed

lemma doomed_loop:
  "doomed ex ins \<Longrightarrow> \<exists>e i. bindO (receive_rows ex False slot_of rs k n ins) (\<lambda>m t. bindO (flush_buffer ex t) (\<lambda>_. Return m)) = Raise e i"
proof (induction rs arbitrary: k n ins)
  case Nil
  then show ?case using flush_raises [of ex ins] by (auto simp: doomed_def)
next
  case (Cons r rs)
  show ?case
  proof (cases r)
    case (Inr vals)
    show ?thesis
    proof (cases "slot_of (ins_log ins) k vals")
      case (Inr slot)
      from doomed_step [OF Cons.prems, of slot] Cons.IH show ?thesis by (auto simp: Inr \<open>r = Inr vals\<close>)
    qed (simp add: Inr)
  qed simp
qed

lemma same_rows_step:
  assumes "same_rows ex ins ref" and blind: "table_blind ex slot_of"
  obtains (refused) e where "receive_row ex False slot ins = Raise e ins" "receive_row ex False slot ref = Raise e ref"
    | (stored) i r where "receive_row ex False slot ins = Return True i" "receive_row ex False slot ref = Return True r" "same_rows ex i r"
    | (failed) e e' i r where "receive_row ex False slot ins = Raise e i" "receive_row ex False slot ref = Raise e' r" "\<not> stores_always ex"
    | (late) e r i where "receive_row ex False slot ins = Return True i" "receive_row ex False slot ref = Raise e r" "doomed ex i"
        "\<not> stores_always ex"
proof (cases "check_row ex (ins_log ins) False False (ins_target ins) slot")
  case (Inl e)
  with assms blind_check [OF blind, of "ins_log ins" _ _ _ _ "ins_log ref"] show thesis
    using refused by (simp add: plain_step same_rows_def)
next
  case (Inr s)
  let ?t = "ins_target ins" and ?w = "with_slot ex s ins"
  have p: "plain_target ex ins" "plain_target ex ref" "ins_buffered ins" "\<not> ins_buffered ref" "ins_target ref = ?t"
    "\<not> is_foreign ex ?t" using assms by (auto simp: same_rows_def plain_target_def)
  have a: "after_of (ins_log ref) = after_of (ins_log ins) @ map (Pair ?t) (ins_slots ins)" "ok_pending ex ins"
    using assms by (simp_all add: same_rows_def)
  have i: "receive_row ex False slot ins = bindO (buffer_store ex s ins) (\<lambda>_. Return True)"
    and r: "receive_row ex False slot ref = insert_row ex ?t s ref"
    using p Inr blind_check [OF blind, of "ins_log ins" _ _ _ _ "ins_log ref"] by (simp_all add: plain_step)
  show thesis
  proof (cases "table_insert_error ex ?t s = None \<and> ExecInsertIndexTuples ex (after_of (ins_log ref)) ?t s = None")
    case True
    let ?r = "ref\<lparr>ins_log := ins_log ref @ [Stored ?t s, AfterInsert ?t s]\<rparr>"
    have ok: "ok_pending ex ?w" using True a by (simp add: ok_pending_snoc)
    have r': "insert_row ex ?t s ref = Return True ?r" using True p(6) by (simp add: insert_row_def after_insert_def)
    obtain j where j: "buffer_store ex s ins = Return () j" "j = ?w \<or> j = flushed ?w"
      using buffer_store_cases [of ex s ins] flush_ok [OF ok] by auto
    have pl: "plain_target ex ?r" "plain_target ex ?w" "plain_target ex (flushed ?w)" using p by (simp_all add: plain_target_def)
    have "ok_pending ex (flushed ?w)" by (simp add: ok_pending_def)
    with j(2) ok pl p assms have "same_rows ex j ?r" by (auto simp: same_rows_def)
    with stored i r r' j(1) show thesis by simp
  next
    case False
    then have d: "\<not> ok_pending ex ?w" using a by (simp add: ok_pending_snoc)
    have n: "\<not> stores_always ex" using False by (auto simp: stores_always_def)
    obtain e r' where x: "insert_row ex ?t s ref = Raise e r'"
      using False p(6)
      by (cases "table_insert_error ex ?t s") (auto simp: insert_row_def after_insert_def)
    from buffer_store_cases [of ex s ins] show thesis
    proof
      assume b: "buffer_store ex s ins = Return () ?w \<and> buffer_ok ?w"
      with d p have "doomed ex ?w" by (simp add: doomed_def plain_target_def)
      with late i r x b n show thesis by simp
    next
      assume "buffer_store ex s ins = flush_buffer ex ?w"
      with flush_raises [OF d] failed i r x n show thesis by auto
    qed
  qed
qed

definition both_end :: "'v executor \<Rightarrow> (nat, 'v nativeInsert) outcome \<Rightarrow> (nat, 'v nativeInsert) outcome \<Rightarrow> bool" where
  "both_end ex r r' \<longleftrightarrow>
     (case (r, r') of
        (Return m i, Return m' i') \<Rightarrow> m = m' \<and> stored_of (ins_log i) = stored_of (ins_log i') \<and> after_of (ins_log i) = after_of (ins_log i')
      | (Raise e i, Raise e' i') \<Rightarrow> stores_always ex \<longrightarrow> e = e'
      | _ \<Rightarrow> False)"

lemma both_end_raise: "\<not> stores_always ex \<Longrightarrow> both_end ex (Raise e i) (Raise e' i')" "both_end ex (Raise e i) (Raise e i')"
  by (simp_all add: both_end_def)

lemma same_rows_loop:
  "same_rows ex ins ref \<Longrightarrow> table_blind ex slot_of \<Longrightarrow>
     both_end ex (bindO (receive_rows ex False slot_of rs k n ins) (\<lambda>m t. bindO (flush_buffer ex t) (\<lambda>_. Return m)))
       (receive_rows ex False slot_of rs k n ref)"
proof (induction rs arbitrary: k n ins ref)
  case Nil
  then show ?case using flush_ok [of ex ins] by (simp add: both_end_def same_rows_def)
next
  case (Cons r rs)
  show ?case
  proof (cases r)
    case vals: (Inr vals)
    have b: "slot_of (ins_log ref) k vals = slot_of (ins_log ins) k vals" using Cons.prems(2) by (rule blind_slot)
    show ?thesis
    proof (cases "slot_of (ins_log ins) k vals")
      case (Inl e)
      with b show ?thesis by (simp add: vals both_end_def)
    next
      case (Inr slot)
      from Cons.prems show ?thesis
      proof (cases rule: same_rows_step [of ex ins ref slot_of slot])
        case (late e j i)
        with doomed_loop [OF late(3), of slot_of rs "k + 1" "n + 1"] b Inr show ?thesis by (auto simp: vals both_end_def)
      qed (use Cons.IH [OF _ Cons.prems(2)] b Inr in \<open>simp_all add: vals both_end_raise\<close>)
    qed
  qed (simp add: both_end_def)
qed

text \<open>
  C27. As long as no default and no constraint looks at the table, the multi-insert buffer is an
  optimisation only. On any target it is used for, the buffered loop
  with its final flush and the row-by-row loop either both fail, whatever row, default, constraint, table,
  index or trigger the failure comes from, or return the same count with the same rows stored in the same
  order, and their AFTER ROW work done in the same order. When storing and indexing cannot fail,
  they also fail with the same error.
\<close>

theorem buffering_invisible:
  assumes "ins_buffered (new_insert ex rel)" and "table_blind ex slot_of"
  defines "ins \<equiv> (new_insert ex rel)\<lparr>ins_log := [BeforeStatement]\<rparr>"
  shows "case (bindO (receive_rows ex False slot_of rs 0 0 ins) (\<lambda>m t. bindO (flush_buffer ex t) (\<lambda>_. Return m)),
            receive_rows ex False slot_of rs 0 0 (unbuffered ins)) of
      (Return m i, Return m' r) \<Rightarrow> m = m' \<and> stored_of (ins_log i) = stored_of (ins_log r)
        \<and> after_of (ins_log i) = after_of (ins_log r)
    | (Raise e i, Raise e' r) \<Rightarrow> stores_always ex \<longrightarrow> e = e'
    | _ \<Rightarrow> False"
proof -
  have "same_rows ex ins (unbuffered ins)"
    using assms(1) by (simp add: ins_def unbuffered_def same_rows_def new_insert_def Let_def plain_target_def ok_pending_def)
  from same_rows_loop [OF this assms(2), of rs 0 0] show ?thesis by (simp add: both_end_def)
qed

theorem buffering_invisible_witness:
  "ins_buffered (new_insert plain_executor plain_table) \<and> table_blind plain_executor (\<lambda>log k v. Inr v)
   \<and> (case (bindO (receive_rows plain_executor False (\<lambda>log k v. Inr v) (rd_rows plain_reader) 0 0
              ((new_insert plain_executor plain_table)\<lparr>ins_log := [BeforeStatement]\<rparr>))
              (\<lambda>m t. bindO (flush_buffer plain_executor t) (\<lambda>_. Return m)),
            receive_rows plain_executor False (\<lambda>log k v. Inr v) (rd_rows plain_reader) 0 0
              (unbuffered ((new_insert plain_executor plain_table)\<lparr>ins_log := [BeforeStatement]\<rparr>))) of
      (Return m i, Return m' r) \<Rightarrow> m = m' \<and> stored_of (ins_log i) = stored_of (ins_log r)
        \<and> after_of (ins_log i) = after_of (ins_log r)
    | (Raise e i, Raise e' r) \<Rightarrow> stores_always plain_executor \<longrightarrow> e = e'
    | _ \<Rightarrow> False)"
proof -
  have b: "ins_buffered (new_insert plain_executor plain_table)" by (simp add: new_insert_def plain_defs Let_def)
  have t: "table_blind plain_executor (\<lambda>log k v. Inr v)" by (simp add: table_blind_def plain_executor_def)
  show ?thesis by (rule conjI [OF b conjI [OF t buffering_invisible [OF b t]]])
qed

section \<open>Defaults that look at the table\<close>

text \<open>
  A default whose function reads the target table: the row is built from the rows the table has, and row
  by row each of them then sees the ones before it.
\<close>

fun build_on :: "('v tuple list \<Rightarrow> 'v option list \<Rightarrow> 'v tuple) \<Rightarrow> 'v tuple list \<Rightarrow> 'v option list list \<Rightarrow> 'v tuple list" where
  "build_on g table [] = []"
| "build_on g table (v # vs) = g table v # build_on g (table @ [g table v]) vs"

text \<open>Checks that let every row through as it is, with nothing that makes storing it fail.\<close>

definition lenient_target :: "'v executor \<Rightarrow> nat \<Rightarrow> bool" where
  "lenient_target ex rri \<longleftrightarrow> stores_always ex \<and> (\<forall>log t. check_row ex log False False rri t = Inr t)"

lemma lenient_insert:
  assumes "lenient_target ex (ins_target ins)" "plain_target ex ins" "\<not> ins_buffered ins"
  shows "receive_row ex False t ins
    = Return True (ins\<lparr>ins_log := ins_log ins @ [Stored (ins_target ins) t, AfterInsert (ins_target ins) t]\<rparr>)"
  using assms by (simp add: plain_step lenient_target_def stores_always_def insert_row_def after_insert_def plain_target_def)

lemma unbuffered_builds:
  assumes "\<And>log k vals. slot_of log k vals = Inr (g (map snd (stored_of log)) vals)"
  shows "lenient_target ex (ins_target ins) \<Longrightarrow> plain_target ex ins \<Longrightarrow> \<not> ins_buffered ins \<Longrightarrow>
    \<exists>r. receive_rows ex False slot_of (map Inr rows) k n ins = Return (n + length rows) r
      \<and> insert_visible r = insert_visible ins @ build_on g (insert_visible ins) rows"
proof (induction rows arbitrary: k n ins)
  case (Cons v vs)
  let ?t = "g (insert_visible ins) v"
  let ?j = "ins\<lparr>ins_log := ins_log ins @ [Stored (ins_target ins) ?t, AfterInsert (ins_target ins) ?t]\<rparr>"
  have "plain_target ex ?j" "insert_visible ?j = insert_visible ins @ [?t]"
    using Cons.prems(2) by (simp_all add: plain_target_def insert_visible_def)
  with Cons.IH [of ?j "k + 1" "n + 1"] Cons.prems lenient_insert [OF Cons.prems(1-3), of ?t] show ?case
    by (simp add: assms insert_visible_def)
qed simp

lemma buffered_builds:
  assumes "\<And>log k vals. slot_of log k vals = Inr (g (map snd (stored_of log)) vals)"
  shows "lenient_target ex (ins_target ins) \<Longrightarrow> plain_target ex ins \<Longrightarrow> ins_buffered ins
    \<Longrightarrow> length (ins_slots ins) + length rows < CHDB_MAX_BUFFERED_TUPLES
    \<Longrightarrow> ins_bytes ins + (\<Sum>v\<leftarrow>rows. heap_compute_data_size ex (g (insert_visible ins) v)) < CHDB_MAX_BUFFERED_BYTES
    \<Longrightarrow> \<exists>i. receive_rows ex False slot_of (map Inr rows) k n ins = Return (n + length rows) i
      \<and> ins_slots i = ins_slots ins @ map (g (insert_visible ins)) rows \<and> ins_log i = ins_log ins \<and> ins_target i = ins_target ins"
proof (induction rows arbitrary: k n ins)
  case (Cons v vs)
  let ?t = "g (insert_visible ins) v"
  let ?j = "with_slot ex ?t ins"
  have j: "plain_target ex ?j" "insert_visible ?j = insert_visible ins" "buffer_store ex ?t ins = Return () ?j"
    using Cons.prems by (simp_all add: plain_target_def insert_visible_def buffer_store_def with_slot_def Let_def)
  have s: "receive_row ex False ?t ins = Return True ?j"
    using Cons.prems(1-3) j(3) by (simp add: plain_step lenient_target_def)
  have b: "ins_bytes ?j = ins_bytes ins + heap_compute_data_size ex ?t" by (simp add: with_slot_def)
  from Cons.IH [of ?j "k + 1" "n + 1"] Cons.prems j s b show ?case
    by (simp add: assms insert_visible_def [symmetric])
qed simp

text \<open>
  The multi-insert buffer can be seen by a default that looks at the table. In a stream that fits
  into one batch, every row is built from the table as the statement found it, for the rows before it are
  still in the buffer; stored one by one, each row would be built from the table with the rows before it.
  The loop takes the buffer whether or not a default is volatile.
\<close>

theorem default_misses_buffer:
  assumes "ins_buffered (new_insert ex rel)" and "lenient_target ex (relid rel)"
    and "\<And>log k vals. slot_of log k vals = Inr (g (map snd (stored_of log)) vals)"
    and "length rows < CHDB_MAX_BUFFERED_TUPLES"
    and "(\<Sum>v\<leftarrow>rows. heap_compute_data_size ex (g [] v)) < CHDB_MAX_BUFFERED_BYTES"
  defines "ins \<equiv> (new_insert ex rel)\<lparr>ins_log := [BeforeStatement]\<rparr>"
  shows "\<exists>i r. bindO (receive_rows ex False slot_of (map Inr rows) 0 0 ins) (\<lambda>m t. bindO (flush_buffer ex t) (\<lambda>_. Return m))
        = Return (length rows) i
      \<and> map snd (stored_of (ins_log i)) = map (g []) rows
      \<and> receive_rows ex False slot_of (map Inr rows) 0 0 (unbuffered ins) = Return (length rows) r
      \<and> map snd (stored_of (ins_log r)) = build_on g [] rows"
proof -
  have t: "ins_target ins = relid rel" "ins_buffered ins" "ins_slots ins = []" "ins_bytes ins = 0" "insert_visible ins = []"
    "plain_target ex ins" "plain_target ex (unbuffered ins)" "\<not> ins_buffered (unbuffered ins)"
    "ins_target (unbuffered ins) = relid rel" "insert_visible (unbuffered ins) = []"
    using assms(1) by (simp_all add: ins_def unbuffered_def new_insert_def Let_def plain_target_def insert_visible_def)
  obtain i where i: "receive_rows ex False slot_of (map Inr rows) 0 0 ins = Return (length rows) i"
    "ins_slots i = map (g []) rows" "insert_visible i = []"
    using buffered_builds [where g = g and slot_of = slot_of and ex = ex and ins = ins and rows = rows and k = 0 and n = 0, OF assms(3)] assms(2,4,5) t by (auto simp: insert_visible_def)
  have ok: "ok_pending ex i"
    using assms(2) by (simp add: ok_pending_def batch_ok_def lenient_target_def stores_always_def index_always list_all_iff)
  have "insert_visible (flushed i) = map (g []) rows" using i by (simp add: insert_visible_def comp_def)
  moreover obtain r where "receive_rows ex False slot_of (map Inr rows) 0 0 (unbuffered ins) = Return (length rows) r"
    "insert_visible r = build_on g [] rows"
    using unbuffered_builds [where g = g and slot_of = slot_of and ex = ex and ins = "unbuffered ins" and rows = rows and k = 0 and n = 0, OF assms(3)] assms(2) t by auto
  ultimately show ?thesis using i(1) flush_ok [OF ok] by (simp add: insert_visible_def)
qed

text \<open>A default that counts the rows of the table: 0 in every row, and 0, 1 without the buffer.\<close>

definition count_default :: "string tuple list \<Rightarrow> string tuple \<Rightarrow> string tuple" where
  "count_default table vals = vals @ [Some (dec (length table))]"

definition small_executor :: "string executor" where
  "small_executor = plain_executor\<lparr>heap_compute_data_size := \<lambda>t. 40\<rparr>"

theorem default_misses_buffer_witness:
  "\<exists>i r. bindO (receive_rows small_executor False (\<lambda>log k v. Inr (count_default (map snd (stored_of log)) v)) (map Inr [[Some ''x''], [Some ''y'']]) 0 0
          ((new_insert small_executor plain_table)\<lparr>ins_log := [BeforeStatement]\<rparr>)) (\<lambda>m t. bindO (flush_buffer small_executor t) (\<lambda>_. Return m))
        = Return 2 i
      \<and> map snd (stored_of (ins_log i)) = [[Some ''x'', Some ''0''], [Some ''y'', Some ''0'']]
      \<and> receive_rows small_executor False (\<lambda>log k v. Inr (count_default (map snd (stored_of log)) v)) (map Inr [[Some ''x''], [Some ''y'']]) 0 0
          (unbuffered ((new_insert small_executor plain_table)\<lparr>ins_log := [BeforeStatement]\<rparr>)) = Return 2 r
      \<and> map snd (stored_of (ins_log r)) = [[Some ''x'', Some ''0''], [Some ''y'', Some ''1'']]"
proof -
  have d: "dec 0 = ''0''" "dec (Suc 0) = ''1''" by code_simp+
  have l: "lenient_target small_executor (relid plain_table)"
    by (simp add: lenient_target_def stores_always_def small_executor_def plain_executor_def check_row_def error_simps)
  have b: "ins_buffered (new_insert small_executor plain_table)"
    by (simp add: small_executor_def new_insert_def plain_defs Let_def)
  have n: "length [[Some ''x''], [Some ''y'']] = 2"
    and m: "map (count_default []) [[Some ''x''], [Some ''y'']] = [[Some ''x'', Some ''0''], [Some ''y'', Some ''0'']]"
    and t: "build_on count_default [] [[Some ''x''], [Some ''y'']] = [[Some ''x'', Some ''0''], [Some ''y'', Some ''1'']]"
    by (simp_all add: count_default_def d)
  have len: "length [[Some ''x''], [Some ''y'']] < CHDB_MAX_BUFFERED_TUPLES"
    and sum: "(\<Sum>v\<leftarrow>[[Some ''x''], [Some ''y'']]. heap_compute_data_size small_executor (count_default [] v)) < CHDB_MAX_BUFFERED_BYTES"
    by (simp_all add: CHDB_MAX_BUFFERED_TUPLES_def CHDB_MAX_BUFFERED_BYTES_def small_executor_def)
  show ?thesis
    by (rule default_misses_buffer [where g = count_default and rows = "[[Some ''x''], [Some ''y'']]"
        and slot_of = "\<lambda>log k v. Inr (count_default (map snd (stored_of log)) v)", OF b l refl len sum, unfolded n m t])
qed

end
