(* ===== verification/Url.thy ===== *)
theory Url
  imports Copy_Context
begin

text \<open>
  How \<open>src/hook/copy.c\<close> takes URLs apart: the S3 and GCS forms rewritten for the table
  functions, \<open>parse_azure_url\<close>, and \<open>get_local_path_from_file_url\<close>. PostgreSQL's portability
  functions (case-insensitive comparison, the test for an absolute path) are parameters.
\<close>

section \<open>Parameters\<close>

text \<open>
  \<open>strncaseeq a b n\<close>: \<open>pg_strncasecmp(a, b, n) == 0\<close>; \<open>strcaseeq\<close>: \<open>pg_strcasecmp\<close> likewise;
  \<open>absolute_path\<close>: \<open>is_absolute_path\<close>.
\<close>

record pg_port =
  strncaseeq :: "string \<Rightarrow> string \<Rightarrow> nat \<Rightarrow> bool"
  strcaseeq :: "string \<Rightarrow> string \<Rightarrow> bool"
  absolute_path :: "string \<Rightarrow> bool"

text \<open>Documented behaviour of \<open>pg_strncasecmp\<close>: equal heads compare equal.\<close>

definition strncaseeq_refl :: "pg_port \<Rightarrow> bool" where
  "strncaseeq_refl P \<longleftrightarrow> (\<forall>a b n. take n a = take n b \<longrightarrow> strncaseeq P a b n)"

section \<open>S3 and GCS\<close>

definition GCS_HOST :: string where "GCS_HOST = ''storage.googleapis.com''"
definition AWS_HOST :: string where "AWS_HOST = ''.amazonaws.com''"

text \<open>
  \<open>table_function[]\<close>. The array has no entry for \<open>no_scheme\<close>: the hooks take over a statement only when its URL has
  one of the other schemes (\<open>copy_is_ours\<close>, \<open>create_from_url\<close>), so the last equation only makes the function total.
\<close>

fun table_function :: "scheme \<Rightarrow> string" where
  "table_function http_scheme = ''url''"
| "table_function s3_scheme = ''s3''"
| "table_function gcs_scheme = ''gcs''"
| "table_function az_scheme = ''azureBlobStorage''"
| "table_function abfs_scheme = ''azureBlobStorage''"
| "table_function file_scheme = ''file''"
| "table_function hdfs_scheme = ''hdfs''"
| "table_function no_scheme = []"

text \<open>\<open>strstr(url, "://")\<close> and the text behind it; NULL is an internal error.\<close>

definition after_scheme :: "string \<Rightarrow> string \<Rightarrow> pg_error + string" where
  "after_scheme what url =
     (case strstr url ''://'' of
        None \<Rightarrow> Inl (ereport ERRCODE_INTERNAL_ERROR (''chdb: malformed '' @ what @ '' URL '' @ url))
      | Some i \<Rightarrow> Inr (drop (i + 3) url))"

text \<open>The URL argument of \<open>s3()\<close>: a virtual-hosted AWS name becomes an https URL.\<close>

definition s3_url :: "pg_port \<Rightarrow> string \<Rightarrow> string \<Rightarrow> string" where
  "s3_url P url uri =
     (case strchr uri (CHR ''/'') of
        Some slash \<Rightarrow>
          if slash \<ge> length AWS_HOST
             \<and> strncaseeq P (drop (slash - length AWS_HOST) uri) AWS_HOST (length AWS_HOST)
          then ''https://'' @ uri else url
      | None \<Rightarrow> url)"

text \<open>The URL argument of \<open>gcs()\<close>: always https, with the public host put in front of a bucket.\<close>

definition gcs_url :: "pg_port \<Rightarrow> string \<Rightarrow> string" where
  "gcs_url P uri =
     (case strchr uri (CHR ''/'') of
        Some slash \<Rightarrow>
          if slash \<ge> length GCS_HOST \<and> strncaseeq P uri GCS_HOST (length GCS_HOST)
          then ''https://'' @ uri else ''https://'' @ GCS_HOST @ ''/'' @ uri
      | None \<Rightarrow> ''https://'' @ GCS_HOST @ ''/'' @ uri)"

section \<open>Azure\<close>

record azureURLParts =
  account_url :: string
  container :: string
  path :: string

abbreviation abfs_no_container :: pg_error where
  "abfs_no_container \<equiv> (ereport ERRCODE_INVALID_PARAMETER_VALUE
     ''chdb: Azure ABFS URL missing the container part'')
       \<lparr>errhint := Some ''abfs://<container>@<account>.dfs.core.windows.net/<path>''\<rparr>"

abbreviation az_no_host :: pg_error where
  "az_no_host \<equiv> (ereport ERRCODE_INVALID_PARAMETER_VALUE
     ''chdb: Azure URL missing the storage account host'')
       \<lparr>errhint := Some ''az://<account>.blob.core.windows.net/<container>/<path>''\<rparr>"

abbreviation az_no_container :: pg_error where
  "az_no_container \<equiv> (ereport ERRCODE_INVALID_PARAMETER_VALUE
     ''chdb: Azure URL missing the container name'')
       \<lparr>errhint := Some ''az://<account>.blob.core.windows.net/<container>/<path>''\<rparr>"

text \<open>\<open>psprintf("https://%s?%s", host, query)\<close>, without the query when there is none.\<close>

definition https_url :: "string \<Rightarrow> string option \<Rightarrow> string" where
  "https_url host query = ''https://'' @ host @ (case query of None \<Rightarrow> [] | Some q \<Rightarrow> ''?'' @ q)"

text \<open>The part before the first \<open>c\<close> and the part behind it, as \<open>strchr\<close> and \<open>pnstrdup\<close> give them.\<close>

definition cut_at :: "char \<Rightarrow> string \<Rightarrow> string \<times> string option" where
  "cut_at c s = (case strchr s c of None \<Rightarrow> (s, None) | Some i \<Rightarrow> (take i s, Some (drop (Suc i) s)))"

definition or_empty :: "string option \<Rightarrow> string" where
  "or_empty t = (case t of None \<Rightarrow> [] | Some s \<Rightarrow> s)"

definition parse_azure_url :: "chdbCopyContext \<Rightarrow> pg_error + azureURLParts" where
  "parse_azure_url ctx =
     bindE (after_scheme ''Azure'' (cx_url ctx)) (\<lambda>uri.
     let (uri, query) = cut_at (CHR ''?'') uri
     in if cx_scheme ctx = abfs_scheme then
          (case cut_at (CHR ''@'') uri of
             (_, None) \<Rightarrow> Inl abfs_no_container
           | (cont, Some host_and_path) \<Rightarrow>
               let (host, blob) = cut_at (CHR ''/'') host_and_path;
                   account = (if strchr host (CHR ''.'') \<noteq> None then host
                              else host @ ''.blob.core.windows.net'')
               in Inr \<lparr>account_url = https_url account query, container = cont,
                       path = or_empty blob\<rparr>)
        else
          (let (host, rest) = cut_at (CHR ''/'') uri
           in if strchr host (CHR ''.'') = None then Inl az_no_host
              else
                (let (cont, blob) = cut_at (CHR ''/'') (or_empty rest)
                 in if cont = [] then Inl az_no_container
                    else Inr \<lparr>account_url = https_url host query, container = cont,
                              path = or_empty blob\<rparr>)))"

section \<open>Local files\<close>

definition get_local_path_from_file_url :: "pg_port \<Rightarrow> string \<Rightarrow> pg_error + string" where
  "get_local_path_from_file_url P url =
     bindE (after_scheme ''file'' url) (\<lambda>p.
     bindE (guardE (absolute_path P p)
       (ereport ERRCODE_INVALID_NAME ''chdb: relative path not allowed for COPY to file URL''))
       (\<lambda>_. Inr p))"

section \<open>Cutting\<close>

lemma cut_at_absent [simp]: "c \<notin> set s \<Longrightarrow> cut_at c s = (s, None)"
  by (auto simp: cut_at_def strchr_None [symmetric])

lemma cut_at_append [simp]: "c \<notin> set a \<Longrightarrow> cut_at c (a @ c # b) = (a, Some b)"
  by (simp add: cut_at_def)

lemma cut_at_SomeD: "cut_at c s = (a, Some b) \<Longrightarrow> s = a @ c # b \<and> c \<notin> set a"
  using strchr_SomeD by (fastforce simp: cut_at_def split: option.splits)

lemma cut_at_NoneD: "cut_at c s = (a, None) \<Longrightarrow> s = a \<and> c \<notin> set a"
  by (auto simp: cut_at_def strchr_None split: option.splits)

lemma cut_at_subset:
  assumes "cut_at c s = (a, b)"
  shows "set a \<subseteq> set s" "set (or_empty b) \<subseteq> set s"
  using assms by (auto simp: cut_at_def or_empty_def split: option.splits
      dest: in_set_takeD in_set_dropD)

lemma cut_at_fst: "cut_at c s = (a, b) \<Longrightarrow> c \<notin> set a"
  by (cases b) (auto dest: cut_at_SomeD cut_at_NoneD)

lemma after_scheme_append [simp]:
  "CHR '':'' \<notin> set n \<Longrightarrow> after_scheme w (n @ CHR '':'' # CHR ''/'' # CHR ''/'' # uri) = Inr uri"
  using strstr_append [of "CHR '':''" n "''//''" uri] by (simp add: after_scheme_def)

lemma after_scheme_Inr:
  assumes "after_scheme w url = Inr uri"
  shows "\<exists>n. url = n @ ''://'' @ uri"
proof -
  obtain i where i: "strstr url ''://'' = Some i" "uri = drop (i + 3) url"
    using assms by (auto simp: after_scheme_def split: option.splits)
  from strstr_Some_split [OF i(1)] i(2) show ?thesis
    by (intro exI [of _ "take i url"]) (simp add: eval_nat_numeral)
qed

lemma strchr_eq_None [simp]: "(strchr s c = None) = (c \<notin> set s)"
  by (rule strchr_None)

section \<open>Properties of the URL forms\<close>

text \<open>
  An \<open>az://\<close> URL written as the documentation gives it, with or without a SAS token,
  splits into exactly its host, container, blob path and token.
\<close>

theorem parse_az_url:
  assumes "cx_scheme ctx = az_scheme"
    and "cx_url ctx = n @ ''://'' @ host @ ''/'' @ cont @ ''/'' @ blob
      @ (case sas of None \<Rightarrow> [] | Some q \<Rightarrow> ''?'' @ q)"
    and "CHR '':'' \<notin> set n"
    and "CHR ''?'' \<notin> set (host @ cont @ blob)" and "CHR ''/'' \<notin> set (host @ cont)"
    and "CHR ''.'' \<in> set host" and "cont \<noteq> []"
  shows "parse_azure_url ctx =
    Inr \<lparr>account_url = https_url host sas, container = cont, path = blob\<rparr>"
proof -
  let ?uri = "host @ ''/'' @ cont @ ''/'' @ blob"
  have "cut_at (CHR ''?'') (?uri @ (case sas of None \<Rightarrow> [] | Some q \<Rightarrow> ''?'' @ q)) = (?uri, sas)"
    using assms(4) cut_at_append [of "CHR ''?''" ?uri] by (cases sas) simp_all
  with assms show ?thesis by (simp add: parse_azure_url_def or_empty_def)
qed

definition az_example :: "string \<Rightarrow> scheme \<Rightarrow> chdbCopyContext" where
  "az_example url sch = \<lparr>cx_rel = None, cx_attnums = [], cx_perminfo = None, cx_scheme = sch,
     cx_cmd_type = CHDB_CMD_SELECT, cx_timeout = 30000, cx_max_memory = 0, cx_max_threads = 0,
     cx_max_parsers = 0, cx_encoding_check = CHC_ENC_FAIL, cx_url = url, cx_access_key = [],
     cx_access_secret = [], cx_session_token = [], cx_format = [], cx_structure = [],
     cx_compression = [], cx_preserve_nested = False\<rparr>"

theorem parse_az_url_witness:
  "parse_azure_url (az_example ''az://acct.blob.core.windows.net/box/dir/f.csv?sig=1'' az_scheme)
   = Inr \<lparr>account_url = ''https://acct.blob.core.windows.net?sig=1'', container = ''box'',
          path = ''dir/f.csv''\<rparr>"
  using parse_az_url [of "az_example ''az://acct.blob.core.windows.net/box/dir/f.csv?sig=1'' az_scheme"
      "''az''" "''acct.blob.core.windows.net''" "''box''" "''dir/f.csv''" "Some ''sig=1''"]
  by (simp add: az_example_def https_url_def)

text \<open>
  An \<open>abfs://\<close> URL splits into container, account and blob path; an account written
  without a domain is completed with the blob domain.
\<close>

theorem parse_abfs_url:
  assumes "cx_scheme ctx = abfs_scheme"
    and "cx_url ctx = n @ ''://'' @ cont @ ''@'' @ account @ ''/'' @ blob
      @ (case sas of None \<Rightarrow> [] | Some q \<Rightarrow> ''?'' @ q)"
    and "CHR '':'' \<notin> set n" and "CHR ''?'' \<notin> set (cont @ account @ blob)"
    and "CHR ''@'' \<notin> set cont" and "CHR ''/'' \<notin> set account"
  shows "parse_azure_url ctx =
    Inr \<lparr>account_url = https_url (if CHR ''.'' \<in> set account then account
           else account @ ''.blob.core.windows.net'') sas,
         container = cont, path = blob\<rparr>"
proof -
  let ?uri = "cont @ ''@'' @ account @ ''/'' @ blob"
  have "cut_at (CHR ''?'') (?uri @ (case sas of None \<Rightarrow> [] | Some q \<Rightarrow> ''?'' @ q)) = (?uri, sas)"
    using assms(4) cut_at_append [of "CHR ''?''" ?uri] by (cases sas) simp_all
  with assms show ?thesis by (simp add: parse_azure_url_def or_empty_def)
qed

theorem parse_abfs_url_witness:
  "parse_azure_url (az_example ''abfs://box@acct/f.csv'' abfs_scheme)
   = Inr \<lparr>account_url = ''https://acct.blob.core.windows.net'', container = ''box'', path = ''f.csv''\<rparr>"
  using parse_abfs_url [of "az_example ''abfs://box@acct/f.csv'' abfs_scheme" "''abfs''" "''box''"
      "''acct''" "''f.csv''" None]
  by (simp add: az_example_def https_url_def)

text \<open>
  Whatever the Azure URL, neither the container nor the blob path that reaches chDB has
  a question mark: the first one starts the SAS token, so the documented single-character
  wildcard \<open>?\<close> is not available in Azure paths.
\<close>

theorem azure_path_no_wildcard:
  assumes "parse_azure_url ctx = Inr parts"
  shows "CHR ''?'' \<notin> set (container parts) \<and> CHR ''?'' \<notin> set (path parts)"
proof -
  from assms obtain uri0 where u0: "after_scheme ''Azure'' (cx_url ctx) = Inr uri0"
    by (auto simp: parse_azure_url_def bindE_eq_Inr)
  obtain uri query where uq: "cut_at (CHR ''?'') uri0 = (uri, query)" by fastforce
  have no_q: "CHR ''?'' \<notin> set uri" using uq by (rule cut_at_fst)
  show ?thesis
  proof (cases "cx_scheme ctx = abfs_scheme")
    case True
    with assms u0 uq obtain cont hp where c: "cut_at (CHR ''@'') uri = (cont, Some hp)"
      by (auto simp: parse_azure_url_def Let_def split: prod.splits option.splits)
    obtain host blob where h: "cut_at (CHR ''/'') hp = (host, blob)" by fastforce
    have "set cont \<subseteq> set uri" "set (or_empty blob) \<subseteq> set uri"
      using cut_at_subset [OF c] cut_at_subset [OF h] by (auto simp: or_empty_def)
    with True assms u0 uq c h no_q show ?thesis by (auto simp: parse_azure_url_def Let_def)
  next
    case False
    obtain host rest where h: "cut_at (CHR ''/'') uri = (host, rest)" by fastforce
    obtain cont blob where c: "cut_at (CHR ''/'') (or_empty rest) = (cont, blob)" by fastforce
    have "set cont \<subseteq> set uri" "set (or_empty blob) \<subseteq> set uri"
      using cut_at_subset [OF c] cut_at_subset [OF h] by blast+
    with False assms u0 uq c h no_q show ?thesis
      by (auto simp: parse_azure_url_def split: if_splits)
  qed
qed

theorem azure_path_no_wildcard_witness:
  "parse_azure_url (az_example ''az://a.net/c/part_?.csv'' az_scheme)
     = Inr \<lparr>account_url = ''https://a.net?.csv'', container = ''c'', path = ''part_''\<rparr>
   \<and> CHR ''?'' \<notin> set ''part_''"
proof -
  have p: "parse_azure_url (az_example ''az://a.net/c/part_?.csv'' az_scheme)
     = Inr \<lparr>account_url = ''https://a.net?.csv'', container = ''c'', path = ''part_''\<rparr>"
    by (simp add: parse_azure_url_def az_example_def after_scheme_def cut_at_def or_empty_def
        https_url_def)
  from azure_path_no_wildcard [OF p] p show ?thesis by simp
qed

text \<open>
  The path of a \<open>file\<close> URL reaches chDB only when it is absolute, and is the text
  behind the scheme.
\<close>

theorem file_path_absolute:
  assumes "CHR '':'' \<notin> set n"
  shows "get_local_path_from_file_url P (n @ ''://'' @ p) =
    (if absolute_path P p then Inr p
     else Inl (ereport ERRCODE_INVALID_NAME ''chdb: relative path not allowed for COPY to file URL''))"
  using assms by (simp add: get_local_path_from_file_url_def)

definition unix_port :: pg_port where
  "unix_port = \<lparr>strncaseeq = (\<lambda>a b n. take n a = take n b), strcaseeq = (=),
     absolute_path = (\<lambda>p. p \<noteq> [] \<and> hd p = CHR ''/'')\<rparr>"

theorem file_path_absolute_witness:
  "get_local_path_from_file_url unix_port ''file:///tmp/x.csv'' = Inr ''/tmp/x.csv''"
  using file_path_absolute [of "''file''" unix_port "''/tmp/x.csv''"] by (simp add: unix_port_def)

text \<open>
  A bucket that does not begin with the public host is addressed under that host; the
  documented public form is passed on as https; and any host whose name merely begins with
  the public host name is taken for it and addressed directly.
\<close>

theorem gcs_url_forms:
  assumes "strncaseeq_refl P" and "CHR ''/'' \<notin> set bucket"
  shows "(\<not> strncaseeq P (bucket @ ''/'' @ p) GCS_HOST (length GCS_HOST)
       \<longrightarrow> gcs_url P (bucket @ ''/'' @ p) = ''https://'' @ GCS_HOST @ ''/'' @ bucket @ ''/'' @ p)
    \<and> gcs_url P (GCS_HOST @ bucket @ ''/'' @ p) = ''https://'' @ GCS_HOST @ bucket @ ''/'' @ p"
proof -
  have "CHR ''/'' \<notin> set (GCS_HOST @ bucket)" using assms(2) by (simp add: GCS_HOST_def)
  then have "strchr (GCS_HOST @ bucket @ CHR ''/'' # p) (CHR ''/'') = Some (length (GCS_HOST @ bucket))"
    using strchr_append [of "CHR ''/''" "GCS_HOST @ bucket" p] by simp
  moreover have "strncaseeq P (GCS_HOST @ bucket @ CHR ''/'' # p) GCS_HOST (length GCS_HOST)"
    using assms(1) by (simp add: strncaseeq_refl_def)
  ultimately show ?thesis using assms(2) by (simp add: gcs_url_def)
qed

theorem gcs_url_forms_witness:
  "gcs_url unix_port (GCS_HOST @ ''.example.org'' @ ''/'' @ ''k'')
     = ''https://storage.googleapis.com.example.org/k''"
  using gcs_url_forms [of unix_port "''.example.org''" "''k''"]
  by (simp add: strncaseeq_refl_def unix_port_def GCS_HOST_def)

end
