(* ===== verification/Ch_Query.thy ===== *)
theory Ch_Query
  imports Url
begin

text \<open>
  The query text and its parameters (\<open>src/hook/copy.c\<close>): the structure clause derived from
  the copied columns, its rewriting for formats that lack a type, and \<open>make_ch_query\<close>, which
  emits placeholders into the text and binds every caller-supplied string as a parameter.
\<close>

section \<open>The structure clause\<close>

text \<open>
  From pg-clickhouse-c: \<open>pgch_quote_ch_ident\<close>, and \<open>pgch_ch_type_for\<close> of a type, its
  modifier and whether the column is NOT NULL.
\<close>

record pgch_types =
  quote_ch_ident :: "string \<Rightarrow> string"
  ch_type_for :: "nat \<Rightarrow> int \<Rightarrow> bool \<Rightarrow> string"

fun structure_append ::
  "pgch_types \<Rightarrow> attribute list \<Rightarrow> string \<Rightarrow> nat list \<Rightarrow> string"
where
  "structure_append pc desc buf [] = buf"
| "structure_append pc desc buf (n # ns) =
     (let attr = desc ! (n - 1);
          buf = (if buf \<noteq> [] then buf @ '', '' else buf)
      in structure_append pc desc
           (buf @ quote_ch_ident pc (attname attr) @ '' ''
             @ ch_type_for pc (atttypid attr) (atttypmod attr) (attnotnull attr)) ns)"

definition structure_for_attnums :: "pgch_types \<Rightarrow> attribute list \<Rightarrow> nat list \<Rightarrow> string" where
  "structure_for_attnums pc desc attnums = structure_append pc desc [] attnums"

text \<open>
  \<open>structure_as_string\<close> at a position: \<open>prev\<close> is the character before it (none at the
  start), \<open>quoted\<close> the quote state on entry, and the last argument the rest of the text. The
  callers' \<open>type\<close> is never empty; the test for that makes the recursion total.
\<close>

definition type_end :: "string \<Rightarrow> string \<Rightarrow> string" where
  "type_end type s =
     (let end0 = drop (length type) s
      in if end0 \<noteq> [] \<and> hd end0 = CHR ''('' \<and> strchr end0 (CHR '')'') \<noteq> None
         then drop (Suc (the (strchr end0 (CHR '')'')))) end0 else end0)"

lemma type_end_shorter: "type \<noteq> [] \<Longrightarrow> length (type_end type (c # cs)) < Suc (length cs)"
  by (cases type) (auto simp: type_end_def Let_def)

function structure_scan :: "string \<Rightarrow> char option \<Rightarrow> bool \<Rightarrow> string \<Rightarrow> string" where
  "structure_scan type prev quoted [] = []"
| "structure_scan type prev quoted (c # cs) =
     (let quoted = (if c = CHR 0x22 then \<not> quoted else quoted);
          tail = type_end type (c # cs)
      in if \<not> quoted \<and> type \<noteq> [] \<and> starts_with (c # cs) type
            \<and> (prev = Some (CHR '' '') \<or> prev = Some (CHR ''(''))
            \<and> (tail = [] \<or> hd tail = CHR '','' \<or> hd tail = CHR '')'')
         then ''String'' @ structure_scan type
                (Some ((c # cs) ! (Suc (length cs) - length tail - 1))) quoted tail
         else c # structure_scan type (Some c) quoted cs)"
  by pat_completeness auto
termination
  by (relation "measure (\<lambda>(type, prev, quoted, s). length s)") (auto simp: type_end_shorter)

declare structure_scan.simps(2) [simp del]

definition structure_as_string :: "string \<Rightarrow> string \<Rightarrow> string" where
  "structure_as_string structure type = structure_scan type None False structure"

definition format_lacks_time64 :: "pg_port \<Rightarrow> string \<Rightarrow> bool" where
  "format_lacks_time64 P format =
     list_ex (strcaseeq P format)
       [''Parquet'', ''Arrow'', ''ArrowStream'', ''ORC'', ''Avro'',
        ''Protobuf'', ''ProtobufList'', ''MsgPack'', ''BSONEachRow'']"

text \<open>The first part of \<open>chdb_copy\<close>: a structure is always there, derived if none was given.\<close>

definition copy_structure :: "pg_port \<Rightarrow> pgch_types \<Rightarrow> attribute list \<Rightarrow> chdbCopyContext \<Rightarrow> string" where
  "copy_structure P pc desc ctx =
     (if cx_structure ctx = [] then
        (let s = structure_for_attnums pc desc (cx_attnums ctx);
             s = (if strcaseeq P (cx_format ctx) ''ORC'' then structure_as_string s ''UUID'' else s)
         in if format_lacks_time64 P (cx_format ctx) then structure_as_string s ''Time64'' else s)
      else cx_structure ctx)"

section \<open>The query\<close>

text \<open>The text under construction and the parameters bound so far (\<open>names\<close>, \<open>values\<close>, \<open>i\<close>).\<close>

type_synonym builder = "string \<times> (string \<times> string) list"

definition emit :: "string \<Rightarrow> builder \<Rightarrow> builder" where
  "emit t b = (fst b @ t, snd b)"

definition PARAM :: "string \<Rightarrow> string \<Rightarrow> string \<Rightarrow> builder \<Rightarrow> builder" where
  "PARAM format name val b = (fst b @ format, snd b @ [(name, val)])"

definition truncate_setting :: "chdbCopyContext \<Rightarrow> string \<Rightarrow> string" where
  "truncate_setting ctx setting = (if cx_cmd_type ctx = CHDB_CMD_INSERT then setting else [])"

definition query_start :: "chdbCopyContext \<Rightarrow> string" where
  "query_start ctx =
     (if cx_cmd_type ctx = CHDB_CMD_DESCRIBE then ''DESCRIBE TABLE''
      else if cx_cmd_type ctx = CHDB_CMD_SELECT then ''SELECT * FROM''
      else ''INSERT INTO FUNCTION'') @ '' '' @ table_function (cx_scheme ctx) @ ''(''"

definition query_format :: "chdbCopyContext \<Rightarrow> string" where
  "query_format ctx = (if cx_format ctx \<noteq> [] then cx_format ctx else ''auto'')"

text \<open>\<open>ceil(timeout / 1000.0)\<close>; the quotient of a \<open>uint32\<close> is exact enough for its ceiling.\<close>

definition timeout_seconds :: "32 word \<Rightarrow> nat" where
  "timeout_seconds t = (unat t + 999) div 1000"

definition compression_param :: "chdbCopyContext \<Rightarrow> builder \<Rightarrow> builder" where
  "compression_param ctx =
     (if cx_compression ctx \<noteq> []
      then PARAM '', {compression:String}'' ''compression'' (cx_compression ctx) else id)"

definition query_s3_gcs :: "pg_port \<Rightarrow> chdbCopyContext \<Rightarrow> builder \<Rightarrow> pg_error + builder" where
  "query_s3_gcs P ctx b =
     bindE (after_scheme (table_function (cx_scheme ctx)) (cx_url ctx)) (\<lambda>uri.
     let b = PARAM ''{url:String}'' ''url''
               (if cx_scheme ctx = s3_scheme then s3_url P (cx_url ctx) uri else gcs_url P uri) b;
         b = (if cx_access_key ctx \<noteq> [] then
                let b = PARAM '', {access_key:String}'' ''access_key'' (cx_access_key ctx) b;
                    b = PARAM '', {access_secret:String}'' ''access_secret'' (cx_access_secret ctx) b
                in if cx_session_token ctx \<noteq> [] \<and> cx_scheme ctx = s3_scheme
                   then PARAM '', {session_token:String}'' ''session_token'' (cx_session_token ctx) b
                   else b
              else emit '', NOSIGN'' b);
         b = PARAM '', {format:String}'' ''format'' (query_format ctx) b;
         b = PARAM '', {structure:String}'' ''structure'' (cx_structure ctx) b;
         b = compression_param ctx b
     in Inr (emit ('') SETTINGS '' @ truncate_setting ctx ''s3_truncate_on_insert = 1, ''
               @ ''s3_request_timeout_ms = '' @ dec (unat (cx_timeout ctx))) b))"

definition query_http :: "chdbCopyContext \<Rightarrow> builder \<Rightarrow> builder" where
  "query_http ctx b =
     (let b = PARAM ''{url:String}'' ''url'' (cx_url ctx) b;
          b = PARAM '', {format:String}'' ''format'' (query_format ctx) b;
          b = PARAM '', {structure:String}'' ''structure'' (cx_structure ctx) b
      in emit ('') SETTINGS http_connection_timeout='' @ dec (timeout_seconds (cx_timeout ctx))
           @ '', http_max_tries=1'') b)"

definition query_azure :: "chdbCopyContext \<Rightarrow> builder \<Rightarrow> pg_error + builder" where
  "query_azure ctx b =
     bindE (parse_azure_url ctx) (\<lambda>parts.
     let b = PARAM ''{url:String}'' ''url'' (account_url parts) b;
         b = PARAM '', {container:String}'' ''container'' (container parts) b;
         b = PARAM '', {path:String}'' ''path'' (path parts) b;
         b = PARAM '', {account_name:String}'' ''account_name'' (cx_access_key ctx) b;
         b = PARAM '', {account_key:String}'' ''account_key'' (cx_access_secret ctx) b;
         b = PARAM '', {format:String}'' ''format'' (query_format ctx) b;
         b = PARAM '', {compression:String}'' ''compression''
               (if cx_compression ctx \<noteq> [] then cx_compression ctx else ''auto'') b;
         b = PARAM '', {structure:String}'' ''structure'' (cx_structure ctx) b
     in Inr (emit ('') SETTINGS '' @ truncate_setting ctx ''azure_truncate_on_insert = 1, ''
               @ ''azure_request_timeout_ms='' @ dec (unat (cx_timeout ctx))) b))"

definition query_file :: "pg_port \<Rightarrow> chdbCopyContext \<Rightarrow> builder \<Rightarrow> pg_error + builder" where
  "query_file P ctx b =
     bindE (get_local_path_from_file_url P (cx_url ctx)) (\<lambda>p.
     let b = PARAM ''{path:String}'' ''path'' p b;
         b = PARAM '', {format:String}'' ''format'' (query_format ctx) b;
         b = PARAM '', {structure:String}'' ''structure'' (cx_structure ctx) b;
         b = compression_param ctx b
     in Inr (emit ('')'' @ truncate_setting ctx '' SETTINGS engine_file_truncate_on_insert=1'') b))"

definition query_hdfs :: "chdbCopyContext \<Rightarrow> builder \<Rightarrow> builder" where
  "query_hdfs ctx b =
     (let b = PARAM ''{url:String}'' ''url'' (cx_url ctx) b;
          b = PARAM '', {format:String}'' ''format'' (query_format ctx) b;
          b = PARAM '', {structure:String}'' ''structure'' (cx_structure ctx) b
      in emit ('')'' @ truncate_setting ctx '' SETTINGS hdfs_truncate_on_insert = 1'') b)"

text \<open>The settings that follow the table function's own; \<open>file\<close> and \<open>hdfs\<close> may open the clause.\<close>

definition query_end :: "chdbCopyContext \<Rightarrow> string" where
  "query_end ctx =
     (let joins = cx_scheme ctx \<noteq> file_scheme \<and> cx_scheme ctx \<noteq> hdfs_scheme;
          sep = (if joins then '', '' else '' SETTINGS '')
      in if cx_cmd_type ctx = CHDB_CMD_DESCRIBE then sep @ ''describe_compact_output=1''
         else if cx_cmd_type ctx = CHDB_CMD_SELECT \<and> cx_preserve_nested ctx
         then sep @ ''flatten_nested=0'' else [])"

text \<open>The \<open>switch\<close> on the scheme.\<close>

definition query_body :: "pg_port \<Rightarrow> chdbCopyContext \<Rightarrow> builder \<Rightarrow> pg_error + builder" where
  "query_body P ctx b =
     (case cx_scheme ctx of
        s3_scheme \<Rightarrow> query_s3_gcs P ctx b
      | gcs_scheme \<Rightarrow> query_s3_gcs P ctx b
      | http_scheme \<Rightarrow> Inr (query_http ctx b)
      | az_scheme \<Rightarrow> query_azure ctx b
      | abfs_scheme \<Rightarrow> query_azure ctx b
      | file_scheme \<Rightarrow> query_file P ctx b
      | hdfs_scheme \<Rightarrow> Inr (query_hdfs ctx b)
      | no_scheme \<Rightarrow> Inl (ereport ERRCODE_INTERNAL_ERROR
          (''unsupported URL scheme '' @ dec (scheme_value no_scheme))))"

definition make_ch_query :: "pg_port \<Rightarrow> chdbCopyContext \<Rightarrow> pg_error + builder" where
  "make_ch_query P ctx =
     bindE (query_body P ctx (query_start ctx, [])) (\<lambda>b. Inr (emit (query_end ctx) b))"

text \<open>The server-only log record of a session that logs at DEBUG1 or below.\<close>

fun params_text :: "(string \<times> string) list \<Rightarrow> string" where
  "params_text [] = []"
| "params_text [(n, v)] = n @ '': '' @ [CHR 0x22] @ v @ [CHR 0x22]"
| "params_text ((n, v) # ps) = n @ '': '' @ [CHR 0x22] @ v @ [CHR 0x22] @ '', '' @ params_text ps"

definition query_log :: "bool \<Rightarrow> builder \<Rightarrow> (string \<times> string) option" where
  "query_log debug1 b =
     (if debug1 then Some (''query: '' @ fst b, ''params: { '' @ params_text (snd b) @ '' }'')
      else None)"

text \<open>\<open>chdb_describe\<close>'s private copy of the context.\<close>

definition describe_context :: "chdbCopyContext \<Rightarrow> chdbCopyContext" where
  "describe_context ctx =
     (let d = ctx\<lparr>cx_cmd_type := CHDB_CMD_DESCRIBE\<rparr>
      in if cx_structure d = [] then d\<lparr>cx_structure := ''auto''\<rparr> else d)"

section \<open>Placeholders and bindings\<close>

text \<open>The names between each opening brace of a query text and the colon that follows.\<close>

fun placeholders :: "string \<Rightarrow> string list" where
  "placeholders [] = []"
| "placeholders (c # cs) =
     (if c = CHR ''{'' then takeWhile (\<lambda>x. x \<noteq> CHR '':'') cs # placeholders cs
      else placeholders cs)"

fun closed_text :: "string \<Rightarrow> bool" where
  "closed_text [] = True"
| "closed_text (c # cs) = ((c = CHR ''{'' \<longrightarrow> CHR '':'' \<in> set cs) \<and> closed_text cs)"

lemma placeholders_append:
  "closed_text a \<Longrightarrow> placeholders (a @ b) = placeholders a @ placeholders b"
  by (induction a) (auto simp: takeWhile_append1)

lemma closed_text_append: "closed_text a \<Longrightarrow> closed_text b \<Longrightarrow> closed_text (a @ b)"
  by (induction a) auto

lemma no_brace: "CHR ''{'' \<notin> set t \<Longrightarrow> closed_text t \<and> placeholders t = []"
  by (induction t) auto

definition bound :: "builder \<Rightarrow> bool" where
  "bound b \<longleftrightarrow> closed_text (fst b) \<and> placeholders (fst b) = map fst (snd b)"

lemma bound_emit: "bound b \<Longrightarrow> CHR ''{'' \<notin> set t \<Longrightarrow> bound (emit t b)"
  using no_brace [of t] by (simp add: emit_def bound_def placeholders_append closed_text_append)

lemma bound_PARAM:
  "bound b \<Longrightarrow> closed_text f \<Longrightarrow> placeholders f = [n] \<Longrightarrow> bound (PARAM f n v b)"
  by (simp add: PARAM_def bound_def placeholders_append closed_text_append)

lemma no_brace_dec [simp]: "CHR ''{'' \<notin> set (dec n)"
proof
  assume "CHR ''{'' \<in> set (dec n)"
  then obtain d where "d < 10" "CHR ''{'' = digit_char d" using set_dec by fastforce
  then have "of_char (CHR ''{'') = 48 + d" by (simp add: digit_char_def)
  with \<open>d < 10\<close> show False by simp
qed

lemma no_brace_start [simp]: "CHR ''{'' \<notin> set (query_start ctx)"
  by (cases "cx_scheme ctx") (simp_all add: query_start_def)

lemma no_brace_end [simp]: "CHR ''{'' \<notin> set (query_end ctx)"
  by (simp add: query_end_def Let_def)

lemma no_brace_truncate [simp]:
  "CHR ''{'' \<notin> set s \<Longrightarrow> CHR ''{'' \<notin> set (truncate_setting ctx s)"
  by (simp add: truncate_setting_def)

lemmas query_parts = query_s3_gcs_def query_http_def query_azure_def query_file_def query_hdfs_def
  compression_param_def

lemma bound_compression: "bound b \<Longrightarrow> bound (compression_param ctx b)"
  by (simp add: compression_param_def bound_PARAM)

lemma bound_s3_gcs: "bound b \<Longrightarrow> query_s3_gcs P ctx b = Inr b' \<Longrightarrow> bound b'"
  by (auto simp: query_s3_gcs_def bindE_eq_Inr Let_def bound_PARAM bound_emit bound_compression)

lemma bound_http: "bound b \<Longrightarrow> bound (query_http ctx b)"
  by (simp add: query_http_def Let_def bound_PARAM bound_emit)

lemma bound_azure: "bound b \<Longrightarrow> query_azure ctx b = Inr b' \<Longrightarrow> bound b'"
  by (auto simp: query_azure_def bindE_eq_Inr Let_def bound_PARAM bound_emit)

lemma bound_file: "bound b \<Longrightarrow> query_file P ctx b = Inr b' \<Longrightarrow> bound b'"
  by (auto simp: query_file_def bindE_eq_Inr Let_def bound_PARAM bound_emit bound_compression)

lemma bound_hdfs: "bound b \<Longrightarrow> bound (query_hdfs ctx b)"
  by (simp add: query_hdfs_def Let_def bound_PARAM bound_emit)

lemma bound_body: "bound b \<Longrightarrow> query_body P ctx b = Inr b' \<Longrightarrow> bound b'"
  by (cases "cx_scheme ctx")
    (auto simp: query_body_def intro: bound_http bound_hdfs
      dest: bound_s3_gcs bound_azure bound_file)

lemma bound_make_ch_query:
  assumes "make_ch_query P ctx = Inr b"
  shows "bound b"
proof -
  have s: "bound (query_start ctx, [])"
    using no_brace [of "query_start ctx"] by (simp add: bound_def)
  from assms obtain x where "query_body P ctx (query_start ctx, []) = Inr x"
    and b: "b = emit (query_end ctx) x"
    by (auto simp: make_ch_query_def bindE_eq_Inr simp del: split_paired_Ex)
  then have "bound x" using bound_body [OF s] by blast
  with b show ?thesis by (simp add: bound_emit)
qed

lemma snd_emit [simp]: "snd (emit t b) = snd b"
  by (simp add: emit_def)

lemma snd_PARAM [simp]: "snd (PARAM f n v b) = snd b @ [(n, v)]"
  by (simp add: PARAM_def)

lemma fst_emit [simp]: "fst (emit t b) = fst b @ t"
  by (simp add: emit_def)

lemma fst_PARAM [simp]: "fst (PARAM f n v b) = fst b @ f"
  by (simp add: PARAM_def)

section \<open>Properties of the query\<close>

text \<open>
  C20. Every placeholder of the query text is bound by the parameter at the same position,
  under the same name, and there is no other parameter: text and arguments agree.
\<close>

theorem query_placeholders_bound:
  assumes "make_ch_query P ctx = Inr (query, params)"
  shows "placeholders query = map fst params"
  using bound_make_ch_query [OF assms] by (simp add: bound_def)

definition example_context :: "scheme \<Rightarrow> char \<Rightarrow> string \<Rightarrow> chdbCopyContext" where
  "example_context sch c url = (az_example url sch)\<lparr>cx_cmd_type := c, cx_structure := ''id Int32''\<rparr>"

theorem query_placeholders_bound_witness:
  "make_ch_query unix_port (example_context hdfs_scheme CHDB_CMD_SELECT ''hdfs://h/f'')
     = Inr (''SELECT * FROM hdfs({url:String}, {format:String}, {structure:String})'',
         [(''url'', ''hdfs://h/f''), (''format'', ''auto''), (''structure'', ''id Int32'')])
   \<and> placeholders ''SELECT * FROM hdfs({url:String}, {format:String}, {structure:String})''
     = [''url'', ''format'', ''structure'']"
proof -
  have q: "make_ch_query unix_port (example_context hdfs_scheme CHDB_CMD_SELECT ''hdfs://h/f'')
     = Inr (''SELECT * FROM hdfs({url:String}, {format:String}, {structure:String})'',
         [(''url'', ''hdfs://h/f''), (''format'', ''auto''), (''structure'', ''id Int32'')])"
    by (simp add: make_ch_query_def query_body_def query_hdfs_def query_start_def query_end_def query_format_def
        truncate_setting_def example_context_def az_example_def emit_def PARAM_def)
  from query_placeholders_bound [OF q] q show ?thesis by simp
qed

text \<open>Contexts that differ only in what the caller's strings say.\<close>

definition same_shape :: "chdbCopyContext \<Rightarrow> chdbCopyContext \<Rightarrow> bool" where
  "same_shape a b \<longleftrightarrow> cx_cmd_type a = cx_cmd_type b \<and> cx_scheme a = cx_scheme b
     \<and> cx_timeout a = cx_timeout b \<and> cx_preserve_nested a = cx_preserve_nested b
     \<and> (cx_access_key a = []) = (cx_access_key b = [])
     \<and> (cx_session_token a = []) = (cx_session_token b = [])
     \<and> (cx_compression a = []) = (cx_compression b = [])"

lemma same_shape_texts:
  assumes "same_shape a c"
  shows "query_start a = query_start c" "query_end a = query_end c"
    "truncate_setting a = truncate_setting c" "cx_timeout a = cx_timeout c"
  using assms
  by (simp_all add: same_shape_def query_start_def query_end_def truncate_setting_def fun_eq_iff
      Let_def)

lemma fst_compression:
  "fst (compression_param ctx b)
     = fst b @ (if cx_compression ctx \<noteq> [] then '', {compression:String}'' else [])"
  by (simp add: compression_param_def)

lemma same_shape_s3_gcs:
  "same_shape a c \<Longrightarrow> query_s3_gcs P a b = Inr x \<Longrightarrow> query_s3_gcs P c b = Inr y \<Longrightarrow> fst x = fst y"
  using same_shape_texts [of a c]
  by (auto simp: query_s3_gcs_def bindE_eq_Inr Let_def fst_compression same_shape_def)

lemma same_shape_azure:
  "same_shape a c \<Longrightarrow> query_azure a b = Inr x \<Longrightarrow> query_azure c b = Inr y \<Longrightarrow> fst x = fst y"
  using same_shape_texts [of a c] by (auto simp: query_azure_def bindE_eq_Inr Let_def)

lemma same_shape_file:
  "same_shape a c \<Longrightarrow> query_file P a b = Inr x \<Longrightarrow> query_file P c b = Inr y \<Longrightarrow> fst x = fst y"
  using same_shape_texts [of a c]
  by (auto simp: query_file_def bindE_eq_Inr Let_def fst_compression same_shape_def)

lemma same_shape_http_hdfs:
  "same_shape a c \<Longrightarrow> fst (query_http a b) = fst (query_http c b)"
  "same_shape a c \<Longrightarrow> fst (query_hdfs a b) = fst (query_hdfs c b)"
  using same_shape_texts [of a c] by (simp_all add: query_http_def query_hdfs_def Let_def)

lemma same_shape_body:
  assumes "same_shape a c" and "query_body P a b = Inr x" and "query_body P c b = Inr y"
  shows "fst x = fst y"
proof -
  have "cx_scheme a = cx_scheme c" using assms(1) by (simp add: same_shape_def)
  with assms show ?thesis
    by (cases "cx_scheme c")
      (auto simp: query_body_def intro: same_shape_http_hdfs same_shape_s3_gcs same_shape_azure
        same_shape_file)
qed

text \<open>
  C19. The query text does not depend on any caller-supplied string: two contexts that agree
  on the command, the scheme, the timeout, the nested flag and on which optional values are
  present produce the same text, whatever URLs, credentials, formats and structures they
  hold. Nothing can be injected into it and no credential appears in it.
\<close>

theorem query_text_independent:
  assumes shape: "same_shape a c"
    and qa: "make_ch_query P a = Inr (query, params)"
    and qc: "make_ch_query P c = Inr (query', params')"
  shows "query = query'"
proof -
  let ?b = "(query_start c, [])"
  from qa obtain x where x: "query_body P a ?b = Inr x" "query = fst x @ query_end c"
    by (auto simp: make_ch_query_def bindE_eq_Inr emit_def same_shape_texts [OF shape])
  from qc obtain y where y: "query_body P c ?b = Inr y" "query' = fst y @ query_end c"
    by (auto simp: make_ch_query_def bindE_eq_Inr emit_def)
  from same_shape_body [OF shape x(1) y(1)] x(2) y(2) show ?thesis by simp
qed

theorem query_text_independent_witness:
  "\<exists>q p p'. make_ch_query unix_port (example_context http_scheme CHDB_CMD_SELECT ''http://a/b'') = Inr (q, p)
     \<and> make_ch_query unix_port (example_context http_scheme CHDB_CMD_SELECT ''http://a/}) --'') = Inr (q, p')"
proof -
  let ?a = "example_context http_scheme CHDB_CMD_SELECT ''http://a/b''"
  let ?c = "example_context http_scheme CHDB_CMD_SELECT ''http://a/}) --''"
  have s: "same_shape ?a ?c" by (simp add: same_shape_def example_context_def az_example_def)
  obtain q p where a: "make_ch_query unix_port ?a = Inr (q, p)"
    by (simp add: make_ch_query_def query_body_def example_context_def az_example_def emit_def)
  obtain q' p' where c: "make_ch_query unix_port ?c = Inr (q', p')"
    by (simp add: make_ch_query_def query_body_def example_context_def az_example_def emit_def)
  from query_text_independent [OF s a c] a c show ?thesis by blast
qed

lemma query_param_names:
  "query_s3_gcs P ctx b = Inr x \<Longrightarrow> snd b = [] \<Longrightarrow> length (snd x) \<le> 8 \<and> distinct (map fst (snd x))"
  "query_azure ctx b = Inr x \<Longrightarrow> snd b = [] \<Longrightarrow> length (snd x) \<le> 8 \<and> distinct (map fst (snd x))"
  "query_file P ctx b = Inr x \<Longrightarrow> snd b = [] \<Longrightarrow> length (snd x) \<le> 8 \<and> distinct (map fst (snd x))"
  "snd b = [] \<Longrightarrow> length (snd (query_http ctx b)) \<le> 8 \<and> distinct (map fst (snd (query_http ctx b)))"
  "snd b = [] \<Longrightarrow> length (snd (query_hdfs ctx b)) \<le> 8 \<and> distinct (map fst (snd (query_hdfs ctx b)))"
  by (auto simp: query_parts bindE_eq_Inr Let_def)

text \<open>
  The fixed arrays of \<open>CHDB_MAX_TABLEFUNC_ARGS\<close> names and values never overflow: no
  query binds more than eight parameters, and no name is bound twice.
\<close>

theorem query_params_bounded:
  assumes "make_ch_query P ctx = Inr (query, params)"
  shows "length params < CHDB_MAX_TABLEFUNC_ARGS \<and> distinct (map fst params)"
proof -
  from assms obtain x where x: "query_body P ctx (query_start ctx, []) = Inr x" "params = snd x"
    by (auto simp: make_ch_query_def bindE_eq_Inr emit_def)
  then have "length (snd x) \<le> 8 \<and> distinct (map fst (snd x))"
    using query_param_names [where b = "(query_start ctx, [])" and ctx = ctx]
    by (cases "cx_scheme ctx") (auto simp: query_body_def)
  with x(2) show ?thesis by (simp add: CHDB_MAX_TABLEFUNC_ARGS_def)
qed

theorem query_params_bounded_witness:
  "\<exists>q p. make_ch_query unix_port (example_context az_scheme CHDB_CMD_INSERT ''az://h.net/c/f'') = Inr (q, p)
     \<and> length p < CHDB_MAX_TABLEFUNC_ARGS"
proof -
  let ?c = "example_context az_scheme CHDB_CMD_INSERT ''az://h.net/c/f''"
  obtain q p where c: "make_ch_query unix_port ?c = Inr (q, p)"
    by (simp add: make_ch_query_def query_body_def query_azure_def parse_azure_url_def cut_at_def
        after_scheme_def or_empty_def example_context_def az_example_def emit_def)
  from query_params_bounded [OF c] c show ?thesis by blast
qed

text \<open>
  The internal errors marked as unreachable are: once \<open>scheme_for\<close> has recognised the
  URL, building its query can fail only on a malformed Azure URL or a relative file path,
  both reported as user errors.
\<close>

theorem query_errors:
  assumes "scheme_for nf (Some (cx_url ctx)) = cx_scheme ctx" and "cx_scheme ctx \<noteq> no_scheme"
    and "make_ch_query P ctx = Inl err"
  shows "(errcode err = ERRCODE_INVALID_PARAMETER_VALUE \<and> cx_scheme ctx \<in> {az_scheme, abfs_scheme})
    \<or> (errcode err = ERRCODE_INVALID_NAME \<and> cx_scheme ctx = file_scheme)"
proof -
  from scheme_for_inv [OF assms(1,2)] obtain n rest where
    n: "n \<in> set (scheme_name (cx_scheme ctx))" and url: "cx_url ctx = n @ ''://'' @ rest" by blast
  have colon: "CHR '':'' \<notin> set n" using n by (rule scheme_names_no_colon)
  from assms(3) have "query_body P ctx (query_start ctx, []) = Inl err"
    by (auto simp: make_ch_query_def bindE_eq_Inl)
  with assms(2) colon url show ?thesis
    by (cases "cx_scheme ctx")
      (auto simp: query_body_def query_s3_gcs_def query_azure_def query_file_def bindE_eq_Inl
        parse_azure_url_def get_local_path_from_file_url_def Let_def
        split: prod.splits option.splits if_splits)
qed

theorem query_errors_witness:
  "make_ch_query unix_port (example_context file_scheme CHDB_CMD_SELECT ''file://rel/f'')
     = Inl (ereport ERRCODE_INVALID_NAME ''chdb: relative path not allowed for COPY to file URL'')
   \<and> errcode (ereport ERRCODE_INVALID_NAME ''chdb: relative path not allowed for COPY to file URL'')
     = ERRCODE_INVALID_NAME"
proof -
  let ?c = "example_context file_scheme CHDB_CMD_SELECT ''file://rel/f''"
  have s: "scheme_for False (Some (cx_url ?c)) = cx_scheme ?c"
    using scheme_for_named [of "''file''" file_scheme False "''rel/f''"]
    by (simp add: example_context_def az_example_def CHDB_NO_SCHEME_def less_scheme_def)
  have e: "make_ch_query unix_port ?c
     = Inl (ereport ERRCODE_INVALID_NAME ''chdb: relative path not allowed for COPY to file URL'')"
    by (simp add: make_ch_query_def query_body_def query_file_def get_local_path_from_file_url_def
        after_scheme_def unix_port_def example_context_def az_example_def)
  from query_errors [OF s _ e] e show ?thesis by (simp add: example_context_def az_example_def)
qed

end
