(* ===== verification/Structure_Clause.thy ===== *)
theory Structure_Clause
  imports Ch_Query
begin

text \<open>
  What \<open>structure_as_string\<close> does to a structure clause, stated on the clause as data: a
  list of column names with type expressions. The character scan is shown to replace the
  given type wherever it occurs in a type expression, with or without arguments and at any
  depth, and to leave column names and all other types as they are.
\<close>

section \<open>Clauses as data\<close>

text \<open>
  A type is a name, alone or with the text of its parameters (\<open>Decimal(12,6)\<close>, \<open>DateTime64(6, 'UTC')\<close>),
  or a name applied to types, each of which may carry the name of a field (\<open>Array(UUID)\<close>,
  \<open>Tuple(center Point, radius Float64)\<close>).
\<close>

datatype ch_type = Base string "string option" | App string ch_args
and ch_args = Only "string option" ch_type | More "string option" ch_type ch_args

fun show_field :: "string option \<Rightarrow> string" where
  "show_field None = []"
| "show_field (Some n) = n @ '' ''"

fun show_type :: "ch_type \<Rightarrow> string" and show_args :: "ch_args \<Rightarrow> string" where
  "show_type (Base n None) = n"
| "show_type (Base n (Some a)) = n @ ''('' @ a @ '')''"
| "show_type (App w ts) = w @ ''('' @ show_args ts @ '')''"
| "show_args (Only f t) = show_field f @ show_type t"
| "show_args (More f t ts) = show_field f @ show_type t @ '', '' @ show_args ts"

fun clause_text :: "(string \<times> ch_type) list \<Rightarrow> string" where
  "clause_text [] = []"
| "clause_text [(n, t)] = n @ '' '' @ show_type t"
| "clause_text ((n, t) # cs) = n @ '' '' @ show_type t @ '', '' @ clause_text cs"

fun to_string :: "string \<Rightarrow> ch_type \<Rightarrow> ch_type" and args_to_string :: "string \<Rightarrow> ch_args \<Rightarrow> ch_args" where
  "to_string ty (Base n a) = (if n = ty then Base ''String'' None else Base n a)"
| "to_string ty (App w ts) = App w (args_to_string ty ts)"
| "args_to_string ty (Only f t) = Only f (to_string ty t)"
| "args_to_string ty (More f t ts) = More f (to_string ty t) (args_to_string ty ts)"

text \<open>Identifiers without structure characters, and names quoted with double quotes.\<close>

definition word_text :: "string \<Rightarrow> bool" where
  "word_text w \<longleftrightarrow> w \<noteq> [] \<and> set w \<inter> {CHR '' '', CHR ''('', CHR '')'', CHR '','', CHR 0x22} = {}"

definition name_ok :: "string \<Rightarrow> bool" where
  "name_ok n \<longleftrightarrow> word_text n \<or> (\<exists>t. n = CHR 0x22 # t @ [CHR 0x22] \<and> CHR 0x22 \<notin> set t)"

text \<open>
  The parameters of a type are any text without parentheses and double quotes in which the type searched
  for does not begin at the start or after a space.
\<close>

definition params_ok :: "string \<Rightarrow> string \<Rightarrow> bool" where
  "params_ok ty a \<longleftrightarrow> set a \<inter> {CHR ''('', CHR '')'', CHR 0x22} = {} \<and> \<not> prefix ty a \<and> \<not> sublist (CHR '' '' # ty) a"

fun type_ok :: "string \<Rightarrow> ch_type \<Rightarrow> bool" and args_ok :: "string \<Rightarrow> ch_args \<Rightarrow> bool" where
  "type_ok ty (Base n a) = (word_text n \<and> pred_option (params_ok ty) a)"
| "type_ok ty (App w ts) = (word_text w \<and> w \<noteq> ty \<and> args_ok ty ts)"
| "args_ok ty (Only f t) = (pred_option name_ok f \<and> type_ok ty t)"
| "args_ok ty (More f t ts) = (pred_option name_ok f \<and> type_ok ty t \<and> args_ok ty ts)"

abbreviation sep_char :: "char \<Rightarrow> bool" where
  "sep_char c \<equiv> c = CHR '' '' \<or> c = CHR ''(''"

abbreviation ends_type :: "string \<Rightarrow> bool" where
  "ends_type r \<equiv> r = [] \<or> hd r = CHR '','' \<or> hd r = CHR '')''"

section \<open>The scan, piece by piece\<close>

lemma word_text_hd:
  assumes "word_text ty" "starts_with (c # s) ty"
  shows "c \<notin> {CHR '' '', CHR ''('', CHR '')'', CHR '','', CHR 0x22}"
  using assms by (cases ty) (auto simp: word_text_def starts_with_iff)

text \<open>The four reasons to copy a character, and the one to replace.\<close>

lemma scan_copy:
  assumes "(if c = CHR 0x22 then \<not> quoted else quoted) \<or> \<not> starts_with (c # cs) ty
    \<or> \<not> (prev = Some (CHR '' '') \<or> prev = Some (CHR ''('')) \<or> \<not> ends_type (type_end ty (c # cs))"
  shows "structure_scan ty prev quoted (c # cs)
    = c # structure_scan ty (Some c) (if c = CHR 0x22 then \<not> quoted else quoted) cs"
  using assms by (subst structure_scan.simps(2)) (auto simp: Let_def)

lemma scan_replace:
  assumes "c \<noteq> CHR 0x22" "ty \<noteq> []" "starts_with (c # cs) ty"
    and "prev = Some (CHR '' '') \<or> prev = Some (CHR ''('')"
    and "type_end ty (c # cs) = r" "ends_type r"
    and "(c # cs) ! (Suc (length cs) - length r - 1) = p"
  shows "structure_scan ty prev False (c # cs) = ''String'' @ structure_scan ty (Some p) False r"
  using assms by (subst structure_scan.simps(2)) (auto simp: Let_def)

lemma scan_inside:
  "\<not> sep_char p \<Longrightarrow> set w \<inter> {CHR '' '', CHR ''('', CHR 0x22} = {} \<Longrightarrow>
   structure_scan ty (Some p) False (w @ r) = w @ structure_scan ty (Some (last (p # w))) False r"
proof (induction w arbitrary: p)
  case (Cons c w)
  then have c: "c \<noteq> CHR 0x22" "\<not> sep_char c" by auto
  have "structure_scan ty (Some p) False (c # w @ r) = c # structure_scan ty (Some c) False (w @ r)"
    using Cons.prems(1) c(1) by (subst scan_copy) auto
  also have "structure_scan ty (Some c) False (w @ r)
      = w @ structure_scan ty (Some (last (c # w))) False r"
    using Cons.prems(2) by (intro Cons.IH c(2)) auto
  finally show ?case by simp
qed simp

lemma scan_separator:
  assumes "word_text ty" "c \<in> {CHR '' '', CHR ''('', CHR '')'', CHR '',''}"
  shows "structure_scan ty prev False (c # r) = c # structure_scan ty (Some c) False r"
proof -
  have "\<not> starts_with (c # r) ty" using word_text_hd [OF assms(1)] assms(2) by blast
  moreover have "c \<noteq> CHR 0x22" using assms(2) by auto
  ultimately show ?thesis by (simp add: scan_copy)
qed

lemma scan_quoted_inside:
  "CHR 0x22 \<notin> set t \<Longrightarrow>
   structure_scan ty (Some p) True (t @ r) = t @ structure_scan ty (Some (last (p # t))) True r"
  by (induction t arbitrary: p) (auto simp: scan_copy)

lemma scan_quoted:
  assumes "word_text ty" "CHR 0x22 \<notin> set t"
  shows "structure_scan ty prev False (CHR 0x22 # t @ CHR 0x22 # r)
    = CHR 0x22 # t @ CHR 0x22 # structure_scan ty (Some (CHR 0x22)) False r"
proof -
  have "\<not> starts_with (CHR 0x22 # r) ty" using word_text_hd [OF assms(1)] by blast
  then show ?thesis by (simp add: scan_copy scan_quoted_inside [OF assms(2)])
qed

lemma starts_with_prefix:
  assumes "starts_with (b @ r) ty" "r \<noteq> [] \<Longrightarrow> hd r \<notin> set ty"
  shows "prefix ty b"
proof (cases "length ty \<le> length b")
  case True
  with assms(1) have "take (length ty) b = ty" by (simp add: starts_with_def)
  then show ?thesis by (metis take_is_prefix)
next
  case False
  then obtain k where k: "length ty - length b = Suc k" by (cases "length ty - length b") auto
  with assms(1) False have "ty = b @ take (Suc k) r" by (simp add: starts_with_def)
  with assms(2) show ?thesis by (cases r) auto
qed

text \<open>A word that is not the type, or that is followed by a space, is copied.\<close>

lemma word_not_type:
  assumes "word_text w" "word_text ty" "w \<noteq> ty \<or> (r \<noteq> [] \<and> hd r = CHR '' '')"
    and "r = [] \<or> hd r \<in> {CHR '' '', CHR ''('', CHR '')'', CHR '',''}"
    and "starts_with (w @ r) ty"
  shows "\<not> ends_type (type_end ty (w @ r))"
proof -
  have "r \<noteq> [] \<Longrightarrow> hd r \<notin> set ty" using assms(2,4) by (auto simp: word_text_def)
  with starts_with_prefix [OF assms(5)] obtain u where u: "w = ty @ u" by (auto simp: prefix_def)
  show ?thesis
  proof (cases u)
    case Nil
    with assms(3) u have "r \<noteq> []" "hd r = CHR '' ''" by auto
    with Nil u show ?thesis by (auto simp: type_end_def Let_def)
  next
    case (Cons c cs)
    with u assms(1) show ?thesis by (auto simp: type_end_def Let_def word_text_def)
  qed
qed

lemma scan_word:
  assumes "word_text w" "word_text ty" "w \<noteq> ty \<or> (r \<noteq> [] \<and> hd r = CHR '' '')"
    and "r = [] \<or> hd r \<in> {CHR '' '', CHR ''('', CHR '')'', CHR '',''}"
  shows "structure_scan ty prev False (w @ r) = w @ structure_scan ty (Some (last w)) False r"
proof -
  obtain c cs where w: "w = c # cs" using assms(1) by (cases w) (auto simp: word_text_def)
  have c: "c \<noteq> CHR 0x22" "\<not> sep_char c" and cs: "set cs \<inter> {CHR '' '', CHR ''('', CHR 0x22} = {}"
    using assms(1) w by (auto simp: word_text_def)
  have "structure_scan ty prev False (c # (cs @ r)) = c # structure_scan ty (Some c) False (cs @ r)"
    using word_not_type [OF assms] c w by (subst scan_copy) auto
  with scan_inside [OF c(2) cs] w show ?thesis by simp
qed

text \<open>The type itself is replaced, together with its arguments.\<close>

lemma scan_type_plain:
  assumes "word_text ty" "prev = Some (CHR '' '') \<or> prev = Some (CHR ''('')" "ends_type r"
  shows "structure_scan ty prev False (ty @ r) = ''String'' @ structure_scan ty (Some (last ty)) False r"
proof -
  obtain c cs where ty: "ty = c # cs" using assms(1) by (cases ty) (auto simp: word_text_def)
  have te: "type_end ty (c # cs @ r) = r" using assms(3) ty by (auto simp: type_end_def Let_def)
  have "(c # cs @ r) ! (Suc (length (cs @ r)) - length r - 1) = last ty"
    using ty by (simp add: nth_append last_conv_nth nth_Cons')
  moreover have "c \<noteq> CHR 0x22" using assms(1) ty by (auto simp: word_text_def)
  ultimately show ?thesis
    using scan_replace [of c ty "cs @ r" prev r, OF _ _ _ assms(2) te assms(3)]
    by (simp add: ty starts_with_def)
qed

lemma scan_type_args:
  assumes "word_text ty" "prev = Some (CHR '' '') \<or> prev = Some (CHR ''('')" "ends_type r"
    and "CHR '')'' \<notin> set a"
  shows "structure_scan ty prev False (ty @ CHR ''('' # a @ CHR '')'' # r)
    = ''String'' @ structure_scan ty (Some (CHR '')'')) False r"
proof -
  obtain c cs where ty: "ty = c # cs" using assms(1) by (cases ty) (auto simp: word_text_def)
  let ?s = "cs @ CHR ''('' # a @ CHR '')'' # r"
  have "strchr (CHR ''('' # a @ CHR '')'' # r) (CHR '')'') = Some (Suc (length a))"
    using assms(4) by simp
  then have te: "type_end ty (c # ?s) = r" using ty by (simp add: type_end_def Let_def)
  have "(c # ?s) ! (Suc (length ?s) - length r - 1) = CHR '')''"
    by (simp add: nth_append nth_Cons')
  moreover have "c \<noteq> CHR 0x22" using assms(1) ty by (auto simp: word_text_def)
  ultimately show ?thesis
    using scan_replace [of c ty "cs @ CHR ''('' # a @ CHR '')'' # r" prev r, OF _ _ _ assms(2) te assms(3)]
    by (simp add: ty starts_with_def)
qed

text \<open>The parameters of another type are copied.\<close>

lemma scan_params:
  assumes "word_text ty"
  shows "set b \<inter> {CHR ''('', CHR '')'', CHR 0x22} = {} \<Longrightarrow> (sep_char p \<Longrightarrow> \<not> prefix ty b) \<Longrightarrow> \<not> sublist (CHR '' '' # ty) b
    \<Longrightarrow> structure_scan ty (Some p) False (b @ '')'' @ r) = b @ '')'' @ structure_scan ty (Some (CHR '')'')) False r"
proof (induction b arbitrary: p)
  case Nil
  with scan_separator [OF assms] show ?case by simp
next
  case (Cons c cs)
  have "\<not> starts_with (c # cs @ '')'' @ r) ty \<or> \<not> sep_char p"
  proof (rule ccontr)
    assume "\<not> ?thesis"
    moreover have "CHR '')'' \<notin> set ty" using assms by (auto simp: word_text_def)
    ultimately have "prefix ty (c # cs)" "sep_char p" using starts_with_prefix [of "c # cs" "'')'' @ r" ty] by auto
    with Cons.prems(2) show False by blast
  qed
  then have "structure_scan ty (Some p) False (c # cs @ '')'' @ r) = c # structure_scan ty (Some c) False (cs @ '')'' @ r)"
    using Cons.prems(1) by (subst scan_copy) auto
  moreover have "structure_scan ty (Some c) False (cs @ '')'' @ r) = cs @ '')'' @ structure_scan ty (Some (CHR '')'')) False r"
  proof (rule Cons.IH)
    show "\<not> prefix ty cs" if "sep_char c"
      using that Cons.prems(1,3) by (auto simp: sublist_Cons_right)
  qed (use Cons.prems(1,3) in \<open>auto simp: sublist_Cons_right\<close>)
  ultimately show ?case by simp
qed

section \<open>Whole types and clauses\<close>

lemma word_last: "word_text w \<Longrightarrow> \<not> sep_char (last w)"
  using last_in_set [of w] by (metis disjoint_iff insertCI word_text_def)

lemma scan_name:
  assumes "name_ok n" "word_text ty"
  shows "structure_scan ty prev False (n @ '' '' @ r) = n @ '' '' @ structure_scan ty (Some (CHR '' '')) False r"
proof -
  have "\<exists>p. structure_scan ty prev False (n @ '' '' @ r) = n @ structure_scan ty p False ('' '' @ r)"
  proof (cases "word_text n")
    case True
    then show ?thesis using scan_word [OF True assms(2), of "'' '' @ r" prev] by auto
  next
    case False
    with assms(1) obtain t where "n = CHR 0x22 # t @ [CHR 0x22]" "CHR 0x22 \<notin> set t"
      by (auto simp: name_ok_def)
    then show ?thesis using scan_quoted [OF assms(2), of t prev "'' '' @ r"] by auto
  qed
  then show ?thesis using scan_separator [OF assms(2)] by auto
qed

lemma scan_field:
  assumes "pred_option name_ok f" "word_text ty" "sep_char q"
  obtains q' where "sep_char q'" "structure_scan ty (Some q) False (show_field f @ r) = show_field f @ structure_scan ty (Some q') False r"
proof (cases f)
  case None
  with assms(3) that show ?thesis by auto
next
  case (Some n)
  with assms scan_name [of n ty "Some q" r] that [of "CHR '' ''"] show ?thesis by simp
qed

lemma scan_base:
  assumes "type_ok ty (Base n a)" "word_text ty" "sep_char q" "ends_type r"
  shows "\<exists>p. \<not> sep_char p \<and> structure_scan ty (Some q) False (show_type (Base n a) @ r)
    = show_type (to_string ty (Base n a)) @ structure_scan ty (Some p) False r"
proof -
  have word: "word_text n" using assms(1) by simp
  have q: "Some q = Some (CHR '' '') \<or> Some q = Some (CHR ''('')" using assms(3) by auto
  show ?thesis
  proof (cases a)
    case None
    show ?thesis
    proof (cases "n = ty")
      case True
      with None scan_type_plain [OF assms(2) q assms(4)] word_last [OF assms(2)] show ?thesis
        by (intro exI [of _ "last ty"]) simp
    next
      case False
      have "structure_scan ty (Some q) False (n @ r) = n @ structure_scan ty (Some (last n)) False r"
        using False assms(4) by (intro scan_word word assms(2)) auto
      with False None word_last [OF word] show ?thesis by (intro exI [of _ "last n"]) simp
    qed
  next
    case (Some b)
    then have b: "set b \<inter> {CHR ''('', CHR '')'', CHR 0x22} = {}" "\<not> prefix ty b" "\<not> sublist (CHR '' '' # ty) b"
      using assms(1) by (simp_all add: params_ok_def)
    show ?thesis
    proof (cases "n = ty")
      case True
      have "CHR '')'' \<notin> set b" using b(1) by auto
      with True Some scan_type_args [OF assms(2) q assms(4)] show ?thesis
        by (intro exI [of _ "CHR '')''"]) simp
    next
      case False
      have "structure_scan ty (Some q) False (n @ ''('' @ b @ '')'' @ r)
          = n @ structure_scan ty (Some (last n)) False (''('' @ b @ '')'' @ r)"
        using False by (intro scan_word word assms(2)) auto
      moreover have "structure_scan ty (Some (CHR ''('')) False (b @ '')'' @ r)
          = b @ '')'' @ structure_scan ty (Some (CHR '')'')) False r"
        by (rule scan_params [OF assms(2) b(1) b(2) b(3)])
      ultimately show ?thesis using False Some scan_separator [OF assms(2)]
        by (intro exI [of _ "CHR '')''"]) simp
    qed
  qed
qed

lemma scan_show_type:
  assumes ty: "word_text ty"
  shows "type_ok ty t \<Longrightarrow> sep_char q \<Longrightarrow> ends_type r \<Longrightarrow>
      \<exists>p. \<not> sep_char p \<and> structure_scan ty (Some q) False (show_type t @ r)
        = show_type (to_string ty t) @ structure_scan ty (Some p) False r"
    and "args_ok ty ts \<Longrightarrow> sep_char q \<Longrightarrow> ends_type r \<Longrightarrow>
      \<exists>p. \<not> sep_char p \<and> structure_scan ty (Some q) False (show_args ts @ r)
        = show_args (args_to_string ty ts) @ structure_scan ty (Some p) False r"
proof (induction t and ts arbitrary: q r and q r)
  case (Base n a)
  with scan_base [OF Base(1) ty] show ?case by blast
next
  case (App w ts)
  have "structure_scan ty (Some q) False (w @ ''('' @ show_args ts @ '')'' @ r)
      = w @ structure_scan ty (Some (last w)) False (''('' @ show_args ts @ '')'' @ r)"
    using App.prems(1) by (intro scan_word ty) auto
  moreover obtain p where "structure_scan ty (Some (CHR ''('')) False (show_args ts @ '')'' @ r)
      = show_args (args_to_string ty ts) @ structure_scan ty (Some p) False ('')'' @ r)"
    using App.IH [of "CHR ''(''" "'')'' @ r"] App.prems(1) by auto
  ultimately show ?case using scan_separator [OF ty]
    by (intro exI [of _ "CHR '')''"]) simp
next
  case (Only f t)
  then obtain q' where q: "sep_char q'"
    "structure_scan ty (Some q) False (show_field f @ show_type t @ r)
      = show_field f @ structure_scan ty (Some q') False (show_type t @ r)"
    using scan_field [where f = f and ty = ty and q = q and r = "show_type t @ r"] ty by auto
  from Only.IH [of q' r] Only.prems q show ?case by auto
next
  case (More f t ts)
  let ?r = "'', '' @ show_args ts @ r"
  obtain q' where q: "sep_char q'"
    "structure_scan ty (Some q) False (show_field f @ show_type t @ ?r)
      = show_field f @ structure_scan ty (Some q') False (show_type t @ ?r)"
    using scan_field [where f = f and ty = ty and q = q and r = "show_type t @ ?r"] ty More.prems by auto
  obtain p where p: "structure_scan ty (Some q') False (show_type t @ ?r)
      = show_type (to_string ty t) @ structure_scan ty (Some p) False ?r"
    using More.IH(1) [of q' ?r] More.prems(1) q(1) by auto
  have "structure_scan ty (Some p) False ?r = '', '' @ structure_scan ty (Some (CHR '' '')) False (show_args ts @ r)"
    using scan_separator [OF ty] by simp
  with More.IH(2) [of "CHR '' ''" r] More.prems p q(2) show ?case by auto
qed

abbreviation col_ok :: "string \<Rightarrow> string \<times> ch_type \<Rightarrow> bool" where
  "col_ok ty \<equiv> \<lambda>(n, t). name_ok n \<and> type_ok ty t"

abbreviation cols_to_string :: "string \<Rightarrow> (string \<times> ch_type) list \<Rightarrow> (string \<times> ch_type) list" where
  "cols_to_string ty \<equiv> map (\<lambda>(n, t). (n, to_string ty t))"

lemma scan_clause:
  assumes "word_text ty" "list_all (col_ok ty) cols"
  shows "structure_scan ty prev False (clause_text cols) = clause_text (cols_to_string ty cols)"
  using assms(2)
proof (induction cols arbitrary: prev rule: clause_text.induct)
  case (2 n t)
  then obtain p where "structure_scan ty (Some (CHR '' '')) False (show_type t @ [])
      = show_type (to_string ty t) @ structure_scan ty (Some p) False []"
    using scan_show_type(1) [OF assms(1), of t "CHR '' ''" "[]"] by auto
  with 2 scan_name [OF _ assms(1), of n prev "show_type t"] show ?case by simp
next
  case (3 n t v va)
  let ?r = "'', '' @ clause_text (v # va)"
  from 3 obtain p where "structure_scan ty (Some (CHR '' '')) False (show_type t @ ?r)
      = show_type (to_string ty t) @ structure_scan ty (Some p) False ?r"
    using scan_show_type(1) [OF assms(1), of t "CHR '' ''" ?r] by auto
  moreover have "structure_scan ty (Some (CHR '' '')) False (clause_text (v # va))
      = clause_text (cols_to_string ty (v # va))"
    using 3 by simp
  ultimately show ?case
    using 3(2) scan_name [OF _ assms(1), of n prev "show_type t @ ?r"] scan_separator [OF assms(1)]
    by (cases v) simp
qed simp

lemma type_ok_to_string:
  "type_ok ty t \<Longrightarrow> type_ok ty (to_string ty' t)" "args_ok ty ts \<Longrightarrow> args_ok ty (args_to_string ty' ts)"
  by (induction t and ts) (auto simp: word_text_def)

text \<open>The clause \<open>structure_for_attnums\<close> builds, column by column.\<close>

lemma structure_append_clause:
  assumes "\<forall>n \<in> set ns. quote_ch_ident pc (attname (desc ! (n - 1))) = Q n \<and> Q n \<noteq> []
    \<and> ch_type_for pc (atttypid (desc ! (n - 1))) (atttypmod (desc ! (n - 1)))
        (attnotnull (desc ! (n - 1))) = show_type (T n)"
  shows "structure_append pc desc buf ns =
    buf @ (if buf \<noteq> [] \<and> ns \<noteq> [] then '', '' else []) @ clause_text (map (\<lambda>n. (Q n, T n)) ns)"
  using assms
proof (induction pc desc buf ns rule: structure_append.induct)
  case (2 pc desc buf n ns)
  then show ?case by (cases ns) (auto simp: Let_def)
qed simp

section \<open>Properties of the structure clause\<close>

text \<open>
  C38. In a clause of columns whose names are plain or in double quotes, and whose types are built from names,
  parameters, and arguments with or without field names, \<open>structure_as_string\<close> turns every occurrence of the
  type, bare or with parameters, at any nesting depth, into \<open>String\<close>, and changes
  nothing else: column and field names keep their text even when they are the name of the type.
\<close>

theorem structure_as_string_correct:
  assumes "word_text ty" and "list_all (col_ok ty) cols"
  shows "structure_as_string (clause_text cols) ty = clause_text (cols_to_string ty cols)"
  using scan_clause [OF assms] by (simp add: structure_as_string_def)

theorem structure_as_string_correct_witness:
  "structure_as_string (''UUID Int32, k Array(Nullable(UUID)), t Time64(6), z DateTime64(6, '' @ CHR 0x27 # ''UTC'' @ CHR 0x27 # ''), c Tuple(UUID UUID, radius Float64)'') ''UUID''
     = ''UUID Int32, k Array(Nullable(String)), t Time64(6), z DateTime64(6, '' @ CHR 0x27 # ''UTC'' @ CHR 0x27 # ''), c Tuple(UUID String, radius Float64)''"
proof -
  let ?c = "[(''UUID'', Base ''Int32'' None),
     (''k'', App ''Array'' (Only None (App ''Nullable'' (Only None (Base ''UUID'' None))))),
     (''t'', Base ''Time64'' (Some ''6'')),
     (''z'', Base ''DateTime64'' (Some (''6, '' @ CHR 0x27 # ''UTC'' @ [CHR 0x27]))),
     (''c'', App ''Tuple'' (More (Some ''UUID'') (Base ''UUID'' None) (Only (Some ''radius'') (Base ''Float64'' None))))]"
  have w: "word_text ''UUID''" by (simp add: word_text_def)
  have "list_all (col_ok ''UUID'') ?c" by (simp add: name_ok_def word_text_def params_ok_def sublist_Cons_right)
  from structure_as_string_correct [OF w this] show ?thesis by simp
qed

text \<open>
  Without a structure option the clause names exactly the copied columns, in copy
  order, with their ClickHouse types; for ORC every \<open>UUID\<close> and every \<open>Time64\<close> in it, and
  for the other formats without \<open>Time64\<close> every \<open>Time64\<close>, is declared as \<open>String\<close>. A given
  structure is used as it is.
\<close>

theorem copy_structure_derived:
  assumes "\<forall>n \<in> set (cx_attnums ctx). quote_ch_ident pc (attname (desc ! (n - 1))) = Q n
    \<and> name_ok (Q n) \<and> type_ok ''UUID'' (T n) \<and> type_ok ''Time64'' (T n)
    \<and> ch_type_for pc (atttypid (desc ! (n - 1))) (atttypmod (desc ! (n - 1)))
        (attnotnull (desc ! (n - 1))) = show_type (T n)"
  shows "copy_structure P pc desc ctx =
    (if cx_structure ctx \<noteq> [] then cx_structure ctx
     else clause_text (map (\<lambda>n. (Q n,
       (if format_lacks_time64 P (cx_format ctx) then to_string ''Time64'' else id)
         ((if strcaseeq P (cx_format ctx) ''ORC'' then to_string ''UUID'' else id) (T n))))
       (cx_attnums ctx)))"
proof -
  let ?cols = "map (\<lambda>n. (Q n, T n)) (cx_attnums ctx)"
  let ?cols' = "cols_to_string ''UUID'' ?cols"
  have w: "word_text ''UUID''" "word_text ''Time64''" by (simp_all add: word_text_def)
  have ok: "list_all (col_ok ''UUID'') ?cols" "list_all (col_ok ''Time64'') ?cols"
      "list_all (col_ok ''Time64'') ?cols'"
    using assms by (auto simp: list_all_iff type_ok_to_string)
  have "Q n \<noteq> []" if "name_ok (Q n)" for n using that by (auto simp: name_ok_def word_text_def)
  then have c: "structure_for_attnums pc desc (cx_attnums ctx) = clause_text ?cols"
    using assms structure_append_clause [of "cx_attnums ctx" pc desc Q T "[]"]
    by (simp add: structure_for_attnums_def)
  show ?thesis
    using scan_clause [OF w(1) ok(1)] scan_clause [OF w(2) ok(2)] scan_clause [OF w(2) ok(3)]
    by (simp add: copy_structure_def c structure_as_string_def Let_def comp_def)
qed

theorem copy_structure_derived_witness:
  "copy_structure unix_port
     \<lparr>quote_ch_ident = (\<lambda>s. s), ch_type_for = (\<lambda>_ _ nn. if nn then ''UUID'' else ''Nullable(Time64(6))'')\<rparr>
     [\<lparr>attname = ''a'', atttypid = 1, atttypmod = 0, attnotnull = True, attisdropped = False,
       attgenerated = False\<rparr>,
      \<lparr>attname = ''b'', atttypid = 1, atttypmod = 0, attnotnull = False, attisdropped = False,
       attgenerated = False\<rparr>]
     ((az_example ''s3://b/k'' s3_scheme)\<lparr>cx_attnums := [2, 1], cx_format := ''ORC''\<rparr>)
   = ''b Nullable(String), a String''"
proof -
  let ?ctx = "(az_example ''s3://b/k'' s3_scheme)\<lparr>cx_attnums := [2, 1], cx_format := ''ORC''\<rparr>"
  have "params_ok ''UUID'' ''6''" "params_ok ''Time64'' ''6''" by (simp_all add: params_ok_def sublist_Cons_right)
  then show ?thesis
    by (subst copy_structure_derived [where Q = "\<lambda>n. if n = 1 then ''a'' else ''b''"
          and T = "\<lambda>n. if n = 1 then Base ''UUID'' None
            else App ''Nullable'' (Only None (Base ''Time64'' (Some ''6'')))"])
      (simp_all add: az_example_def name_ok_def word_text_def unix_port_def format_lacks_time64_def)
qed

end
