(* ===== verification/Copy_Run.thy ===== *)
theory Copy_Run
  imports Native_Send Native_Effects Structure_Clause Settings
begin

text \<open>
  The commands as a whole: \<open>chdb_copy\<close> and \<open>chdb_describe\<close> of \<open>src/hook/copy.c\<close> and \<open>chdb_query\<close> of
  \<open>src/chdb.c\<close>, which put the query, the helper and the Native streams together. How the
  pg-clickhouse-c reader pulls its blocks through \<open>chdb_helper_recv\<close> is the parameter \<open>pull\<close>: the
  rows it delivers from a started helper under an encoding check (none set by \<open>chdb_query\<close>), and the state it leaves the helper in.
\<close>

section \<open>The surroundings of a command\<close>

text \<open>The libraries and server state a command runs in.\<close>

record ('v, 'c, 'e) command_env =
  ce_helper :: helper_env
  ce_port :: pg_port
  ce_types :: pgch_types
  ce_writer :: "('v, 'c) writer_lib"
  ce_exec :: "'v executor"
  ce_scan :: "relation \<Rightarrow> 'v option list list"
  ce_default :: "relation \<Rightarrow> nat \<Rightarrow> 'e option"
  ce_eval :: "'v effect list \<Rightarrow> nat \<Rightarrow> pg_error + ('e \<Rightarrow> 'v option)"
  ce_pull :: "encoding_check option \<Rightarrow> backend \<Rightarrow> 'v native_reader \<times> backend"
  ce_pull_text :: "backend \<Rightarrow> string native_reader \<times> backend"

text \<open>What a command has done: the helper's state and the effects on tables.\<close>

record 'v world =
  wd_helper :: backend
  wd_effects :: "'v effect list"

definition on_world :: "('a, backend) outcome \<Rightarrow> 'v world \<Rightarrow> ('a, 'v world) outcome" where
  "on_world m w =
     (case m of Return x h \<Rightarrow> Return x (w\<lparr>wd_helper := h\<rparr>) | Raise e h \<Rightarrow> Raise e (w\<lparr>wd_helper := h\<rparr>)
      | Waiting \<Rightarrow> Waiting)"

definition copy_helper_context :: "chdbCopyContext \<Rightarrow> chdbHelperContext" where
  "copy_helper_context ctx =
     \<lparr>cmd = cx_cmd_type ctx, max_memory = cx_max_memory ctx, max_threads = cx_max_threads ctx,
      max_parsers = cx_max_parsers ctx\<rparr>"

text \<open>The two directions of a copy.\<close>

definition receive_into ::
  "('v, 'c, 'e) command_env \<Rightarrow> relation \<Rightarrow> chdbCopyContext \<Rightarrow> 'v world \<Rightarrow> (nat, 'v world) outcome"
where
  "receive_into ce rel ctx w =
     (case ce_pull ce (Some (cx_encoding_check ctx)) (wd_helper w) of
        (reader, h) \<Rightarrow>
          (case chdb_copy_receive (ce_exec ce) rel (cx_attnums ctx) (ce_default ce rel) (ce_eval ce) reader of
             Return rows log \<Rightarrow> Return rows (w\<lparr>wd_helper := h, wd_effects := wd_effects w @ log\<rparr>)
           | Raise e log \<Rightarrow> Raise e (w\<lparr>wd_helper := h, wd_effects := wd_effects w @ log\<rparr>)
           | Waiting \<Rightarrow> Waiting))"

definition send_from ::
  "('v, 'c, 'e) command_env \<Rightarrow> relation \<Rightarrow> chdbCopyContext \<Rightarrow> 'v world \<Rightarrow> (nat, 'v world) outcome"
where
  "send_from ce rel ctx w =
     on_world (chdb_copy_send (ce_helper ce) (ce_writer ce) rel (ce_scan ce rel) (cx_structure ctx)
       (cx_attnums ctx) (wd_helper w)) w"

definition chdb_copy ::
  "('v, 'c, 'e) command_env \<Rightarrow> relation \<Rightarrow> chdbCopyContext \<Rightarrow> 'v world \<Rightarrow> (nat, 'v world) outcome"
where
  "chdb_copy ce rel ctx w =
     (let ctx = ctx\<lparr>cx_structure := copy_structure (ce_port ce) (ce_types ce) (rd_att rel) ctx\<rparr>
      in case make_ch_query (ce_port ce) ctx of
           Inl e \<Rightarrow> Raise e w
         | Inr (query, params) \<Rightarrow>
             bindO (on_world (chdb_helper_start (ce_helper ce) (copy_helper_context ctx) query params (wd_helper w)) w) (\<lambda>_ w.
             bindO (if cx_cmd_type ctx = CHDB_CMD_SELECT then receive_into ce rel ctx w else send_from ce rel ctx w) (\<lambda>rows w.
             bindO (on_world (chdb_helper_finish (ce_helper ce) (wd_helper w)) w) (\<lambda>_ w.
             Return rows w))))"

definition chdb_describe ::
  "('v, 'c, 'e) command_env \<Rightarrow> chdbCopyContext \<Rightarrow> 'v world \<Rightarrow> (chdbDescribedColumn list, 'v world) outcome"
where
  "chdb_describe ce ctx w =
     (let describe = describe_context ctx
      in case make_ch_query (ce_port ce) describe of
           Inl e \<Rightarrow> Raise e w
         | Inr (query, params) \<Rightarrow>
             bindO (on_world (chdb_helper_start (ce_helper ce) (copy_helper_context describe) query params (wd_helper w)) w) (\<lambda>_ w.
               case ce_pull_text ce (wd_helper w) of
                 (reader, h) \<Rightarrow>
                   (let w = w\<lparr>wd_helper := h\<rparr>
                    in case chdb_native_describe reader of
                         Inl e \<Rightarrow> Raise e w
                       | Inr cols \<Rightarrow>
                           bindO (on_world (chdb_helper_finish (ce_helper ce) (wd_helper w)) w) (\<lambda>_ w. Return cols w))))"

text \<open>
  \<open>chdb_query\<close>: the three refusals, then the helper. \<open>accepts_set\<close>, \<open>materialize\<close> and \<open>column_list\<close> are
  what the caller's \<open>ReturnSetInfo\<close> and result type say; \<open>column_list\<close> is the number of columns of a
  column definition list. The rows of the result are the tuplestore.
\<close>

definition chdb_query ::
  "('v, 'c, 'e) command_env \<Rightarrow> settings \<Rightarrow> bool \<Rightarrow> bool \<Rightarrow> nat option \<Rightarrow> string \<Rightarrow> 'v world
     \<Rightarrow> ('v tuple list, 'v world) outcome"
where
  "chdb_query ce gucs accepts_set materialize column_list sql w =
     (if \<not> accepts_set then
        Raise (ereport ERRCODE_FEATURE_NOT_SUPPORTED
          ''chdb: set-valued function called in context that cannot accept a set'') w
      else if \<not> materialize then
        Raise (ereport ERRCODE_FEATURE_NOT_SUPPORTED
          ''chdb: materialize mode required, but it is not allowed in this context'') w
      else
        (case column_list of
           None \<Rightarrow> Raise (ereport ERRCODE_FEATURE_NOT_SUPPORTED
             ''chdb: a column definition list is required for chdb_query'') w
         | Some natts \<Rightarrow>
             bindO (on_world (chdb_helper_start (ce_helper ce) (helper_context gucs CHDB_CMD_SELECT) sql [] (wd_helper w)) w) (\<lambda>_ w.
               case ce_pull ce None (wd_helper w) of
                 (reader, h) \<Rightarrow>
                   (let w = w\<lparr>wd_helper := h\<rparr>
                    in case chdb_select_receive natts reader of
                         Return u rows \<Rightarrow> Return rows w
                       | Raise e rows \<Rightarrow> Raise e w
                       | Waiting \<Rightarrow> Waiting))))"

section \<open>What a copy that returns has done\<close>

lemma on_world_eq:
  "on_world m w = Return x t \<longleftrightarrow> (\<exists>h. m = Return x h \<and> t = w\<lparr>wd_helper := h\<rparr>)"
  by (cases m) (auto simp: on_world_def)

lemma chdb_helper_finish_Return:
  assumes "chdb_helper_finish env s = Return u t"
  shows "h_reaped (hp t) \<and> h_status (hp t) = 0 \<and> sent_data t = sent_data s"
proof -
  obtain st v where d: "drain_and_reap (close_data s) = Return st v"
    using assms by (auto simp: chdb_helper_finish_def bindO_eq_Return)
  have "channel_sent DataChannel v = channel_sent DataChannel (close_data s)"
    using unsent.drain_and_reap_keeps [OF refl, of DataChannel "close_data s"] d by simp
  then have "sent_data v = sent_data s" by (simp add: channel_sent_def close_data_def)
  with finish_cases [OF d] drain_and_reap_Return [OF d] assms show ?thesis by (auto split: if_splits)
qed

lemma chdb_copy_cases:
  assumes "chdb_copy ce rel ctx w = Return n t"
  defines "ctx' \<equiv> ctx\<lparr>cx_structure := copy_structure (ce_port ce) (ce_types ce) (rd_att rel) ctx\<rparr>"
  obtains query params h1 w2 h3 where "make_ch_query (ce_port ce) ctx' = Inr (query, params)"
    "chdb_helper_start (ce_helper ce) (copy_helper_context ctx') query params (wd_helper w) = Return () h1"
    "(if cx_cmd_type ctx = CHDB_CMD_SELECT then receive_into ce rel ctx' (w\<lparr>wd_helper := h1\<rparr>)
      else send_from ce rel ctx' (w\<lparr>wd_helper := h1\<rparr>)) = Return n w2"
    "chdb_helper_finish (ce_helper ce) (wd_helper w2) = Return () h3" "t = w2\<lparr>wd_helper := h3\<rparr>"
proof -
  obtain query params where q: "make_ch_query (ce_port ce) ctx' = Inr (query, params)"
    using assms(1) by (auto simp: chdb_copy_def Let_def ctx'_def split: sum.splits)
  have "bindO (on_world (chdb_helper_start (ce_helper ce) (copy_helper_context ctx') query params (wd_helper w)) w) (\<lambda>_ w.
      bindO (if cx_cmd_type ctx = CHDB_CMD_SELECT then receive_into ce rel ctx' w else send_from ce rel ctx' w) (\<lambda>rows w.
      bindO (on_world (chdb_helper_finish (ce_helper ce) (wd_helper w)) w) (\<lambda>_ w. Return rows w))) = Return n t"
    using assms(1) q unfolding ctx'_def chdb_copy_def Let_def by simp
  then show thesis by (auto simp: bindO_eq_Return on_world_eq intro: that [OF q])
qed

lemma receive_into_Return:
  assumes "receive_into ce rel ctx w = Return n t"
  shows "\<exists>log. wd_effects t = wd_effects w @ log \<and> n = counted log \<and> stored_of log = after_of log"
proof -
  obtain reader h log where r: "ce_pull ce (Some (cx_encoding_check ctx)) (wd_helper w) = (reader, h)"
    "chdb_copy_receive (ce_exec ce) rel (cx_attnums ctx) (ce_default ce rel) (ce_eval ce) reader = Return n log"
    "t = w\<lparr>wd_helper := h, wd_effects := wd_effects w @ log\<rparr>"
    using assms by (auto simp: receive_into_def split: prod.splits outcome.splits)
  from copy_receive_Return [OF r(2)] r(3) show ?thesis by (auto split: if_splits)
qed

lemma copy_Return:
  assumes "chdb_copy ce rel ctx w = Return n t"
  shows "\<exists>structure query params payload h.
      make_ch_query (ce_port ce) (ctx\<lparr>cx_structure := structure\<rparr>) = Inr (query, params)
      \<and> build_setup (byte_order (ce_helper ce)) (session_timezone (ce_helper ce)) (copy_helper_context ctx)
          query params = Inr payload
      \<and> chdb_helper_start (ce_helper ce) (copy_helper_context ctx) query params (wd_helper w) = Return () h
      \<and> sent_setup h = sent_setup (wd_helper w) @ payload \<and> sent_data h = sent_data (wd_helper w)
      \<and> h_reaped (hp (wd_helper t)) \<and> h_status (hp (wd_helper t)) = 0
      \<and> (if cx_cmd_type ctx = CHDB_CMD_SELECT
         then \<exists>log. wd_effects t = wd_effects w @ log \<and> n = counted log \<and> stored_of log = after_of log
         else n = length (ce_scan ce rel) \<and> (\<exists>cols cells.
            list_all2 (slot_cells (ce_writer ce) cols (rd_att rel) (cx_attnums ctx)) (ce_scan ce rel) cells
            \<and> sent_data (wd_helper t) = sent_data h
                @ concat (map (block_bytes (ce_writer ce) cols) (cut_blocks (ce_writer ce) [] cells))))"
proof -
  let ?s = "copy_structure (ce_port ce) (ce_types ce) (rd_att rel) ctx"
  let ?ctx = "ctx\<lparr>cx_structure := ?s\<rparr>"
  have hc: "copy_helper_context ?ctx = copy_helper_context ctx" by (simp add: copy_helper_context_def)
  obtain query params h1 w2 h3 where c: "make_ch_query (ce_port ce) ?ctx = Inr (query, params)"
    "chdb_helper_start (ce_helper ce) (copy_helper_context ctx) query params (wd_helper w) = Return () h1"
    "(if cx_cmd_type ctx = CHDB_CMD_SELECT then receive_into ce rel ?ctx (w\<lparr>wd_helper := h1\<rparr>)
      else send_from ce rel ?ctx (w\<lparr>wd_helper := h1\<rparr>)) = Return n w2"
    "chdb_helper_finish (ce_helper ce) (wd_helper w2) = Return () h3" "t = w2\<lparr>wd_helper := h3\<rparr>"
    using chdb_copy_cases [OF assms] hc by metis
  obtain payload where p: "build_setup (byte_order (ce_helper ce)) (session_timezone (ce_helper ce))
      (copy_helper_context ctx) query params = Inr payload" "sent_setup h1 = sent_setup (wd_helper w) @ payload"
    "sent_data h1 = sent_data (wd_helper w)"
    using start_Return_setup [OF c(2)] by blast
  note f = chdb_helper_finish_Return [OF c(4)]
  have "if cx_cmd_type ctx = CHDB_CMD_SELECT
      then \<exists>log. wd_effects t = wd_effects w @ log \<and> n = counted log \<and> stored_of log = after_of log
      else n = length (ce_scan ce rel) \<and> (\<exists>cols cells.
        list_all2 (slot_cells (ce_writer ce) cols (rd_att rel) (cx_attnums ctx)) (ce_scan ce rel) cells
        \<and> sent_data (wd_helper t) = sent_data h1
            @ concat (map (block_bytes (ce_writer ce) cols) (cut_blocks (ce_writer ce) [] cells)))"
  proof (cases "cx_cmd_type ctx = CHDB_CMD_SELECT")
    case True
    with c(3) receive_into_Return [of ce rel ?ctx "w\<lparr>wd_helper := h1\<rparr>" n w2] c(5) show ?thesis by simp
  next
    case False
    then obtain h2 where s: "chdb_copy_send (ce_helper ce) (ce_writer ce) rel (ce_scan ce rel) ?s (cx_attnums ctx) h1
        = Return n h2" "w2 = w\<lparr>wd_helper := h2\<rparr>"
      using c(3) by (auto simp: send_from_def on_world_eq)
    obtain cols cells where "n = length (ce_scan ce rel)"
      "list_all2 (slot_cells (ce_writer ce) cols (rd_att rel) (cx_attnums ctx)) (ce_scan ce rel) cells"
      "sent_data h2 = sent_data h1 @ concat (map (block_bytes (ce_writer ce) cols) (cut_blocks (ce_writer ce) [] cells))"
      by (rule copy_send_refines [OF s(1)]) blast
    with False f c(5) s(2) show ?thesis by auto
  qed
  with c(1,2) p f c(5) show ?thesis by (intro exI [of _ ?s] exI) (auto intro!: exI)
qed

text \<open>
  C16. A copy that returns a row count has an end-to-end meaning. The helper was started with the
  query and parameters of the context and was sent the payload that encodes them with the command
  and the settings; it has been waited for and its exit status was zero. For a COPY TO the
  count is the number of rows of the scan and the helper's channel has carried exactly the Native
  blocks of their cells; for a COPY FROM it is the number of rows stored (or taken by an INSTEAD OF
  trigger), each with its AFTER ROW work done.
\<close>

theorem copy_end_to_end:
  assumes "chdb_copy ce rel ctx w = Return n t"
  shows "\<exists>structure query params payload h.
      make_ch_query (ce_port ce) (ctx\<lparr>cx_structure := structure\<rparr>) = Inr (query, params)
      \<and> build_setup (byte_order (ce_helper ce)) (session_timezone (ce_helper ce)) (copy_helper_context ctx)
          query params = Inr payload
      \<and> chdb_helper_start (ce_helper ce) (copy_helper_context ctx) query params (wd_helper w) = Return () h
      \<and> sent_setup h = sent_setup (wd_helper w) @ payload \<and> sent_data h = sent_data (wd_helper w)
      \<and> h_reaped (hp (wd_helper t)) \<and> h_status (hp (wd_helper t)) = 0
      \<and> (if cx_cmd_type ctx = CHDB_CMD_SELECT
         then \<exists>log. wd_effects t = wd_effects w @ log \<and> n = counted log \<and> stored_of log = after_of log
         else n = length (ce_scan ce rel) \<and> (\<exists>cols cells.
            list_all2 (slot_cells (ce_writer ce) cols (rd_att rel) (cx_attnums ctx)) (ce_scan ce rel) cells
            \<and> sent_data (wd_helper t) = sent_data h
                @ concat (map (block_bytes (ce_writer ce) cols) (cut_blocks (ce_writer ce) [] cells))))"
  using assms by (rule copy_Return)

definition ex_command :: "(string, string, unit) command_env" where
  "ex_command = \<lparr>ce_helper = ex_env, ce_port = unix_port,
     ce_types = \<lparr>quote_ch_ident = (\<lambda>n. n), ch_type_for = (\<lambda>_ _ _. ''String'')\<rparr>, ce_writer = ex_writer,
     ce_exec = plain_executor, ce_scan = (\<lambda>_. [[Some ''x'']]), ce_default = (\<lambda>_ _. None), ce_eval = (\<lambda>_ _. Inr (\<lambda>_. None)),
     ce_pull = (\<lambda>_ h. (plain_reader, h)),
     ce_pull_text = (\<lambda>h. (\<lparr>rd_init_error = None, rd_columns = 2, rd_convert_init = None, rd_rows = [Inr [Some ''a'', Some ''String'']],
       rd_end_error = None\<rparr>, h))\<rparr>"

definition ex_world :: "string world" where
  "ex_world = \<lparr>wd_helper = ex_backend, wd_effects = []\<rparr>"

definition ex_copy :: chdbCopyContext where
  "ex_copy = (example_context hdfs_scheme CHDB_CMD_SELECT ''hdfs://h/f'')\<lparr>cx_attnums := [1]\<rparr>"

lemma ex_copy_query:
  "make_ch_query unix_port ex_copy = Inr (''SELECT * FROM hdfs({url:String}, {format:String}, {structure:String})'',
     [(''url'', ''hdfs://h/f''), (''format'', ''auto''), (''structure'', ''id Int32'')])"
  by (simp add: make_ch_query_def query_body_def query_hdfs_def query_start_def query_end_def query_format_def
      truncate_setting_def example_context_def az_example_def emit_def PARAM_def ex_copy_def)

text \<open>A helper that is started on a request of moderate size, and one that is finished.\<close>

abbreviation small_request :: "string \<Rightarrow> (string \<times> string) list \<Rightarrow> bool" where
  "small_request q p \<equiv> \<forall>c. \<exists>b. build_setup Little ''UTC'' c q p = Inr b \<and> b \<noteq> [] \<and> length b \<le> 1000"

lemma ex_finish:
  assumes "wait_ev h = [WaitErr EINTR, Ended 0]" "h_err (hp h) = 2" "\<not> h_reaped (hp h)" "intr h = []"
    and "err_ev h = err_ev ex_backend"
  shows "\<exists>h'. chdb_helper_finish ex_env h = Return () h'"
proof -
  have "clean_stream UNIV (err_ev (close_data h))" using assms(5) by (simp add: close_data_def ex_backend_def)
  then obtain h' where d: "drain_and_reap (close_data h) = Return 0 h'"
    using drain_and_reap_returns [of "close_data h" 0 None "[]"] assms by (auto simp: close_data_def)
  with finish_cases [OF d] show ?thesis by simp
qed

lemma ex_round:
  assumes "small_request query params"
  obtains h h' where "chdb_helper_start ex_env ctx query params ex_backend = Return () h"
    "chdb_helper_finish ex_env h = Return () h'"
proof -
  obtain payload where p: "build_setup Little ''UTC'' ctx query params = Inr payload" "payload \<noteq> []" "length payload \<le> 1000"
    using assms by blast
  obtain h where h: "chdb_helper_start ex_env ctx query params ex_backend = Return () h"
    "wait_ev h = [WaitErr EINTR, Ended 0]" "h_err (hp h) = 2" "\<not> h_reaped (hp h)" "intr h = []"
    "err_ev h = err_ev ex_backend"
    by (rule ex_start_any [OF p])
  from ex_finish [OF h(2-6)] h(1) that show thesis by blast
qed

text \<open>A COPY FROM of one column with a given structure runs through, and so does a DESCRIBE.\<close>

lemma ex_copy_runs:
  assumes "make_ch_query unix_port ctx = Inr (q, p)" "small_request q p" "cx_structure ctx \<noteq> []"
    and "cx_cmd_type ctx = CHDB_CMD_SELECT" "cx_attnums ctx = [1]"
  shows "\<exists>t. chdb_copy ex_command plain_table ctx ex_world = Return 3 t"
proof -
  obtain h h' where h: "chdb_helper_start ex_env (copy_helper_context ctx) q p ex_backend = Return () h"
    "chdb_helper_finish ex_env h = Return () h'"
    using ex_round assms(2) by metis
  obtain log where r: "chdb_copy_receive plain_executor plain_table [Suc 0] (\<lambda>_. None :: unit option) (\<lambda>_ _. Inr (\<lambda>_. None))
      plain_reader = Return 3 log"
    by (simp add: receive_eval plain_defs)
  have cs: "copy_structure P pc desc ctx = cx_structure ctx" for P pc desc
    using assms(3) by (simp add: copy_structure_def)
  have c0: "ctx\<lparr>cx_structure := cx_structure ctx\<rparr> = ctx" by simp
  show ?thesis
    using assms(1,4,5) h r
    by (simp add: chdb_copy_def Let_def cs c0 on_world_def receive_into_def ex_command_def ex_world_def)
qed

lemma ex_describe_runs:
  assumes "make_ch_query unix_port (describe_context ctx) = Inr (q, p)" "small_request q p"
  shows "\<exists>t. chdb_describe ex_command ctx ex_world = Return [(''a'', ''String'')] t"
proof -
  obtain h h' where "chdb_helper_start ex_env (copy_helper_context (describe_context ctx)) q p ex_backend = Return () h"
    "chdb_helper_finish ex_env h = Return () h'"
    using ex_round assms(2) by metis
  with assms(1) show ?thesis
    by (simp add: chdb_describe_def ex_command_def ex_world_def on_world_def Let_def chdb_native_describe_def)
qed

lemmas query_eval = make_ch_query_def query_body_def query_hdfs_def query_start_def query_end_def query_format_def
  truncate_setting_def emit_def PARAM_def build_setup_payload length_append_string CHDB_SETUP_MAX_def

theorem copy_end_to_end_witness:
  "\<exists>t log. chdb_copy ex_command plain_table ex_copy ex_world = Return 3 t
     \<and> wd_effects t = log \<and> counted log = 3 \<and> h_status (hp (wd_helper t)) = 0"
proof -
  have c: "cx_cmd_type ex_copy = CHDB_CMD_SELECT" "cx_attnums ex_copy = [1]" "cx_structure ex_copy \<noteq> []"
    by (simp_all add: ex_copy_def example_context_def)
  obtain t where t: "chdb_copy ex_command plain_table ex_copy ex_world = Return 3 t"
    using ex_copy_runs [OF ex_copy_query _ c(3,1,2)] by (auto simp: query_eval)
  from copy_end_to_end [OF t] t c show ?thesis by (auto simp: ex_world_def)
qed

end
