(* ===== verification/Create_Table.thy ===== *)
theory Create_Table
  imports Copy_Options Copy_Run
begin

text \<open>
  CREATE TABLE with the options \<open>structure_from\<close> and \<open>copy_from\<close>, \<open>src/hook/create.c\<close>: which
  statements use a URL, what the options may be combined with, and the columns that a DESCRIBE of
  the URL gives. PostgreSQL's catalog is an opaque value read through the parameter \<open>catalog_lib\<close>,
  and the type functions of clickhouse-c and pg-clickhouse-c are the parameter \<open>type_lib\<close>.
\<close>

section \<open>The statement\<close>

record range_var =
  rv_schemaname :: "string option"
  rv_relname :: string

record column_def =
  colname :: string
  col_typid :: nat
  col_typmod :: int
  arrayBounds :: "int list"
  is_not_null :: bool

text \<open>An element of the column list: a column, or a constraint or LIKE clause by its text.\<close>

datatype table_elt = ColumnElt column_def | OtherElt string

record create_stmt =
  cs_relation :: range_var
  cs_options :: "def_elem list"
  cs_tableElts :: "table_elt list"
  cs_inhRelations :: "range_var list"
  cs_partbound :: bool
  cs_ofTypename :: bool
  cs_if_not_exists :: bool

definition CHDB_STRUCTURE_FROM :: string where "CHDB_STRUCTURE_FROM = ''structure_from''"
definition CHDB_COPY_FROM :: string where "CHDB_COPY_FROM = ''copy_from''"

text \<open>\<open>chdbCreateFromURL\<close>; a NULL pointer is \<open>None\<close>.\<close>

record chdbCreateFromURL =
  structure_url :: "string option"
  copy_url :: "string option"

record 'g catalog_lib =
  RangeVarGetCreationNamespace :: "'g \<Rightarrow> range_var \<Rightarrow> pg_error + nat"
  get_relname_relid :: "'g \<Rightarrow> string \<Rightarrow> nat \<Rightarrow> nat"

definition InvalidOid :: nat where "InvalidOid = 0"

text \<open>A check that may raise, on any state.\<close>

definition checked :: "pg_error + 'a \<Rightarrow> 's \<Rightarrow> ('a, 's) outcome" where
  "checked m s = (case m of Inl e \<Rightarrow> Raise e s | Inr x \<Rightarrow> Return x s)"

lemma checked_simps [simp]: "checked (Inl e) s = Raise e s" "checked (Inr x) s = Return x s"
  by (simp_all add: checked_def)

lemma checked_guardE [simp]: "checked (guardE b e) s = (if b then Return () s else Raise e s)"
  by (simp add: guardE_def)

lemma checked_eq_Return: "checked m s = Return x t \<longleftrightarrow> m = Inr x \<and> t = s"
  by (cases m) auto

section \<open>The URL options\<close>

text \<open>
  The statement is the state that \<open>take_url_option\<close> and \<open>chdb_create_from_url\<close> work on, and what is left
  of it is known when they raise, too. \<open>take_url_option\<close>: the first option of the name leaves the list, before its value is read.\<close>

fun delete_option :: "string \<Rightarrow> def_elem list \<Rightarrow> def_elem list" where
  "delete_option name [] = []"
| "delete_option name (elem # options) =
     (if defname elem = name then options else elem # delete_option name options)"

definition take_url_option :: "def_lib \<Rightarrow> string \<Rightarrow> create_stmt \<Rightarrow> (string option, create_stmt) outcome" where
  "take_url_option lib name create =
     (case find (\<lambda>elem. defname elem = name) (cs_options create) of
        None \<Rightarrow> Return None create
      | Some elem \<Rightarrow>
          (let create = create\<lparr>cs_options := delete_option name (cs_options create)\<rparr>
           in bindO (checked (defGetString lib elem) create) (\<lambda>url create. Return (Some url) create)))"

definition chdb_creates_from_url :: "create_stmt \<Rightarrow> bool" where
  "chdb_creates_from_url create =
     list_ex (\<lambda>elem. defname elem = CHDB_STRUCTURE_FROM \<or> defname elem = CHDB_COPY_FROM) (cs_options create)"

definition error_if_relation_exists :: "'g catalog_lib \<Rightarrow> 'g \<Rightarrow> create_stmt \<Rightarrow> pg_error + unit" where
  "error_if_relation_exists cat g create =
     bindE (RangeVarGetCreationNamespace cat g (cs_relation create)) (\<lambda>nspid.
       let name = rv_relname (cs_relation create);
           report = ereport ERRCODE_DUPLICATE_TABLE (''relation \"'' @ name @ ''\" already exists'')
       in if get_relname_relid cat g name nspid = InvalidOid then Inr ()
          else if cs_if_not_exists create then
            Inl (report
              \<lparr>errdetail := Some ''CREATE TABLE IF NOT EXISTS neither derives columns nor copies rows from a URL.'',
               errhint := Some ''Use COPY to load an existing relation.''\<rparr>)
          else Inl report)"

definition has_columns :: "create_stmt \<Rightarrow> bool" where
  "has_columns create \<longleftrightarrow>
     cs_tableElts create \<noteq> [] \<or> cs_inhRelations create \<noteq> [] \<or> cs_partbound create \<or> cs_ofTypename create"

definition chdb_create_from_url ::
  "def_lib \<Rightarrow> 'g catalog_lib \<Rightarrow> 'g \<Rightarrow> create_stmt \<Rightarrow> (chdbCreateFromURL, create_stmt) outcome"
where
  "chdb_create_from_url lib cat g create =
     bindO (take_url_option lib CHDB_STRUCTURE_FROM create) (\<lambda>s create.
     bindO (take_url_option lib CHDB_COPY_FROM create) (\<lambda>c create.
     bindO (checked (guardE (\<not> (s \<noteq> None \<and> c \<noteq> None))
       ((ereport ERRCODE_SYNTAX_ERROR (''chdb: cannot combine option \"'' @ CHDB_STRUCTURE_FROM
          @ ''\" with option \"'' @ CHDB_COPY_FROM @ ''\"''))
          \<lparr>errdetail := Some (''\"'' @ CHDB_COPY_FROM @ ''\" derives the columns from the URL it loads.'')\<rparr>)) create) (\<lambda>_ create.
     bindO (checked (guardE (\<not> (s \<noteq> None \<and> has_columns create))
       ((ereport ERRCODE_SYNTAX_ERROR (''chdb: option \"'' @ CHDB_STRUCTURE_FROM
          @ ''\" requires a table that names no columns''))
          \<lparr>errdetail := Some ''A column list, an INHERITS clause, an OF type, or a partition each define columns.''\<rparr>)) create) (\<lambda>_ create.
     let s = (if c \<noteq> None \<and> \<not> has_columns create then c else s)
     in bindO (checked (error_if_relation_exists cat g create) create) (\<lambda>_ create.
     Return \<lparr>structure_url = s, copy_url = c\<rparr> create)))))"

section \<open>Columns of a URL\<close>

text \<open>\<open>pgch_pg_type\<close>, the PostgreSQL type that stands for a ClickHouse type.\<close>

record pgch_pg_type =
  pt_typid :: nat
  pt_typmod :: int
  pt_ndims :: nat
  pt_nullable :: bool

record 'ty type_lib =
  tl_parse :: "string \<Rightarrow> string + 'ty"
  tl_is_nested :: "'ty \<Rightarrow> bool"
  tl_pg_type_for :: "'ty \<Rightarrow> string \<Rightarrow> pg_error + pgch_pg_type"
  tl_is_column :: "pgch_pg_type \<Rightarrow> bool"
  tl_raise :: "string \<Rightarrow> sqlstate \<Rightarrow> string \<Rightarrow> pg_error"

definition TEXTARRAYOID :: nat where "TEXTARRAYOID = 1009"

text \<open>A pseudo type becomes an array of text with one more dimension.\<close>

definition as_text_array :: "pgch_pg_type \<Rightarrow> pgch_pg_type" where
  "as_text_array type = type\<lparr>pt_typid := TEXTARRAYOID, pt_typmod := -1, pt_ndims := pt_ndims type + 1\<rparr>"

definition text_array_decl :: "pgch_pg_type \<Rightarrow> string" where
  "text_array_decl type = ''text[]'' @ concat (replicate (pt_ndims type - 1) ''[]'')"

definition column_type :: "'ty type_lib \<Rightarrow> chdbDescribedColumn \<Rightarrow> pgch_pg_type \<Rightarrow> pgch_pg_type \<times> string list" where
  "column_type tlib described type =
     (if pt_typid type \<noteq> InvalidOid \<and> \<not> tl_is_column tlib type then
        (as_text_array type, [''chdb: column \"'' @ fst described @ ''\" of type \"'' @ snd described
           @ ''\" converted to '' @ text_array_decl (as_text_array type)])
      else (type, []))"

definition make_column :: "string \<Rightarrow> pgch_pg_type \<Rightarrow> column_def" where
  "make_column name type =
     \<lparr>colname = name, col_typid = pt_typid type, col_typmod = pt_typmod type,
      arrayBounds = replicate (pt_ndims type) (-1), is_not_null = (\<not> pt_nullable type)\<rparr>"

text \<open>What the loop of \<open>chdb_url_columns\<close> builds.\<close>

record url_columns =
  uc_structure :: string
  uc_nested :: bool
  uc_notices :: "string list"
  uc_columns :: "column_def list"

definition add_structure ::
  "pgch_types \<Rightarrow> bool \<Rightarrow> chdbDescribedColumn \<Rightarrow> bool \<Rightarrow> url_columns \<Rightarrow> url_columns"
where
  "add_structure pc infer described nested u =
     (if infer then
        u\<lparr>uc_structure := uc_structure u @ (if uc_structure u \<noteq> [] then '', '' else [])
            @ quote_ch_ident pc (fst described) @ '' '' @ snd described,
          uc_nested := (uc_nested u \<or> nested)\<rparr>
      else u)"

definition add_url_column ::
  "pgch_types \<Rightarrow> 'ty type_lib \<Rightarrow> bool \<Rightarrow> chdbDescribedColumn \<Rightarrow> url_columns \<Rightarrow> pg_error + url_columns"
where
  "add_url_column pc tlib infer described u =
     (let at = ''column \"'' @ fst described @ ''\"''
      in case tl_parse tlib (snd described) of
           Inl err \<Rightarrow> Inl (tl_raise tlib err ERRCODE_FEATURE_NOT_SUPPORTED at)
         | Inr parsed \<Rightarrow>
             bindE (tl_pg_type_for tlib parsed at) (\<lambda>type.
               let u = add_structure pc infer described (tl_is_nested tlib parsed) u;
                   (type, notices) = column_type tlib described type
               in if \<not> tl_is_column tlib type then
                    Inl ((ereport ERRCODE_FEATURE_NOT_SUPPORTED
                      (''chdb: no Postgres type for column \"'' @ fst described @ ''\" of type \"''
                        @ snd described @ ''\"''))
                      \<lparr>errhint := Some ''Use a \"structure\" option that maps the column to String.''\<rparr>)
                  else Inr (u\<lparr>uc_notices := uc_notices u @ notices,
                              uc_columns := uc_columns u @ [make_column (fst described) type]\<rparr>)))"

fun add_url_columns ::
  "pgch_types \<Rightarrow> 'ty type_lib \<Rightarrow> bool \<Rightarrow> chdbDescribedColumn list \<Rightarrow> url_columns \<Rightarrow> pg_error + url_columns"
where
  "add_url_columns pc tlib infer [] u = Inr u"
| "add_url_columns pc tlib infer (d # ds) u =
     bindE (add_url_column pc tlib infer d u) (add_url_columns pc tlib infer ds)"

fun double_backslashes :: "string \<Rightarrow> string" where
  "double_backslashes [] = []"
| "double_backslashes (c # cs) =
     (if c = CHR 0x5C then [CHR 0x5C] else []) @ c # double_backslashes cs"

definition infer_structure :: "chdbCopyContext \<Rightarrow> bool" where
  "infer_structure ctx \<longleftrightarrow> cx_structure ctx = [] \<or> cx_structure ctx = ''auto''"

text \<open>
  \<open>chdb_url_columns\<close>: the columns, the context it leaves and the notices. The notices of a
  statement that raises are not part of the model.
\<close>

definition url_columns_of ::
  "pgch_types \<Rightarrow> 'ty type_lib \<Rightarrow> chdbCopyContext \<Rightarrow> chdbDescribedColumn list
     \<Rightarrow> pg_error + column_def list \<times> chdbCopyContext \<times> string list"
where
  "url_columns_of pc tlib ctx described =
     (let infer = infer_structure ctx
      in bindE (add_url_columns pc tlib infer described
                  \<lparr>uc_structure = [], uc_nested = False, uc_notices = [], uc_columns = []\<rparr>) (\<lambda>u.
         if uc_columns u = [] then
           Inl (ereport ERRCODE_INVALID_PARAMETER_VALUE (''chdb: no columns found at \"'' @ cx_url ctx @ ''\"''))
         else
           (let ctx = (if uc_nested u then ctx\<lparr>cx_preserve_nested := True\<rparr> else ctx);
                ctx = (if infer then ctx\<lparr>cx_structure := double_backslashes (uc_structure u)\<rparr> else ctx)
            in Inr (uc_columns u, ctx, uc_notices u))))"

definition chdb_url_columns ::
  "('v, 'c, 'e) command_env \<Rightarrow> 'ty type_lib \<Rightarrow> chdbCopyContext \<Rightarrow> 'v world
     \<Rightarrow> (column_def list \<times> chdbCopyContext \<times> string list, 'v world) outcome"
where
  "chdb_url_columns ce tlib ctx w =
     bindO (chdb_describe ce ctx w) (\<lambda>described w.
       case url_columns_of (ce_types ce) tlib ctx described of
         Inl e \<Rightarrow> Raise e w
       | Inr r \<Rightarrow> Return r w)"

section \<open>Which statements are accepted\<close>

text \<open>The value of the first option of a name, if its value can be read.\<close>

definition first_value :: "def_lib \<Rightarrow> string \<Rightarrow> def_elem list \<Rightarrow> (pg_error + string) option" where
  "first_value lib name options = map_option (defGetString lib) (find (\<lambda>elem. defname elem = name) options)"

lemma take_url_option_Return:
  "take_url_option lib name create = Return u create' \<longleftrightarrow>
     first_value lib name (cs_options create) = map_option Inr u
     \<and> create' = create\<lparr>cs_options := delete_option name (cs_options create)\<rparr>"
proof (cases "find (\<lambda>elem. defname elem = name) (cs_options create)")
  case None
  have "delete_option name xs = xs" if "find (\<lambda>elem. defname elem = name) xs = None" for xs
    using that by (induction xs) (auto split: if_splits)
  with None show ?thesis by (auto simp: take_url_option_def first_value_def)
next
  case (Some e)
  then show ?thesis
    by (cases u) (auto simp: take_url_option_def first_value_def bindO_eq_Return checked_eq_Return Let_def)
qed

lemma find_delete_option:
  "n \<noteq> name \<Longrightarrow> find (\<lambda>elem. defname elem = n) (delete_option name xs) = find (\<lambda>elem. defname elem = n) xs"
  by (induction xs) auto

lemma error_if_relation_exists_Inr:
  "error_if_relation_exists cat g create = Inr u \<longleftrightarrow>
     (\<exists>nsp. RangeVarGetCreationNamespace cat g (cs_relation create) = Inr nsp
       \<and> get_relname_relid cat g (rv_relname (cs_relation create)) nsp = InvalidOid)"
  by (auto simp: error_if_relation_exists_def error_simps Let_def)

lemma create_from_url_Return:
  "chdb_create_from_url lib cat g create = Return urls create' \<longleftrightarrow>
     (\<exists>s c. first_value lib CHDB_STRUCTURE_FROM (cs_options create) = map_option Inr s
       \<and> first_value lib CHDB_COPY_FROM (cs_options create) = map_option Inr c
       \<and> (s = None \<or> c = None) \<and> (s = None \<or> \<not> has_columns create)
       \<and> error_if_relation_exists cat g create = Inr ()
       \<and> urls = \<lparr>structure_url = (if c \<noteq> None \<and> \<not> has_columns create then c else s), copy_url = c\<rparr>
       \<and> create' = create\<lparr>cs_options :=
            delete_option CHDB_COPY_FROM (delete_option CHDB_STRUCTURE_FROM (cs_options create))\<rparr>)"
proof -
  have f: "first_value lib CHDB_COPY_FROM (delete_option CHDB_STRUCTURE_FROM xs) = first_value lib CHDB_COPY_FROM xs" for xs
    by (simp add: first_value_def find_delete_option CHDB_COPY_FROM_def CHDB_STRUCTURE_FROM_def)
  have h: "has_columns (create\<lparr>cs_options := o'\<rparr>) = has_columns create"
    "error_if_relation_exists cat g (create\<lparr>cs_options := o'\<rparr>) = error_if_relation_exists cat g create" for o'
    by (simp_all add: has_columns_def error_if_relation_exists_def Let_def)
  have g: "(if b then Return () t else Raise e t) = Return u v \<longleftrightarrow> b \<and> v = t" for b e u and t v :: create_stmt
    by auto
  show ?thesis
    by (auto simp: chdb_create_from_url_def bindO_eq_Return take_url_option_Return checked_eq_Return f h g Let_def)
qed

text \<open>It either returns or raises, and all it ever does to the statement is to delete options.\<close>

lemma subseq_delete_option: "subseq (delete_option name xs) xs"
  by (induction xs) auto

definition fewer_options :: "create_stmt \<Rightarrow> create_stmt \<Rightarrow> bool" where
  "fewer_options create create' \<longleftrightarrow> (\<exists>os. subseq os (cs_options create) \<and> create' = create\<lparr>cs_options := os\<rparr>)"

lemma fewer_options_refl: "fewer_options create create"
  unfolding fewer_options_def by (rule exI [of _ "cs_options create"]) simp

lemma fewer_options_trans:
  assumes "fewer_options create c" "fewer_options c c'"
  shows "fewer_options create c'"
proof -
  obtain os os' where o: "subseq os (cs_options create)" "c = create\<lparr>cs_options := os\<rparr>" "subseq os' os"
    "c' = c\<lparr>cs_options := os'\<rparr>"
    using assms by (auto simp: fewer_options_def)
  then have "subseq os' (cs_options create)" "c' = create\<lparr>cs_options := os'\<rparr>"
    using subseq_order.trans [of os' os] by simp_all
  then show ?thesis by (auto simp: fewer_options_def)
qed

lemma take_url_option_ends:
  "\<exists>create'. fewer_options create create'
     \<and> ((\<exists>u. take_url_option lib name create = Return u create') \<or> (\<exists>e. take_url_option lib name create = Raise e create'))"
proof -
  have "fewer_options create (create\<lparr>cs_options := delete_option name (cs_options create)\<rparr>)"
    using subseq_delete_option by (auto simp: fewer_options_def)
  moreover note fewer_options_refl [of create]
  ultimately show ?thesis
    by (auto simp: take_url_option_def checked_def Let_def split: option.split sum.split)
qed

lemma create_from_url_ends:
  obtains (accepted) urls create' where "chdb_create_from_url lib cat g create = Return urls create'" "fewer_options create create'"
    | (refused) e create' where "chdb_create_from_url lib cat g create = Raise e create'" "fewer_options create create'"
proof -
  obtain c1 where c1: "fewer_options create c1" "(\<exists>u. take_url_option lib CHDB_STRUCTURE_FROM create = Return u c1)
      \<or> (\<exists>e. take_url_option lib CHDB_STRUCTURE_FROM create = Raise e c1)"
    using take_url_option_ends by blast
  obtain c2 where c2: "fewer_options c1 c2" "(\<exists>u. take_url_option lib CHDB_COPY_FROM c1 = Return u c2)
      \<or> (\<exists>e. take_url_option lib CHDB_COPY_FROM c1 = Raise e c2)"
    using take_url_option_ends by blast
  note f = c1(1) fewer_options_trans [OF c1(1) c2(1)]
  have "\<exists>r create'. fewer_options create create'
      \<and> chdb_create_from_url lib cat g create = (case r of Inr urls \<Rightarrow> Return urls create' | Inl e \<Rightarrow> Raise e create')"
  proof (cases "\<exists>e. take_url_option lib CHDB_STRUCTURE_FROM create = Raise e c1")
    case True
    then obtain e where "chdb_create_from_url lib cat g create = Raise e c1" by (auto simp: chdb_create_from_url_def)
    with f(1) show ?thesis by (intro exI [of _ "Inl e"] exI [of _ c1]) simp
  next
    case False
    with c1(2) obtain u where u: "take_url_option lib CHDB_STRUCTURE_FROM create = Return u c1" by blast
    show ?thesis
    proof (cases "\<exists>e. take_url_option lib CHDB_COPY_FROM c1 = Raise e c2")
      case True
      with u obtain e where "chdb_create_from_url lib cat g create = Raise e c2" by (auto simp: chdb_create_from_url_def)
      with f(2) show ?thesis by (intro exI [of _ "Inl e"] exI [of _ c2]) simp
    next
      case False
      with c2(2) obtain v where v: "take_url_option lib CHDB_COPY_FROM c1 = Return v c2" by blast
      have "\<exists>r. chdb_create_from_url lib cat g create = (case r of Inr urls \<Rightarrow> Return urls c2 | Inl e \<Rightarrow> Raise e c2)"
        by (cases "error_if_relation_exists cat g c2")
          (auto simp: chdb_create_from_url_def u v Let_def intro: exI [of _ "Inl _"] exI [of _ "Inr _"])
      with f(2) show ?thesis by blast
    qed
  qed
  then obtain r create' where r: "fewer_options create create'"
    "chdb_create_from_url lib cat g create = (case r of Inr urls \<Rightarrow> Return urls create' | Inl e \<Rightarrow> Raise e create')" by blast
  then show thesis using accepted refused by (cases r) auto
qed

lemma first_value_some:
  "chdb_creates_from_url create \<Longrightarrow> first_value lib CHDB_STRUCTURE_FROM (cs_options create) \<noteq> None
     \<or> first_value lib CHDB_COPY_FROM (cs_options create) \<noteq> None"
  by (auto simp: chdb_creates_from_url_def first_value_def list_ex_iff find_None_iff)

text \<open>
  Of a CREATE TABLE with a URL option that is accepted, the relation does not exist yet, and
  the columns have exactly one origin: they come from the URL if and only if the statement defines
  none itself. Rows are copied from the URL of \<open>copy_from\<close>, and when the same statement takes its
  columns from a URL it is that one. The first URL option of each name is gone from the
  statement and nothing else of it has changed.
\<close>

theorem create_from_url_contract:
  assumes "chdb_creates_from_url create" and "chdb_create_from_url lib cat g create = Return urls create'"
  shows "(\<exists>nsp. RangeVarGetCreationNamespace cat g (cs_relation create) = Inr nsp
        \<and> get_relname_relid cat g (rv_relname (cs_relation create)) nsp = InvalidOid)
    \<and> (structure_url urls \<noteq> None \<longleftrightarrow> \<not> has_columns create)
    \<and> (copy_url urls \<noteq> None \<longrightarrow> first_value lib CHDB_COPY_FROM (cs_options create) = map_option Inr (copy_url urls)
        \<and> structure_url urls \<in> {None, copy_url urls})
    \<and> create' = create\<lparr>cs_options :=
        delete_option CHDB_COPY_FROM (delete_option CHDB_STRUCTURE_FROM (cs_options create))\<rparr>"
proof -
  obtain s c where "first_value lib CHDB_STRUCTURE_FROM (cs_options create) = map_option Inr s"
    "first_value lib CHDB_COPY_FROM (cs_options create) = map_option Inr c" "s = None \<or> c = None"
    "s = None \<or> \<not> has_columns create" "error_if_relation_exists cat g create = Inr ()"
    "urls = \<lparr>structure_url = (if c \<noteq> None \<and> \<not> has_columns create then c else s), copy_url = c\<rparr>"
    "create' = create\<lparr>cs_options :=
        delete_option CHDB_COPY_FROM (delete_option CHDB_STRUCTURE_FROM (cs_options create))\<rparr>"
    using assms(2) unfolding create_from_url_Return by blast
  with first_value_some [OF assms(1), of lib] show ?thesis
    by (cases s; cases c) (auto simp: error_if_relation_exists_Inr)
qed

definition ex_create :: create_stmt where
  "ex_create = \<lparr>cs_relation = \<lparr>rv_schemaname = None, rv_relname = ''t''\<rparr>,
     cs_options = [\<lparr>defname = ''fillfactor'', defarg = Some ''70''\<rparr>, \<lparr>defname = ''copy_from'', defarg = Some ''s3://b/k''\<rparr>],
     cs_tableElts = [], cs_inhRelations = [], cs_partbound = False, cs_ofTypename = False, cs_if_not_exists = False\<rparr>"

definition ex_catalog :: "unit catalog_lib" where
  "ex_catalog = \<lparr>RangeVarGetCreationNamespace = (\<lambda>_ _. Inr 2200), get_relname_relid = (\<lambda>_ _ _. 0)\<rparr>"

theorem create_from_url_contract_witness:
  "\<exists>urls create'. chdb_create_from_url ex_def_lib ex_catalog () ex_create = Return urls create'
     \<and> structure_url urls \<noteq> None \<and> cs_options create' = [\<lparr>defname = ''fillfactor'', defarg = Some ''70''\<rparr>]"
proof -
  have u: "chdb_creates_from_url ex_create"
    by (simp add: chdb_creates_from_url_def ex_create_def CHDB_COPY_FROM_def CHDB_STRUCTURE_FROM_def)
  obtain urls create' where c: "chdb_create_from_url ex_def_lib ex_catalog () ex_create = Return urls create'"
    by (simp add: chdb_create_from_url_def take_url_option_def error_if_relation_exists_def Let_def ex_create_def
        ex_catalog_def ex_def_lib_def CHDB_COPY_FROM_def CHDB_STRUCTURE_FROM_def InvalidOid_def)
  from create_from_url_contract [OF u c] c show ?thesis
    by (intro exI [of _ urls] exI [of _ create'])
      (auto simp: has_columns_def ex_create_def CHDB_COPY_FROM_def CHDB_STRUCTURE_FROM_def)
qed

section \<open>What the columns are\<close>

text \<open>The column of one described column.\<close>

definition column_for :: "'ty type_lib \<Rightarrow> chdbDescribedColumn \<Rightarrow> column_def \<Rightarrow> bool" where
  "column_for tlib described col \<longleftrightarrow>
     (\<exists>parsed type. tl_parse tlib (snd described) = Inr parsed
       \<and> tl_pg_type_for tlib parsed (''column \"'' @ fst described @ ''\"'') = Inr type
       \<and> (if pt_typid type = InvalidOid \<or> tl_is_column tlib type
          then tl_is_column tlib type \<and> col = make_column (fst described) type
          else tl_is_column tlib (as_text_array type) \<and> col = make_column (fst described) (as_text_array type)))"

abbreviation nested_type :: "'ty type_lib \<Rightarrow> chdbDescribedColumn \<Rightarrow> bool" where
  "nested_type tlib d \<equiv> (\<exists>parsed. tl_parse tlib (snd d) = Inr parsed \<and> tl_is_nested tlib parsed)"

text \<open>The clause of all described columns.\<close>

fun described_clause :: "pgch_types \<Rightarrow> chdbDescribedColumn list \<Rightarrow> string" where
  "described_clause pc [] = []"
| "described_clause pc [d] = quote_ch_ident pc (fst d) @ '' '' @ snd d"
| "described_clause pc (d # ds) = quote_ch_ident pc (fst d) @ '' '' @ snd d @ '', '' @ described_clause pc ds"

lemma add_url_column_Inr:
  assumes "add_url_column pc tlib infer d u = Inr v"
  shows "\<exists>col. column_for tlib d col \<and> uc_columns v = uc_columns u @ [col]
    \<and> uc_structure v = (if infer then uc_structure u @ (if uc_structure u \<noteq> [] then '', '' else [])
         @ quote_ch_ident pc (fst d) @ '' '' @ snd d else uc_structure u)
    \<and> uc_nested v = (uc_nested u \<or> infer \<and> nested_type tlib d)"
  using assms
  by (auto simp: add_url_column_def add_structure_def column_type_def column_for_def error_simps Let_def
      split: sum.splits if_splits)

lemma add_url_columns_Inr:
  assumes "add_url_columns pc tlib infer ds u = Inr v"
  shows "\<exists>cols. list_all2 (column_for tlib) ds cols \<and> uc_columns v = uc_columns u @ cols
    \<and> uc_structure v = (if infer then uc_structure u @ (if uc_structure u \<noteq> [] \<and> ds \<noteq> [] then '', '' else [])
         @ described_clause pc ds else uc_structure u)
    \<and> uc_nested v = (uc_nested u \<or> infer \<and> list_ex (nested_type tlib) ds)"
  using assms
proof (induction pc tlib infer ds u rule: add_url_columns.induct)
  case (2 pc tlib infer d ds u)
  then obtain m where m: "add_url_column pc tlib infer d u = Inr m" "add_url_columns pc tlib infer ds m = Inr v"
    by (auto simp: error_simps)
  from add_url_column_Inr [OF m(1)] obtain col where c: "column_for tlib d col" "uc_columns m = uc_columns u @ [col]"
    "uc_structure m = (if infer then uc_structure u @ (if uc_structure u \<noteq> [] then '', '' else [])
         @ quote_ch_ident pc (fst d) @ '' '' @ snd d else uc_structure u)"
    "uc_nested m = (uc_nested u \<or> infer \<and> nested_type tlib d)" by blast
  from "2.IH" [OF m(2)] obtain cols where r: "list_all2 (column_for tlib) ds cols" "uc_columns v = uc_columns m @ cols"
    "uc_structure v = (if infer then uc_structure m @ (if uc_structure m \<noteq> [] \<and> ds \<noteq> [] then '', '' else [])
         @ described_clause pc ds else uc_structure m)"
    "uc_nested v = (uc_nested m \<or> infer \<and> list_ex (nested_type tlib) ds)" by blast
  have "uc_structure v = (if infer then uc_structure u @ (if uc_structure u \<noteq> [] then '', '' else [])
         @ described_clause pc (d # ds) else uc_structure u)"
    using r(3) c(3) by (cases ds) auto
  with c r show ?case by (intro exI [of _ "col # cols"]) auto
qed simp

lemma chdb_url_columns_Return:
  assumes "chdb_url_columns ce tlib ctx w = Return (cols, ctx', notices) t"
  obtains described u where "chdb_describe ce ctx w = Return described t"
    "add_url_columns (ce_types ce) tlib (infer_structure ctx) described
       \<lparr>uc_structure = [], uc_nested = False, uc_notices = [], uc_columns = []\<rparr> = Inr u"
    "uc_columns u = cols" "cols \<noteq> []"
    "ctx' = (let c = (if uc_nested u then ctx\<lparr>cx_preserve_nested := True\<rparr> else ctx)
       in if infer_structure ctx then c\<lparr>cx_structure := double_backslashes (uc_structure u)\<rparr> else c)"
proof -
  obtain described w1 where r: "chdb_describe ce ctx w = Return described w1"
    "(case url_columns_of (ce_types ce) tlib ctx described of Inl e \<Rightarrow> Raise e w1 | Inr r \<Rightarrow> Return r w1)
       = Return (cols, ctx', notices) t"
    using assms unfolding chdb_url_columns_def bindO_eq_Return by blast
  then have d: "chdb_describe ce ctx w = Return described t"
    "url_columns_of (ce_types ce) tlib ctx described = Inr (cols, ctx', notices)"
    by (cases "url_columns_of (ce_types ce) tlib ctx described"; simp)+
  then show thesis
    by (auto simp: url_columns_of_def bindE_eq_Inr Let_def split: if_splits intro!: that [OF d(1)])
qed

text \<open>
  C29. The columns derived from a URL can be columns of a table: there is at least one, they are the
  described columns in order and by name, and each has a PostgreSQL type that a table column
  may have, declared with one array bound per nesting level and NOT NULL exactly when the
  type is not nullable. A type that is none becomes an array of text one level deeper.
\<close>

theorem url_columns_typed:
  assumes "chdb_url_columns ce tlib ctx w = Return (cols, ctx', notices) t"
  shows "\<exists>described. chdb_describe ce ctx w = Return described t \<and> cols \<noteq> []
    \<and> list_all2 (\<lambda>d col. colname col = fst d \<and> (\<exists>type. tl_is_column tlib type \<and> col_typid col = pt_typid type
          \<and> col_typmod col = pt_typmod type \<and> arrayBounds col = replicate (pt_ndims type) (-1)
          \<and> is_not_null col = (\<not> pt_nullable type)
          \<and> (\<exists>parsed original. tl_parse tlib (snd d) = Inr parsed
               \<and> tl_pg_type_for tlib parsed (''column \"'' @ fst d @ ''\"'') = Inr original
               \<and> type = (if tl_is_column tlib original then original else as_text_array original))))
        described cols"
proof -
  obtain described u where d: "chdb_describe ce ctx w = Return described t"
    "add_url_columns (ce_types ce) tlib (infer_structure ctx) described
       \<lparr>uc_structure = [], uc_nested = False, uc_notices = [], uc_columns = []\<rparr> = Inr u"
    "uc_columns u = cols" "cols \<noteq> []"
    by (rule chdb_url_columns_Return [OF assms]) blast
  from add_url_columns_Inr [OF d(2)] d(3) have "list_all2 (column_for tlib) described cols" by auto
  then have "list_all2 (\<lambda>d col. colname col = fst d \<and> (\<exists>type. tl_is_column tlib type \<and> col_typid col = pt_typid type
          \<and> col_typmod col = pt_typmod type \<and> arrayBounds col = replicate (pt_ndims type) (-1)
          \<and> is_not_null col = (\<not> pt_nullable type)
          \<and> (\<exists>parsed original. tl_parse tlib (snd d) = Inr parsed
               \<and> tl_pg_type_for tlib parsed (''column \"'' @ fst d @ ''\"'') = Inr original
               \<and> type = (if tl_is_column tlib original then original else as_text_array original))))
        described cols"
    by (rule list_all2_mono) (auto simp: column_for_def make_column_def split: if_splits)
  with d(1,4) show ?thesis by blast
qed

definition ex_types :: "string type_lib" where
  "ex_types = \<lparr>tl_parse = Inr, tl_is_nested = (\<lambda>_. False),
     tl_pg_type_for = (\<lambda>_ _. Inr \<lparr>pt_typid = 25, pt_typmod = -1, pt_ndims = 0, pt_nullable = False\<rparr>),
     tl_is_column = (\<lambda>_. True), tl_raise = (\<lambda>m c _. ereport c m)\<rparr>"

definition ex_create_ctx :: chdbCopyContext where
  "ex_create_ctx = ex_copy\<lparr>cx_structure := []\<rparr>"

lemma ex_describe: "\<exists>t. chdb_describe ex_command ex_create_ctx ex_world = Return [(''a'', ''String'')] t"
proof -
  obtain q p where "make_ch_query unix_port (describe_context ex_create_ctx) = Inr (q, p)" "small_request q p"
    by (simp add: query_eval example_context_def az_example_def ex_copy_def ex_create_ctx_def describe_context_def)
  then show ?thesis by (rule ex_describe_runs)
qed

lemma ex_url_columns:
  "\<exists>ctx' t. chdb_url_columns ex_command ex_types ex_create_ctx ex_world
     = Return ([make_column ''a'' \<lparr>pt_typid = 25, pt_typmod = -1, pt_ndims = 0, pt_nullable = False\<rparr>], ctx', []) t"
proof -
  obtain t where "chdb_describe ex_command ex_create_ctx ex_world = Return [(''a'', ''String'')] t"
    using ex_describe by blast
  then show ?thesis
    by (simp add: chdb_url_columns_def url_columns_of_def Let_def add_url_column_def column_type_def add_structure_def
        ex_types_def)
qed

theorem url_columns_typed_witness:
  "\<exists>cols ctx' t. chdb_url_columns ex_command ex_types ex_create_ctx ex_world = Return (cols, ctx', []) t
     \<and> cols \<noteq> [] \<and> map colname cols = [''a'']"
proof -
  obtain ctx' t where c: "chdb_url_columns ex_command ex_types ex_create_ctx ex_world
     = Return ([make_column ''a'' \<lparr>pt_typid = 25, pt_typmod = -1, pt_ndims = 0, pt_nullable = False\<rparr>], ctx', []) t"
    using ex_url_columns by blast
  obtain t' where d: "chdb_describe ex_command ex_create_ctx ex_world = Return [(''a'', ''String'')] t'"
    using ex_describe by blast
  from url_columns_typed [OF c] d c show ?thesis by (auto simp: make_column_def)
qed

text \<open>The reading that the doubling is undone by: a pair of backslashes stands for one.\<close>

fun halve_backslashes :: "string \<Rightarrow> string" where
  "halve_backslashes (c # d # cs) =
     (if c = CHR 0x5C \<and> d = CHR 0x5C then c # halve_backslashes cs else c # halve_backslashes (d # cs))"
| "halve_backslashes cs = cs"

lemma halve_double: "halve_backslashes (double_backslashes s) = s"
proof (induction s)
  case (Cons c cs)
  have "halve_backslashes (c # xs) = c # halve_backslashes xs" if "c \<noteq> CHR 0x5C" for xs
    using that by (cases xs) simp_all
  with Cons show ?case by auto
qed simp

text \<open>
  C30. The structure that a CREATE TABLE carries over from the DESCRIBE to the copy is the described
  columns' own: a structure that was given (and is not \<open>auto\<close>) stays as it is, and otherwise the
  parameter, with its pairs of backslashes read as one, is the described columns in order, each
  with its quoted name and its type as reported. Nested columns are kept as such exactly when the
  inferred structure has one, and nothing else of the context changes.
\<close>

theorem url_structure_roundtrip:
  assumes "chdb_url_columns ce tlib ctx w = Return (cols, ctx', notices) t"
  shows "\<exists>described. chdb_describe ce ctx w = Return described t
    \<and> (if infer_structure ctx
       then halve_backslashes (cx_structure ctx') = described_clause (ce_types ce) described
         \<and> cx_preserve_nested ctx' = (cx_preserve_nested ctx \<or> list_ex (nested_type tlib) described)
       else ctx' = ctx)
    \<and> ctx' = ctx\<lparr>cx_structure := cx_structure ctx', cx_preserve_nested := cx_preserve_nested ctx'\<rparr>"
proof -
  obtain described u where d: "chdb_describe ce ctx w = Return described t"
    "add_url_columns (ce_types ce) tlib (infer_structure ctx) described
       \<lparr>uc_structure = [], uc_nested = False, uc_notices = [], uc_columns = []\<rparr> = Inr u"
    "ctx' = (let c = (if uc_nested u then ctx\<lparr>cx_preserve_nested := True\<rparr> else ctx)
       in if infer_structure ctx then c\<lparr>cx_structure := double_backslashes (uc_structure u)\<rparr> else c)"
    by (rule chdb_url_columns_Return [OF assms]) blast
  from add_url_columns_Inr [OF d(2)]
  have "uc_structure u = (if infer_structure ctx then described_clause (ce_types ce) described else [])"
    "uc_nested u = (infer_structure ctx \<and> list_ex (nested_type tlib) described)" by auto
  with d(1,3) show ?thesis by (intro exI [of _ described]) (auto simp: halve_double Let_def)
qed

theorem url_structure_roundtrip_witness:
  "\<exists>cols ctx' t. chdb_url_columns ex_command ex_types ex_create_ctx ex_world = Return (cols, ctx', []) t
     \<and> halve_backslashes (cx_structure ctx') = ''a String''"
proof -
  obtain cols ctx' t where c: "chdb_url_columns ex_command ex_types ex_create_ctx ex_world = Return (cols, ctx', []) t"
    using ex_url_columns by blast
  obtain t' where d: "chdb_describe ex_command ex_create_ctx ex_world = Return [(''a'', ''String'')] t'"
    using ex_describe by blast
  have "infer_structure ex_create_ctx" by (simp add: infer_structure_def ex_create_ctx_def)
  with url_structure_roundtrip [OF c] d c show ?thesis by (auto simp: ex_command_def)
qed

end
