(* ===== verification/Utility_Hook.thy ===== *)
theory Utility_Hook
  imports Create_Table
begin

text \<open>
  The process utility hook, \<open>src/hook/hook.c\<close>: which statements it takes over, the privilege
  checks of a copy, and CREATE TABLE from a URL. PostgreSQL is the parameter \<open>hook_env\<close> (roles,
  the read-only flag, table access, permissions, row-level security, the previous hook) over an
  opaque catalog. A \<open>session\<close> is what a statement changes: the helper and table effects, the
  catalog, the relations held open and the locks taken, the completion tag, the notices, and the
  caller's parse tree. A statement that raises leaves the session for the abort of the transaction.
  Callers of a utility statement may pass no \<open>QueryCompletion\<close> (the functions of the SQL language
  do): \<open>ss_qc\<close> says whether there is one, and \<open>ss_segv\<close> that the process has written through the null
  pointer instead, which ends it.
\<close>

section \<open>Statements and the server\<close>

datatype file_role = ROLE_PG_READ_SERVER_FILES | ROLE_PG_WRITE_SERVER_FILES

datatype lockmode = AccessShareLock | RowExclusiveLock

datatype rls_status = RLS_NONE | RLS_NONE_ENV | RLS_ENABLED

record copy_stmt =
  cp_relation :: "range_var option"
  cp_attlist :: "string list"
  cp_is_from :: bool
  cp_is_program :: bool
  cp_filename :: "string option"
  cp_options :: "def_elem list"
  cp_whereClause :: bool

datatype statement = CopyStatement copy_stmt | CreateStatement create_stmt | OtherStatement string

record ('v, 'g) session =
  ss_world :: "'v world"
  ss_catalog :: 'g
  ss_open :: "nat list"
  ss_locks :: "(nat \<times> lockmode) list"
  ss_qc :: bool
  ss_completion :: "(string \<times> nat) option"
  ss_segv :: bool
  ss_notices :: "string list"
  ss_tree :: statement

record ('v, 'c, 'e, 'ty, 'g) hook_env =
  he_command :: "('v, 'c, 'e) command_env"
  he_no_file :: bool
  he_gucs :: settings
  he_defs :: def_lib
  he_types :: "'ty type_lib"
  he_catalog :: "'g catalog_lib"
  has_privs_of_role :: "file_role \<Rightarrow> bool"
  XactReadOnly :: bool
  table_openrv :: "'g \<Rightarrow> range_var \<Rightarrow> lockmode \<Rightarrow> pg_error + relation"
  CopyGetAttnums :: "relation \<Rightarrow> string list \<Rightarrow> pg_error + nat list"
  ExecCheckPermissions :: "perm_info \<Rightarrow> pg_error option"
  check_enable_rls :: "nat \<Rightarrow> pg_error + rls_status"
  relkind_not_supported :: "relkind \<Rightarrow> string"
  CommandCounterIncrement :: "'g \<Rightarrow> 'g"
  PrevProcessUtility :: "statement \<Rightarrow> bool \<Rightarrow> ('v, 'g) session \<Rightarrow> (unit, ('v, 'g) session) outcome"

text \<open>An operation on the world, seen from a session.\<close>

definition on_session :: "('a, 'v world) outcome \<Rightarrow> ('v, 'g) session \<Rightarrow> ('a, ('v, 'g) session) outcome" where
  "on_session m s =
     (case m of Return x w \<Rightarrow> Return x (s\<lparr>ss_world := w\<rparr>) | Raise e w \<Rightarrow> Raise e (s\<lparr>ss_world := w\<rparr>)
      | Waiting \<Rightarrow> Waiting)"

text \<open>
  \<open>SetQueryCompletion\<close> with what follows it, and an operation on the statement: unless the caller's
  tree is read-only, it is the caller's tree that changes.
\<close>

definition SetQueryCompletion ::
  "string \<Rightarrow> nat \<Rightarrow> (('v, 'g) session \<Rightarrow> ('v, 'g) session) \<Rightarrow> ('v, 'g) session \<Rightarrow> ('v, 'g) session"
where
  "SetQueryCompletion tag n continue s =
     (if ss_qc s then continue (s\<lparr>ss_completion := Some (tag, n)\<rparr>) else s\<lparr>ss_segv := True\<rparr>)"

definition set_tree :: "bool \<Rightarrow> create_stmt \<Rightarrow> ('v, 'g) session \<Rightarrow> ('v, 'g) session" where
  "set_tree readOnlyTree create s = (if readOnlyTree then s else s\<lparr>ss_tree := CreateStatement create\<rparr>)"

definition on_tree ::
  "bool \<Rightarrow> ('a, create_stmt) outcome \<Rightarrow> ('v, 'g) session \<Rightarrow> ('a \<times> create_stmt, ('v, 'g) session) outcome"
where
  "on_tree readOnlyTree m s =
     (case m of
        Return x create \<Rightarrow> Return (x, create) (set_tree readOnlyTree create s)
      | Raise e create \<Rightarrow> Raise e (set_tree readOnlyTree create s)
      | Waiting \<Rightarrow> Waiting)"

definition PreventCommandIfReadOnly :: "('v, 'c, 'e, 'ty, 'g) hook_env \<Rightarrow> string \<Rightarrow> pg_error + unit" where
  "PreventCommandIfReadOnly env cmdname =
     guardE (\<not> XactReadOnly env) (ereport ERRCODE_READ_ONLY_SQL_TRANSACTION
       (''cannot execute '' @ cmdname @ '' in a read-only transaction''))"

section \<open>The checks of a copy\<close>

definition check_server_file_privileges :: "('v, 'c, 'e, 'ty, 'g) hook_env \<Rightarrow> bool \<Rightarrow> pg_error + unit" where
  "check_server_file_privileges env is_from =
     (if is_from then
        guardE (has_privs_of_role env ROLE_PG_READ_SERVER_FILES)
          ((ereport ERRCODE_INSUFFICIENT_PRIVILEGE ''chdb: permission denied to COPY from a file'')
            \<lparr>errdetail := Some ''Only roles with privileges of the \"pg_read_server_files\" role may COPY from a file.''\<rparr>)
      else
        guardE (has_privs_of_role env ROLE_PG_WRITE_SERVER_FILES)
          ((ereport ERRCODE_INSUFFICIENT_PRIVILEGE ''chdb: permission denied to COPY to a file'')
            \<lparr>errdetail := Some ''Only roles with privileges of the \"pg_write_server_files\" role may COPY to a file.''\<rparr>))"

text \<open>\<open>table_openrv\<close> and \<open>table_close(rel, NoLock)\<close>: closing keeps the lock.\<close>

definition open_table ::
  "('v, 'c, 'e, 'ty, 'g) hook_env \<Rightarrow> range_var \<Rightarrow> lockmode \<Rightarrow> ('v, 'g) session \<Rightarrow> (relation, ('v, 'g) session) outcome"
where
  "open_table env rv mode s =
     bindO (checked (table_openrv env (ss_catalog s) rv mode) s) (\<lambda>rel s.
       Return rel (s\<lparr>ss_open := relid rel # ss_open s, ss_locks := ss_locks s @ [(relid rel, mode)]\<rparr>))"

definition close_table :: "relation \<Rightarrow> ('v, 'g) session \<Rightarrow> ('v, 'g) session" where
  "close_table rel s = s\<lparr>ss_open := remove1 (relid rel) (ss_open s)\<rparr>"

definition copy_perm_info :: "copy_stmt \<Rightarrow> relation \<Rightarrow> nat list \<Rightarrow> perm_info" where
  "copy_perm_info copy rel attnums =
     \<lparr>perm_relid = relid rel, requiredPerms = (if cp_is_from copy then ACL_INSERT else ACL_SELECT),
      perm_cols = attnums\<rparr>"

definition check_copy_rls ::
  "('v, 'c, 'e, 'ty, 'g) hook_env \<Rightarrow> copy_stmt \<Rightarrow> relation \<Rightarrow> pg_error + unit"
where
  "check_copy_rls env copy rel =
     bindE (check_enable_rls env (relid rel)) (\<lambda>rls.
       guardE (rls \<noteq> RLS_ENABLED)
         ((ereport ERRCODE_FEATURE_NOT_SUPPORTED
            (''chdb: COPY '' @ (if cp_is_from copy then ''FROM'' else ''TO'') @ '' not supported with row-level security''))
           \<lparr>errdetail := Some (''Row-level security policies apply to relation \"'' @ relname rel @ ''\" for this role.'')\<rparr>))"

definition check_copy_relkind ::
  "('v, 'c, 'e, 'ty, 'g) hook_env \<Rightarrow> copy_stmt \<Rightarrow> relation \<Rightarrow> pg_error + unit"
where
  "check_copy_relkind env copy rel =
     guardE (\<not> (\<not> cp_is_from copy \<and> rd_relkind rel \<noteq> RELKIND_RELATION))
       ((ereport ERRCODE_WRONG_OBJECT_TYPE (''chdb: cannot copy from relation \"'' @ relname rel @ ''\"''))
         \<lparr>errdetail := Some (relkind_not_supported env (rd_relkind rel))\<rparr>)"

text \<open>\<open>open_copy_relation\<close>: the context with the relation, its columns and the checked entry.\<close>

definition open_copy_relation ::
  "('v, 'c, 'e, 'ty, 'g) hook_env \<Rightarrow> copy_stmt \<Rightarrow> range_var \<Rightarrow> chdbCopyContext \<Rightarrow> ('v, 'g) session
     \<Rightarrow> (relation \<times> chdbCopyContext, ('v, 'g) session) outcome"
where
  "open_copy_relation env copy rv ctx s =
     bindO (open_table env rv (if cp_is_from copy then RowExclusiveLock else AccessShareLock) s) (\<lambda>rel s.
     bindO (checked (CopyGetAttnums env rel (cp_attlist copy)) s) (\<lambda>attnums s.
       let perm = copy_perm_info copy rel attnums in
     bindO (checked (case ExecCheckPermissions env perm of Some e \<Rightarrow> Inl e | None \<Rightarrow> Inr ()) s) (\<lambda>_ s.
     bindO (checked (check_copy_rls env copy rel) s) (\<lambda>_ s.
     bindO (checked (check_copy_relkind env copy rel) s) (\<lambda>_ s.
     Return (rel, ctx\<lparr>cx_rel := Some rel, cx_attnums := attnums, cx_perminfo := Some perm\<rparr>) s)))))"

section \<open>CREATE TABLE\<close>

definition option_url_scheme ::
  "('v, 'c, 'e, 'ty, 'g) hook_env \<Rightarrow> string \<Rightarrow> string \<Rightarrow> pg_error + scheme"
where
  "option_url_scheme env url option =
     (let scheme = scheme_for (he_no_file env) (Some url)
      in if scheme = no_scheme then
           Inl (ereport ERRCODE_FEATURE_NOT_SUPPORTED
             (''chdb: cannot read URL \"'' @ url @ ''\" specified by option \"'' @ option @ ''\"''))
         else if scheme = file_scheme then
           bindE (check_server_file_privileges env True) (\<lambda>_. Inr scheme)
         else Inr scheme)"

text \<open>\<open>create_columns_from_url\<close>: the statement with its columns, the URLs and the context.\<close>

definition create_columns_from_url ::
  "('v, 'c, 'e, 'ty, 'g) hook_env \<Rightarrow> bool \<Rightarrow> create_stmt \<Rightarrow> chdbCopyContext \<Rightarrow> ('v, 'g) session
     \<Rightarrow> (create_stmt \<times> chdbCreateFromURL \<times> chdbCopyContext, ('v, 'g) session) outcome"
where
  "create_columns_from_url env readOnlyTree create ctx s =
     bindO (on_tree readOnlyTree (chdb_create_from_url (he_defs env) (he_catalog env) (ss_catalog s) create) s) (\<lambda>(urls, create) s.
     bindO (checked (contextualize_options (he_defs env) ctx (cs_options create) (Some [])) s) (\<lambda>(ctx, storage) s.
       let create = create\<lparr>cs_options := the storage\<rparr>;
           s = set_tree readOnlyTree create s
       in case structure_url urls of
            None \<Rightarrow> Return (create, urls, ctx) s
          | Some url \<Rightarrow>
              bindO (checked (option_url_scheme env url CHDB_STRUCTURE_FROM) s) (\<lambda>scheme s.
                let ctx = ctx\<lparr>cx_url := url, cx_scheme := scheme\<rparr> in
              bindO (on_session (chdb_url_columns (he_command env) (he_types env) ctx (ss_world s)) s) (\<lambda>(cols, ctx, notices) s.
                let create = create\<lparr>cs_tableElts := map ColumnElt cols\<rparr> in
                Return (create, urls, ctx) (set_tree readOnlyTree create (s\<lparr>ss_notices := ss_notices s @ notices\<rparr>))))))"

text \<open>\<open>copy_url_into\<close>; the statement it makes names no columns and has no options.\<close>

definition url_copy_stmt :: "range_var \<Rightarrow> string \<Rightarrow> copy_stmt" where
  "url_copy_stmt relation url =
     \<lparr>cp_relation = Some relation, cp_attlist = [], cp_is_from = True, cp_is_program = False,
      cp_filename = Some url, cp_options = [], cp_whereClause = False\<rparr>"

definition copy_url_into ::
  "('v, 'c, 'e, 'ty, 'g) hook_env \<Rightarrow> range_var \<Rightarrow> string \<Rightarrow> chdbCopyContext \<Rightarrow> ('v, 'g) session
     \<Rightarrow> (unit, ('v, 'g) session) outcome"
where
  "copy_url_into env relation url ctx s =
     bindO (checked (option_url_scheme env url CHDB_COPY_FROM) s) (\<lambda>scheme s.
       let ctx = ctx\<lparr>cx_url := url, cx_scheme := scheme, cx_cmd_type := CHDB_CMD_SELECT\<rparr>;
           s = s\<lparr>ss_catalog := CommandCounterIncrement env (ss_catalog s)\<rparr> in
     bindO (open_copy_relation env (url_copy_stmt relation url) relation ctx s) (\<lambda>(rel, ctx) s.
     bindO (on_session (chdb_copy (he_command env) rel ctx (ss_world s)) s) (\<lambda>_ s.
     Return () (close_table rel s))))"

section \<open>The hook\<close>

text \<open>The context a command starts from: zeroes, and the settings cast to 16 bits.\<close>

definition start_context :: "settings \<Rightarrow> chdbCopyContext" where
  "start_context gucs =
     blank_context\<lparr>cx_max_memory := of_int (chdb_max_memory gucs), cx_max_threads := of_int (chdb_max_threads gucs),
       cx_max_parsers := of_int (chdb_max_parsers gucs)\<rparr>"

text \<open>A COPY the hook takes over.\<close>

definition copy_is_ours :: "('v, 'c, 'e, 'ty, 'g) hook_env \<Rightarrow> copy_stmt \<Rightarrow> bool" where
  "copy_is_ours env copy \<longleftrightarrow>
     cp_relation copy \<noteq> None \<and> \<not> cp_is_program copy \<and> scheme_for (he_no_file env) (cp_filename copy) \<noteq> no_scheme"

definition hook_copy ::
  "('v, 'c, 'e, 'ty, 'g) hook_env \<Rightarrow> copy_stmt \<Rightarrow> ('v, 'g) session \<Rightarrow> (unit, ('v, 'g) session) outcome"
where
  "hook_copy env copy s =
     (let scheme = scheme_for (he_no_file env) (cp_filename copy) in
     bindO (checked (guardE (\<not> cp_whereClause copy) (ereport ERRCODE_FEATURE_NOT_SUPPORTED
       ''chdb: COPY FROM a URL not supported with a WHERE clause'')) s) (\<lambda>_ s.
     bindO (checked (if cp_is_from copy then PreventCommandIfReadOnly env ''COPY FROM'' else Inr ()) s) (\<lambda>_ s.
     bindO (checked (if scheme = file_scheme then check_server_file_privileges env (cp_is_from copy) else Inr ()) s) (\<lambda>_ s.
       let ctx = (start_context (he_gucs env))\<lparr>cx_scheme := scheme,
             cx_cmd_type := (if cp_is_from copy then CHDB_CMD_SELECT else CHDB_CMD_INSERT),
             cx_url := the (cp_filename copy)\<rparr> in
     bindO (open_copy_relation env copy (the (cp_relation copy)) ctx s) (\<lambda>(rel, ctx) s.
     bindO (checked (contextualize_options (he_defs env) ctx (cp_options copy) None) s) (\<lambda>(ctx, _) s.
     bindO (on_session (chdb_copy (he_command env) rel ctx (ss_world s)) s) (\<lambda>rows s.
     Return () (SetQueryCompletion ''COPY'' rows (close_table rel) s))))))))"

text \<open>
  The changes to a CREATE statement go to a copy of a read-only tree, and to the caller's own tree
  otherwise, also when it raises later.
\<close>

definition hook_create ::
  "('v, 'c, 'e, 'ty, 'g) hook_env \<Rightarrow> create_stmt \<Rightarrow> bool \<Rightarrow> ('v, 'g) session \<Rightarrow> (unit, ('v, 'g) session) outcome"
where
  "hook_create env create readOnlyTree s =
     bindO (checked (PreventCommandIfReadOnly env ''CREATE TABLE'') s) (\<lambda>_ s.
     bindO (create_columns_from_url env readOnlyTree create (start_context (he_gucs env)) s) (\<lambda>(create, urls, ctx) s.
     bindO (PrevProcessUtility env (CreateStatement create) False s) (\<lambda>_ s.
       case copy_url urls of
         None \<Rightarrow> Return () s
       | Some url \<Rightarrow> copy_url_into env (cs_relation create) url ctx s)))"

definition chDBProcessUtilityHook ::
  "('v, 'c, 'e, 'ty, 'g) hook_env \<Rightarrow> statement \<Rightarrow> bool \<Rightarrow> ('v, 'g) session \<Rightarrow> (unit, ('v, 'g) session) outcome"
where
  "chDBProcessUtilityHook env stmt readOnlyTree s =
     (case stmt of
        CopyStatement copy \<Rightarrow>
          if copy_is_ours env copy then hook_copy env copy s else PrevProcessUtility env stmt readOnlyTree s
      | CreateStatement create \<Rightarrow>
          if chdb_creates_from_url create then hook_create env create readOnlyTree s
          else PrevProcessUtility env stmt readOnlyTree s
      | OtherStatement _ \<Rightarrow> PrevProcessUtility env stmt readOnlyTree s)"

text \<open>
  \<open>InitializeUtilityHook\<close> and \<open>_PG_init\<close> of \<open>chdb_hook\<close>: the hook in place before, or the standard
  one, becomes the previous hook. The result is the installed hook and the defined settings.
\<close>

definition InitializeUtilityHook :: "'f \<Rightarrow> ('f \<Rightarrow> 'f) \<Rightarrow> 'f option \<Rightarrow> 'f option" where
  "InitializeUtilityHook standard_ProcessUtility chdb_hook ProcessUtility_hook =
     Some (chdb_hook (case ProcessUtility_hook of Some f \<Rightarrow> f | None \<Rightarrow> standard_ProcessUtility))"

definition hook_PG_init :: "bool \<Rightarrow> 'f \<Rightarrow> ('f \<Rightarrow> 'f) \<Rightarrow> 'f option \<Rightarrow> guc list \<times> 'f option" where
  "hook_PG_init IsBinaryUpgrade standard_ProcessUtility chdb_hook ProcessUtility_hook =
     (if IsBinaryUpgrade then ([], ProcessUtility_hook)
      else (CHDB_GUCS ''chdb_hook'', InitializeUtilityHook standard_ProcessUtility chdb_hook ProcessUtility_hook))"

section \<open>Copies\<close>

abbreviation copy_lock :: "copy_stmt \<Rightarrow> lockmode" where
  "copy_lock copy \<equiv> if cp_is_from copy then RowExclusiveLock else AccessShareLock"

text \<open>What the user needs of the relation, as \<open>DoCopy\<close> would ask it.\<close>

definition relation_allowed ::
  "('v, 'c, 'e, 'ty, 'g) hook_env \<Rightarrow> copy_stmt \<Rightarrow> range_var \<Rightarrow> 'g \<Rightarrow> relation \<Rightarrow> nat list \<Rightarrow> bool"
where
  "relation_allowed env copy rv g rel attnums \<longleftrightarrow>
     table_openrv env g rv (copy_lock copy) = Inr rel \<and> CopyGetAttnums env rel (cp_attlist copy) = Inr attnums
     \<and> ExecCheckPermissions env (copy_perm_info copy rel attnums) = None
     \<and> (\<exists>rls. check_enable_rls env (relid rel) = Inr rls \<and> rls \<noteq> RLS_ENABLED)
     \<and> (\<not> cp_is_from copy \<longrightarrow> rd_relkind rel = RELKIND_RELATION)"

definition opened :: "copy_stmt \<Rightarrow> relation \<Rightarrow> ('v, 'g) session \<Rightarrow> ('v, 'g) session" where
  "opened copy rel s = s\<lparr>ss_open := relid rel # ss_open s, ss_locks := ss_locks s @ [(relid rel, copy_lock copy)]\<rparr>"

definition checked_context :: "copy_stmt \<Rightarrow> relation \<Rightarrow> nat list \<Rightarrow> chdbCopyContext \<Rightarrow> chdbCopyContext" where
  "checked_context copy rel attnums ctx =
     ctx\<lparr>cx_rel := Some rel, cx_attnums := attnums, cx_perminfo := Some (copy_perm_info copy rel attnums)\<rparr>"

text \<open>The parts of a session that no check touches.\<close>

definition untouched :: "('v, 'g) session \<Rightarrow> ('v, 'g) session \<Rightarrow> bool" where
  "untouched s t \<longleftrightarrow> ss_world t = ss_world s \<and> ss_catalog t = ss_catalog s \<and> ss_completion t = ss_completion s
     \<and> ss_tree t = ss_tree s"

lemma untouched_refl [simp, intro]: "untouched s s"
  by (simp add: untouched_def)

lemma open_copy_relation_allowed:
  assumes "relation_allowed env copy rv (ss_catalog s) rel attnums"
  shows "open_copy_relation env copy rv ctx s = Return (rel, checked_context copy rel attnums ctx) (opened copy rel s)"
  using assms
  by (auto simp: open_copy_relation_def open_table_def relation_allowed_def check_copy_rls_def check_copy_relkind_def
      opened_def checked_context_def Let_def)

lemma open_copy_relation_refused:
  assumes "\<And>rel attnums. \<not> relation_allowed env copy rv (ss_catalog s) rel attnums"
  shows "\<exists>e t. open_copy_relation env copy rv ctx s = Raise e t \<and> untouched s t"
proof (cases "table_openrv env (ss_catalog s) rv (copy_lock copy)")
  case (Inl e)
  then show ?thesis by (auto simp: open_copy_relation_def open_table_def)
next
  case rel: (Inr rel)
  show ?thesis
  proof (cases "CopyGetAttnums env rel (cp_attlist copy)")
    case (Inl e)
    with rel show ?thesis by (auto simp: open_copy_relation_def open_table_def untouched_def)
  next
    case (Inr attnums)
    with rel assms [of rel attnums] show ?thesis
      by (cases "ExecCheckPermissions env (copy_perm_info copy rel attnums)"; cases "check_enable_rls env (relid rel)")
        (auto simp: open_copy_relation_def open_table_def relation_allowed_def check_copy_rls_def check_copy_relkind_def
          untouched_def Let_def)
  qed
qed

text \<open>The role that a copy from or to a server file needs.\<close>

definition file_role_of :: "bool \<Rightarrow> file_role" where
  "file_role_of is_from = (if is_from then ROLE_PG_READ_SERVER_FILES else ROLE_PG_WRITE_SERVER_FILES)"

text \<open>Everything that has to hold before a COPY may start a helper.\<close>

definition copy_allowed ::
  "('v, 'c, 'e, 'ty, 'g) hook_env \<Rightarrow> copy_stmt \<Rightarrow> 'g \<Rightarrow> relation \<Rightarrow> nat list \<Rightarrow> bool"
where
  "copy_allowed env copy g rel attnums \<longleftrightarrow>
     \<not> cp_whereClause copy \<and> (cp_is_from copy \<longrightarrow> \<not> XactReadOnly env)
     \<and> (scheme_for (he_no_file env) (cp_filename copy) = file_scheme \<longrightarrow>
          has_privs_of_role env (file_role_of (cp_is_from copy)))
     \<and> relation_allowed env copy (the (cp_relation copy)) g rel attnums"

text \<open>The context of a COPY before its options.\<close>

definition copy_context :: "('v, 'c, 'e, 'ty, 'g) hook_env \<Rightarrow> copy_stmt \<Rightarrow> chdbCopyContext" where
  "copy_context env copy =
     (start_context (he_gucs env))\<lparr>cx_scheme := scheme_for (he_no_file env) (cp_filename copy),
        cx_cmd_type := (if cp_is_from copy then CHDB_CMD_SELECT else CHDB_CMD_INSERT), cx_url := the (cp_filename copy)\<rparr>"

lemma check_server_file_privileges_eq [simp]:
  "check_server_file_privileges env b = Inr u \<longleftrightarrow>
     has_privs_of_role env (file_role_of b)"
  by (simp add: check_server_file_privileges_def file_role_of_def)

lemma checked_file_privileges:
  "checked (check_server_file_privileges env b) s =
     (if has_privs_of_role env (file_role_of b)
      then Return () s else Raise (projl (check_server_file_privileges env b)) s)"
  by (simp add: check_server_file_privileges_def file_role_of_def)

lemma hook_copy_allowed:
  assumes "copy_allowed env copy (ss_catalog s) rel attnums"
  shows "hook_copy env copy s =
    bindO (checked (contextualize_options (he_defs env) (checked_context copy rel attnums (copy_context env copy))
      (cp_options copy) None) (opened copy rel s)) (\<lambda>(ctx, _) s.
    bindO (on_session (chdb_copy (he_command env) rel ctx (ss_world s)) s) (\<lambda>rows s.
    Return () (SetQueryCompletion ''COPY'' rows (close_table rel) s)))"
proof -
  have r: "relation_allowed env copy (the (cp_relation copy)) (ss_catalog s) rel attnums"
    using assms by (simp add: copy_allowed_def)
  note o = open_copy_relation_allowed [OF r]
  show ?thesis
    using assms
    by (cases "cp_is_from copy"; cases "scheme_for (he_no_file env) (cp_filename copy) = file_scheme")
      (simp_all add: hook_copy_def copy_allowed_def PreventCommandIfReadOnly_def checked_file_privileges o
        copy_context_def Let_def)
qed

lemma hook_copy_refused:
  assumes "\<And>rel attnums. \<not> copy_allowed env copy (ss_catalog s) rel attnums"
  shows "\<exists>e t. hook_copy env copy s = Raise e t \<and> untouched s t"
proof (cases "\<exists>rel attnums. relation_allowed env copy (the (cp_relation copy)) (ss_catalog s) rel attnums")
  case True
  then obtain rel attnums where r: "relation_allowed env copy (the (cp_relation copy)) (ss_catalog s) rel attnums" by blast
  with assms [of rel attnums] show ?thesis
    by (auto simp: hook_copy_def copy_allowed_def PreventCommandIfReadOnly_def checked_file_privileges Let_def)
next
  case False
  then have "\<exists>e t. open_copy_relation env copy (the (cp_relation copy)) ctx s = Raise e t \<and> untouched s t" for ctx
    by (intro open_copy_relation_refused) blast
  then obtain e t where o: "\<And>ctx. open_copy_relation env copy (the (cp_relation copy)) ctx s = Raise (e ctx) (t ctx)
      \<and> untouched s (t ctx)" by metis
  show ?thesis
    by (auto simp: hook_copy_def PreventCommandIfReadOnly_def checked_file_privileges o Let_def)
qed

text \<open>A server on which everything is allowed, with the helper of the earlier examples.\<close>

definition ex_hook :: "(string, string, unit, string, unit) hook_env" where
  "ex_hook = \<lparr>he_command = ex_command, he_no_file = False, he_gucs = initial_settings, he_defs = ex_def_lib,
     he_types = ex_types, he_catalog = ex_catalog, has_privs_of_role = (\<lambda>_. False), XactReadOnly = False,
     table_openrv = (\<lambda>_ _ _. Inr plain_table), CopyGetAttnums = (\<lambda>_ _. Inr [1]), ExecCheckPermissions = (\<lambda>_. None),
     check_enable_rls = (\<lambda>_. Inr RLS_NONE), relkind_not_supported = (\<lambda>_. []), CommandCounterIncrement = id,
     PrevProcessUtility = (\<lambda>_ _ s. Return () s)\<rparr>"

definition ex_session :: "(string, unit) session" where
  "ex_session = \<lparr>ss_world = ex_world, ss_catalog = (), ss_open = [], ss_locks = [], ss_qc = True,
     ss_completion = None, ss_segv = False, ss_notices = [],
     ss_tree = OtherStatement []\<rparr>"

definition ex_copy_stmt :: "string \<Rightarrow> copy_stmt" where
  "ex_copy_stmt url = \<lparr>cp_relation = Some \<lparr>rv_schemaname = None, rv_relname = ''t''\<rparr>, cp_attlist = [], cp_is_from = True,
     cp_is_program = False, cp_filename = Some url, cp_options = [\<lparr>defname = ''structure'', defarg = Some ''id Int32''\<rparr>],
     cp_whereClause = False\<rparr>"

lemmas scheme_eval = scheme_for_def all_schemes_def CHDB_NO_SCHEME_def less_scheme_def

text \<open>
  C1. No COPY the hook takes over reaches chDB or changes a table unless it is allowed: no WHERE
  clause, no COPY FROM in a read-only transaction, the server-file role for a \<open>file\<close> URL, a
  relation that opens, INSERT or SELECT on exactly the copied columns, no row-level security in
  force, and a plain table for a COPY TO. A COPY that is not allowed raises with the helper, the
  tables, the catalog, the completion tag and the parse tree as they were.
\<close>

theorem copy_guarded:
  assumes "copy_is_ours env copy" and "\<forall>rel attnums. \<not> copy_allowed env copy (ss_catalog s) rel attnums"
  shows "\<exists>e t. chDBProcessUtilityHook env (CopyStatement copy) readOnlyTree s = Raise e t \<and> untouched s t"
  using assms hook_copy_refused [of env copy s] by (simp add: chDBProcessUtilityHook_def)

theorem copy_guarded_witness:
  "\<exists>e t. chDBProcessUtilityHook ex_hook (CopyStatement (ex_copy_stmt ''file:///etc/passwd'')) False ex_session = Raise e t
     \<and> ss_world t = ex_world"
proof -
  have o: "copy_is_ours ex_hook (ex_copy_stmt ''file:///etc/passwd'')"
    by (simp add: copy_is_ours_def ex_copy_stmt_def ex_hook_def scheme_eval)
  have "\<forall>rel attnums. \<not> copy_allowed ex_hook (ex_copy_stmt ''file:///etc/passwd'') (ss_catalog ex_session) rel attnums"
    by (simp add: copy_allowed_def ex_copy_stmt_def ex_hook_def scheme_eval)
  from copy_guarded [OF o this, of False] show ?thesis by (auto simp: untouched_def ex_session_def)
qed

text \<open>
  C3. An allowed COPY with acceptable options is exactly the copy of its context: the settings, the
  scheme and URL of the file name, the direction, the checked columns under the checked
  permission entry, and the options. When the copy returns, its row count is the completion tag,
  the relation is no longer open and its lock is still held; when the caller has passed no place for a completion
  tag, the backend crashes instead.
\<close>

theorem copy_taken_over:
  assumes "copy_is_ours env copy" and "copy_allowed env copy (ss_catalog s) rel attnums"
    and "contextualize_options (he_defs env) (checked_context copy rel attnums (copy_context env copy))
      (cp_options copy) None = Inr (ctx, others)"
  shows "chDBProcessUtilityHook env (CopyStatement copy) readOnlyTree s =
      (case chdb_copy (he_command env) rel ctx (ss_world s) of
         Return rows w \<Rightarrow>
           Return () (if ss_qc s
             then s\<lparr>ss_world := w, ss_locks := ss_locks s @ [(relid rel, copy_lock copy)], ss_completion := Some (''COPY'', rows)\<rparr>
             else (opened copy rel s)\<lparr>ss_world := w, ss_segv := True\<rparr>)
       | Raise e w \<Rightarrow> Raise e ((opened copy rel s)\<lparr>ss_world := w\<rparr>)
       | Waiting \<Rightarrow> Waiting)
    \<and> cx_attnums ctx = attnums \<and> cx_perminfo ctx = Some (copy_perm_info copy rel attnums)
    \<and> cx_scheme ctx = scheme_for (he_no_file env) (cp_filename copy) \<and> Some (cx_url ctx) = cp_filename copy
    \<and> cx_cmd_type ctx = (if cp_is_from copy then CHDB_CMD_SELECT else CHDB_CMD_INSERT)"
proof -
  have ctx: "ctx = option_fields (he_defs env) (cp_options copy)
      (default_options (checked_context copy rel attnums (copy_context env copy)))"
    using assms(3) by (simp add: contextualize_options_def set_options_Inr)
  have "cp_filename copy \<noteq> None" using assms(1)
    by (cases "cp_filename copy") (simp_all add: copy_is_ours_def scheme_for_def)
  moreover have "ss_world (opened copy rel s) = ss_world s" by (simp add: opened_def)
  ultimately show ?thesis
    using assms(1,3) hook_copy_allowed [OF assms(2)]
    by (auto simp: chDBProcessUtilityHook_def on_session_def SetQueryCompletion_def close_table_def opened_def ctx option_fields_def
        default_options_def checked_context_def copy_context_def start_context_def split: outcome.split)
qed

theorem copy_taken_over_witness:
  "\<exists>t. chDBProcessUtilityHook ex_hook (CopyStatement (ex_copy_stmt ''hdfs://h/f'')) True ex_session = Return () t
     \<and> ss_completion t = Some (''COPY'', 3) \<and> ss_open t = [] \<and> ss_locks t = [(7, RowExclusiveLock)]"
proof -
  let ?copy = "ex_copy_stmt ''hdfs://h/f''"
  have a: "copy_is_ours ex_hook ?copy" "copy_allowed ex_hook ?copy (ss_catalog ex_session) plain_table [1]"
    by (simp_all add: copy_is_ours_def copy_allowed_def relation_allowed_def ex_copy_stmt_def ex_hook_def scheme_eval)
  obtain ctx where c: "contextualize_options (he_defs ex_hook) (checked_context ?copy plain_table [1] (copy_context ex_hook ?copy))
      (cp_options ?copy) None = Inr (ctx, None)"
    and q: "\<exists>q p. make_ch_query unix_port ctx = Inr (q, p) \<and> small_request q p"
    and s: "cx_structure ctx \<noteq> []"
    by (simp add: contextualize_options_def set_option_def ex_copy_stmt_def ex_hook_def ex_def_lib_def scheme_eval
        checked_context_def copy_context_def start_context_def blank_context_def default_options_def
        structure_on_one_line_def query_eval)
  note t = copy_taken_over [OF a c, of True]
  then have "cx_cmd_type ctx = CHDB_CMD_SELECT" "cx_attnums ctx = [1]" by (simp_all add: ex_copy_stmt_def)
  with q s obtain w where "chdb_copy ex_command plain_table ctx ex_world = Return 3 w" using ex_copy_runs by blast
  with t show ?thesis by (auto simp: ex_hook_def ex_session_def ex_copy_stmt_def plain_table_def)
qed

text \<open>
  C4. Every other statement goes to the previous hook as it came: a COPY with PROGRAM, of a query, or
  of a file name that is no URL of a compiled-in scheme, a CREATE TABLE without URL options, and all
  other utility statements. Loading the library changes nothing for them, whatever hook was
  installed before.
\<close>

theorem hook_transparent:
  assumes "case stmt of CopyStatement copy \<Rightarrow> cp_relation copy = None \<or> cp_is_program copy
        \<or> scheme_for (he_no_file env) (cp_filename copy) = no_scheme
      | CreateStatement create \<Rightarrow> \<not> chdb_creates_from_url create
      | OtherStatement _ \<Rightarrow> True"
  shows "the (InitializeUtilityHook standard
      (\<lambda>prev. chDBProcessUtilityHook (env\<lparr>PrevProcessUtility := prev\<rparr>)) installed) stmt readOnlyTree s
    = (case installed of Some f \<Rightarrow> f | None \<Rightarrow> standard) stmt readOnlyTree s"
  using assms
  by (auto simp: InitializeUtilityHook_def chDBProcessUtilityHook_def copy_is_ours_def split: statement.splits)

theorem hook_transparent_witness:
  "the (InitializeUtilityHook (\<lambda>_ _ s. Return () s)
      (\<lambda>prev. chDBProcessUtilityHook (ex_hook\<lparr>PrevProcessUtility := prev\<rparr>)) None)
      (CopyStatement ((ex_copy_stmt ''s3://b/k'')\<lparr>cp_is_program := True\<rparr>)) True ex_session = Return () ex_session"
  using hook_transparent [where stmt = "CopyStatement ((ex_copy_stmt ''s3://b/k'')\<lparr>cp_is_program := True\<rparr>)"
      and env = ex_hook and standard = "\<lambda>_ _ s. Return () s" and installed = None] by simp

section \<open>CREATE TABLE\<close>

text \<open>
  What has to hold before a CREATE TABLE may ask chDB for columns: where they come from, and the
  options that are left for PostgreSQL and for the context.
\<close>

definition url_options_allowed :: "def_lib \<Rightarrow> create_stmt \<Rightarrow> chdbCreateFromURL \<Rightarrow> bool" where
  "url_options_allowed lib create urls \<longleftrightarrow>
     (let no_columns = (cs_tableElts create = [] \<and> cs_inhRelations create = [] \<and> \<not> cs_partbound create
            \<and> \<not> cs_ofTypename create)
      in \<exists>s c. first_value lib CHDB_STRUCTURE_FROM (cs_options create) = map_option Inr s
           \<and> first_value lib CHDB_COPY_FROM (cs_options create) = map_option Inr c
           \<and> (s = None \<or> c = None) \<and> (s = None \<or> no_columns)
           \<and> copy_url urls = c \<and> structure_url urls = (if no_columns \<and> s = None then c else s))"

definition relation_is_new :: "'g catalog_lib \<Rightarrow> 'g \<Rightarrow> range_var \<Rightarrow> bool" where
  "relation_is_new cat g rv \<longleftrightarrow>
     (\<exists>nsp. RangeVarGetCreationNamespace cat g rv = Inr nsp \<and> get_relname_relid cat g (rv_relname rv) nsp = InvalidOid)"

abbreviation other_options :: "create_stmt \<Rightarrow> def_elem list" where
  "other_options create \<equiv> delete_option CHDB_COPY_FROM (delete_option CHDB_STRUCTURE_FROM (cs_options create))"

definition create_allowed ::
  "('v, 'c, 'e, 'ty, 'g) hook_env \<Rightarrow> create_stmt \<Rightarrow> 'g \<Rightarrow> chdbCreateFromURL \<Rightarrow> create_stmt \<Rightarrow> chdbCopyContext \<Rightarrow> bool"
where
  "create_allowed env create g urls create' ctx \<longleftrightarrow>
     \<not> XactReadOnly env \<and> url_options_allowed (he_defs env) create urls
     \<and> relation_is_new (he_catalog env) g (cs_relation create)
     \<and> list_all (option_ok (he_defs env) True) (other_options create)
     \<and> create' = create\<lparr>cs_options := filter (\<lambda>e. \<not> chdb_option e) (other_options create)\<rparr>
     \<and> ctx = option_fields (he_defs env) (other_options create) (default_options (start_context (he_gucs env)))
     \<and> (\<forall>url. structure_url urls = Some url \<longrightarrow>
          scheme_for (he_no_file env) (Some url) \<noteq> no_scheme
          \<and> (scheme_for (he_no_file env) (Some url) = file_scheme \<longrightarrow> has_privs_of_role env ROLE_PG_READ_SERVER_FILES))"

text \<open>These are the conditions the functions of the hook enforce.\<close>

lemma create_from_url_allowed:
  "chdb_create_from_url lib cat g create = Return urls rest \<longleftrightarrow>
     url_options_allowed lib create urls \<and> relation_is_new cat g (cs_relation create)
     \<and> rest = create\<lparr>cs_options := other_options create\<rparr>"
proof -
  have n: "\<not> has_columns create \<longleftrightarrow> cs_tableElts create = [] \<and> cs_inhRelations create = [] \<and> \<not> cs_partbound create
      \<and> \<not> cs_ofTypename create" by (auto simp: has_columns_def)
  have u: "urls = \<lparr>structure_url = a, copy_url = b\<rparr> \<longleftrightarrow> copy_url urls = b \<and> structure_url urls = a" for a b
    by (cases urls) auto
  have i: "(if c \<noteq> None \<and> b then c else s) = (if b \<and> s = None then c else s)" if "s = None \<or> c = None"
    for b and s c :: "string option" using that by auto
  show ?thesis
    unfolding create_from_url_Return url_options_allowed_def Let_def n [symmetric] relation_is_new_def
      error_if_relation_exists_Inr u
    by (rule iffI; elim exE conjE; intro conjI exI; assumption?; auto simp: i)
qed

lemma create_allowed_iff:
  "create_allowed env create g urls create' ctx \<longleftrightarrow>
     \<not> XactReadOnly env
     \<and> (\<exists>rest. chdb_create_from_url (he_defs env) (he_catalog env) g create = Return urls rest
          \<and> (\<exists>storage. contextualize_options (he_defs env) (start_context (he_gucs env)) (cs_options rest) (Some [])
                = Inr (ctx, Some storage) \<and> create' = rest\<lparr>cs_options := storage\<rparr>))
     \<and> (\<forall>url. structure_url urls = Some url \<longrightarrow>
          scheme_for (he_no_file env) (Some url) \<noteq> no_scheme
          \<and> (scheme_for (he_no_file env) (Some url) = file_scheme \<longrightarrow> has_privs_of_role env ROLE_PG_READ_SERVER_FILES))"
  by (auto simp: create_allowed_def create_from_url_allowed contextualize_options_def set_options_Inr)

lemma contextualize_Some:
  "contextualize_options lib ctx options (Some os) = Inr (ctx', others) \<Longrightarrow> \<exists>storage. others = Some storage"
  by (simp add: contextualize_options_def set_options_Inr)

lemma option_url_scheme_Inr:
  "option_url_scheme env url opt = Inr sch \<longleftrightarrow> sch = scheme_for (he_no_file env) (Some url) \<and> sch \<noteq> no_scheme
     \<and> (sch = file_scheme \<longrightarrow> has_privs_of_role env ROLE_PG_READ_SERVER_FILES)"
  by (auto simp: option_url_scheme_def error_simps file_role_of_def Let_def)

text \<open>What a refused statement has changed: options of the caller's own tree at most.\<close>

definition only_options_taken :: "bool \<Rightarrow> create_stmt \<Rightarrow> ('v, 'g) session \<Rightarrow> ('v, 'g) session \<Rightarrow> bool" where
  "only_options_taken readOnlyTree create s t \<longleftrightarrow>
     t = s \<or> \<not> readOnlyTree \<and> (\<exists>os. subseq os (cs_options create) \<and> t = s\<lparr>ss_tree := CreateStatement (create\<lparr>cs_options := os\<rparr>)\<rparr>)"

lemma taken_tree: "fewer_options create c \<Longrightarrow> only_options_taken readOnlyTree create s (set_tree readOnlyTree c s)"
  by (auto simp: only_options_taken_def set_tree_def fewer_options_def)

lemma set_tree_twice [simp]: "set_tree b c' (set_tree b c s) = set_tree b c' s"
  by (simp add: set_tree_def)

lemma create_columns_refused:
  assumes "\<And>urls create' ctx. \<not> create_allowed env create (ss_catalog s) urls create' ctx" and "\<not> XactReadOnly env"
  shows "\<exists>e t. create_columns_from_url env readOnlyTree create (start_context (he_gucs env)) s = Raise e t
    \<and> only_options_taken readOnlyTree create s t"
proof (cases "he_catalog env" "ss_catalog s" create rule: create_from_url_ends [where lib = "he_defs env"])
  case (refused e c)
  with taken_tree [OF refused(2)] show ?thesis by (simp add: create_columns_from_url_def on_tree_def)
next
  case (accepted urls rest)
  show ?thesis
  proof (cases "contextualize_options (he_defs env) (start_context (he_gucs env)) (cs_options rest) (Some [])")
    case (Inl e)
    with accepted taken_tree [OF accepted(2)] show ?thesis by (simp add: create_columns_from_url_def on_tree_def)
  next
    case o: (Inr q)
    obtain ctx storage where q: "q = (ctx, Some storage)"
      using contextualize_Some o by (cases q) blast
    let ?c = "rest\<lparr>cs_options := storage\<rparr>"
    have "subseq storage (cs_options rest)"
      using o q by (auto simp: contextualize_options_def set_options_Inr)
    then have "fewer_options rest ?c" by (auto simp: fewer_options_def)
    from taken_tree [OF fewer_options_trans [OF accepted(2) this]]
    have t: "only_options_taken readOnlyTree create s (set_tree readOnlyTree ?c s)" .
    obtain url where u: "structure_url urls = Some url" "\<And>sch. option_url_scheme env url CHDB_STRUCTURE_FROM \<noteq> Inr sch"
      using assms(1) [of urls ?c ctx] assms(2) accepted(1) o q
      by (auto simp: create_allowed_iff option_url_scheme_Inr)
    then obtain e where "option_url_scheme env url CHDB_STRUCTURE_FROM = Inl e"
      by (cases "option_url_scheme env url CHDB_STRUCTURE_FROM") auto
    with accepted(1) o q u t show ?thesis by (simp add: create_columns_from_url_def on_tree_def Let_def)
  qed
qed

text \<open>
  C2. No CREATE TABLE with a URL option asks chDB for columns or reaches PostgreSQL's own CREATE
  TABLE unless: the transaction may write; not both URL options are given; \<open>structure_from\<close> stands
  on a table without columns, parents, partition bound or type of its own; the relation can be created where it
  is to be and does not exist there; each of the other options is acceptable; and the URL the columns come
  from has a scheme that is compiled in, with the server-file role when it is a \<open>file\<close> URL. Otherwise it raises, and
  nothing has changed but that options may be gone from the caller's own tree. (The URL of \<open>copy_from\<close> is
  covered here when the columns come from it; for a table with columns of its own it is checked after the
  table has been created, by the copy.)
\<close>

theorem create_guarded:
  assumes "chdb_creates_from_url create"
    and "\<forall>urls create' ctx. \<not> create_allowed env create (ss_catalog s) urls create' ctx"
  shows "\<exists>e t. chDBProcessUtilityHook env (CreateStatement create) readOnlyTree s = Raise e t
    \<and> only_options_taken readOnlyTree create s t"
proof (cases "XactReadOnly env")
  case True
  with assms(1) show ?thesis
    by (simp add: chDBProcessUtilityHook_def hook_create_def PreventCommandIfReadOnly_def only_options_taken_def)
next
  case False
  have n: "\<not> create_allowed env create (ss_catalog s) urls create' ctx" for urls create' ctx using assms(2) by blast
  obtain e t where "create_columns_from_url env readOnlyTree create (start_context (he_gucs env)) s = Raise e t"
    "only_options_taken readOnlyTree create s t"
    using create_columns_refused [OF n False] by blast
  with False assms(1) show ?thesis
    by (simp add: chDBProcessUtilityHook_def hook_create_def PreventCommandIfReadOnly_def)
qed

text \<open>A table of that name exists, and the caller's tree is its own.\<close>

theorem create_guarded_witness:
  "\<exists>e t. chDBProcessUtilityHook (ex_hook\<lparr>he_catalog := ex_catalog\<lparr>get_relname_relid := \<lambda>_ _ _. 16384\<rparr>\<rparr>)
       (CreateStatement ex_create) True ex_session = Raise e t \<and> t = ex_session"
proof -
  let ?env = "ex_hook\<lparr>he_catalog := ex_catalog\<lparr>get_relname_relid := \<lambda>_ _ _. 16384\<rparr>\<rparr>"
  have u: "chdb_creates_from_url ex_create"
    by (simp add: chdb_creates_from_url_def ex_create_def CHDB_COPY_FROM_def CHDB_STRUCTURE_FROM_def)
  have "\<forall>urls create' ctx. \<not> create_allowed ?env ex_create (ss_catalog ex_session) urls create' ctx"
    by (simp add: create_allowed_def relation_is_new_def InvalidOid_def)
  from create_guarded [OF u this, of True] show ?thesis by (auto simp: only_options_taken_def)
qed

lemmas checked_Return [simp] = checked_eq_Return

lemma on_session_Return: "on_session m s = Return x t \<longleftrightarrow> (\<exists>w. m = Return x w \<and> t = s\<lparr>ss_world := w\<rparr>)"
  by (cases m) (auto simp: on_session_def)

lemma open_copy_relation_Return:
  assumes "open_copy_relation env copy rv ctx s = Return (rel, ctx') t"
  obtains attnums where "relation_allowed env copy rv (ss_catalog s) rel attnums"
    "ctx' = checked_context copy rel attnums ctx" "t = opened copy rel s"
proof -
  obtain rel' attnums where r: "relation_allowed env copy rv (ss_catalog s) rel' attnums"
    using open_copy_relation_refused [of env copy rv s ctx] assms by force
  with open_copy_relation_allowed [OF r, of ctx] assms show thesis by (auto intro: that)
qed

text \<open>The rows of \<open>copy_from\<close>, once the table exists.\<close>

definition rows_copied ::
  "('v, 'c, 'e, 'ty, 'g) hook_env \<Rightarrow> range_var \<Rightarrow> string \<Rightarrow> chdbCopyContext \<Rightarrow> ('v, 'g) session \<Rightarrow> ('v, 'g) session \<Rightarrow> bool"
where
  "rows_copied env rv url ctx s t \<longleftrightarrow>
     (\<exists>rel attnums n. relation_allowed env (url_copy_stmt rv url) rv (CommandCounterIncrement env (ss_catalog s)) rel attnums
       \<and> (scheme_for (he_no_file env) (Some url) = file_scheme \<longrightarrow> has_privs_of_role env ROLE_PG_READ_SERVER_FILES)
       \<and> chdb_copy (he_command env) rel (checked_context (url_copy_stmt rv url) rel attnums
            (ctx\<lparr>cx_url := url, cx_scheme := scheme_for (he_no_file env) (Some url), cx_cmd_type := CHDB_CMD_SELECT\<rparr>))
            (ss_world s) = Return n (ss_world t)
       \<and> ss_open t = ss_open s \<and> ss_locks t = ss_locks s @ [(relid rel, RowExclusiveLock)]
       \<and> ss_completion t = ss_completion s)"

lemma copy_url_into_Return:
  assumes "copy_url_into env rv url ctx s = Return () t"
  shows "rows_copied env rv url ctx s t"
proof -
  let ?ctx = "ctx\<lparr>cx_url := url, cx_scheme := scheme_for (he_no_file env) (Some url), cx_cmd_type := CHDB_CMD_SELECT\<rparr>"
  let ?s = "s\<lparr>ss_catalog := CommandCounterIncrement env (ss_catalog s)\<rparr>"
  have u: "option_url_scheme env url CHDB_COPY_FROM = Inr (scheme_for (he_no_file env) (Some url))"
    and k: "bindO (open_copy_relation env (url_copy_stmt rv url) rv ?ctx ?s) (\<lambda>(rel, ctx) s.
       bindO (on_session (chdb_copy (he_command env) rel ctx (ss_world s)) s) (\<lambda>_ s. Return () (close_table rel s)))
         = Return () t"
    using assms by (auto simp: copy_url_into_def bindO_eq_Return option_url_scheme_Inr Let_def)
  then obtain rel ctx' s1 n w where r: "open_copy_relation env (url_copy_stmt rv url) rv ?ctx ?s = Return (rel, ctx') s1"
    "chdb_copy (he_command env) rel ctx' (ss_world s1) = Return n w" "t = close_table rel (s1\<lparr>ss_world := w\<rparr>)"
    unfolding bindO_eq_Return by (auto simp: bindO_eq_Return on_session_Return)
  obtain attnums where a: "relation_allowed env (url_copy_stmt rv url) rv (ss_catalog ?s) rel attnums"
    "ctx' = checked_context (url_copy_stmt rv url) rel attnums ?ctx" "s1 = opened (url_copy_stmt rv url) rel ?s"
    by (rule open_copy_relation_Return [OF r(1)])
  from u a r(2,3) show ?thesis
    unfolding rows_copied_def
    by (intro exI [of _ rel] exI [of _ attnums] exI [of _ n])
      (auto simp: option_url_scheme_Inr opened_def close_table_def url_copy_stmt_def)
qed

text \<open>The columns that a URL gives the statement, if it gives any.\<close>

definition columns_given ::
  "('v, 'c, 'e, 'ty, 'g) hook_env \<Rightarrow> chdbCreateFromURL \<Rightarrow> create_stmt \<Rightarrow> chdbCopyContext \<Rightarrow> ('v, 'g) session
     \<Rightarrow> create_stmt \<Rightarrow> chdbCopyContext \<Rightarrow> 'v world \<Rightarrow> bool"
where
  "columns_given env urls create ctx s create' ctx' w \<longleftrightarrow>
     (case structure_url urls of
        None \<Rightarrow> create' = create \<and> ctx' = ctx \<and> w = ss_world s
      | Some url \<Rightarrow> (\<exists>cols notices. create' = create\<lparr>cs_tableElts := map ColumnElt cols\<rparr>
          \<and> chdb_url_columns (he_command env) (he_types env)
              (ctx\<lparr>cx_url := url, cx_scheme := scheme_for (he_no_file env) (Some url)\<rparr>) (ss_world s)
            = Return (cols, ctx', notices) w))"

lemma on_tree_Return:
  "on_tree readOnlyTree m s = Return r t \<longleftrightarrow> (\<exists>x create. r = (x, create) \<and> m = Return x create \<and> t = set_tree readOnlyTree create s)"
  by (cases m) (auto simp: on_tree_def)

lemma set_tree_sel [simp]:
  "ss_world (set_tree b c s) = ss_world s" "ss_catalog (set_tree b c s) = ss_catalog s"
  "ss_completion (set_tree b c s) = ss_completion s"
  "ss_tree (set_tree b c s) = (if b then ss_tree s else CreateStatement c)"
  by (simp_all add: set_tree_def)

lemma create_columns_Return:
  assumes "create_columns_from_url env readOnlyTree create (start_context (he_gucs env)) s = Return (create2, urls, ctx2) t"
    and "\<not> XactReadOnly env"
  shows "\<exists>create1 ctx1. create_allowed env create (ss_catalog s) urls create1 ctx1
    \<and> columns_given env urls create1 ctx1 s create2 ctx2 (ss_world t)
    \<and> ss_catalog t = ss_catalog s \<and> ss_tree t = (if readOnlyTree then ss_tree s else CreateStatement create2)
    \<and> ss_completion t = ss_completion s"
proof -
  obtain urls' rest where f1: "chdb_create_from_url (he_defs env) (he_catalog env) (ss_catalog s) create = Return urls' rest"
    using assms(1) by (auto simp: create_columns_from_url_def bindO_eq_Return on_tree_Return)
  obtain ctx1 storage where f2: "contextualize_options (he_defs env) (start_context (he_gucs env)) (cs_options rest)
      (Some []) = Inr (ctx1, storage)"
    using assms(1) f1 by (auto simp: create_columns_from_url_def bindO_eq_Return on_tree_Return)
  obtain os where os: "storage = Some os" using contextualize_Some [OF f2] by blast
  let ?create = "rest\<lparr>cs_options := os\<rparr>" and ?s = "set_tree readOnlyTree (rest\<lparr>cs_options := os\<rparr>) s"
  have k: "(case structure_url urls' of
            None \<Rightarrow> Return (?create, urls', ctx1) ?s
          | Some url \<Rightarrow>
              bindO (checked (option_url_scheme env url CHDB_STRUCTURE_FROM) ?s) (\<lambda>scheme s.
              bindO (on_session (chdb_url_columns (he_command env) (he_types env)
                  (ctx1\<lparr>cx_url := url, cx_scheme := scheme\<rparr>) (ss_world s)) s) (\<lambda>(cols, ctx, notices) s.
                let create = ?create\<lparr>cs_tableElts := map ColumnElt cols\<rparr> in
                Return (create, urls', ctx) (set_tree readOnlyTree create (s\<lparr>ss_notices := ss_notices s @ notices\<rparr>)))))
        = Return (create2, urls, ctx2) t"
    using assms(1)
    unfolding create_columns_from_url_def Let_def on_tree_def f1 f2 os outcome.case prod.case bindO_simps checked_simps
      option.sel set_tree_twice .
  then have u: "urls' = urls" by (auto simp: bindO_eq_Return Let_def split: option.splits)
  note f = f1 [unfolded u] f2
  have "create_allowed env create (ss_catalog s) urls ?create ctx1
    \<and> columns_given env urls ?create ctx1 s create2 ctx2 (ss_world t)
    \<and> ss_catalog t = ss_catalog s \<and> ss_tree t = (if readOnlyTree then ss_tree s else CreateStatement create2)
    \<and> ss_completion t = ss_completion s"
    using f assms(2) k os u
    by (cases "structure_url urls")
      (auto simp: create_allowed_iff columns_given_def bindO_eq_Return on_session_Return option_url_scheme_Inr Let_def)
  then show ?thesis by blast
qed

text \<open>
  C28. A CREATE TABLE with a URL option that succeeds was allowed, and PostgreSQL's own CREATE TABLE
  ran once, between the two visits to chDB: it got the statement without the URL options and without
  the options meant for chDB (its storage parameters unchanged and in order), with the
  columns of the URL where the URL gives them. The caller's tree has only been changed if it was not
  read-only. With \<open>copy_from\<close> the rows were then copied into the new relation, under the same
  permission checks as a COPY FROM, with the context the columns came from.
\<close>

theorem create_runs:
  assumes "chdb_creates_from_url create"
    and "chDBProcessUtilityHook env (CreateStatement create) readOnlyTree s = Return () t"
  shows "\<exists>urls create1 ctx1 create2 ctx2 s1 s2. create_allowed env create (ss_catalog s) urls create1 ctx1
    \<and> cs_options create1 = filter (\<lambda>e. \<not> chdb_option e)
        (delete_option CHDB_COPY_FROM (delete_option CHDB_STRUCTURE_FROM (cs_options create)))
    \<and> columns_given env urls create1 ctx1 s create2 ctx2 (ss_world s1)
    \<and> ss_tree s1 = (if readOnlyTree then ss_tree s else CreateStatement create2)
    \<and> PrevProcessUtility env (CreateStatement create2) False s1 = Return () s2
    \<and> (case copy_url urls of None \<Rightarrow> t = s2 | Some url \<Rightarrow> rows_copied env (cs_relation create) url ctx2 s2 t)"
proof -
  have ro: "\<not> XactReadOnly env"
    using assms by (auto simp: chDBProcessUtilityHook_def hook_create_def PreventCommandIfReadOnly_def)
  then obtain create2 urls ctx2 s1 s2 where h: "\<not> XactReadOnly env"
    "create_columns_from_url env readOnlyTree create (start_context (he_gucs env)) s = Return (create2, urls, ctx2) s1"
    "PrevProcessUtility env (CreateStatement create2) False s1 = Return () s2"
    "(case copy_url urls of None \<Rightarrow> Return () s2 | Some url \<Rightarrow> copy_url_into env (cs_relation create2) url ctx2 s2) = Return () t"
    using assms by (auto simp: chDBProcessUtilityHook_def hook_create_def PreventCommandIfReadOnly_def bindO_eq_Return Let_def)
  from create_columns_Return [OF h(2,1)] obtain create1 ctx1 where
    c: "create_allowed env create (ss_catalog s) urls create1 ctx1"
      "columns_given env urls create1 ctx1 s create2 ctx2 (ss_world s1)"
      "ss_tree s1 = (if readOnlyTree then ss_tree s else CreateStatement create2)" by blast
  have o: "create1 = create\<lparr>cs_options := filter (\<lambda>e. \<not> chdb_option e) (other_options create)\<rparr>"
    using c(1) by (simp add: create_allowed_def)
  then have r: "cs_relation create2 = cs_relation create"
    using c(2) by (auto simp: columns_given_def split: option.splits)
  have "case copy_url urls of None \<Rightarrow> t = s2 | Some url \<Rightarrow> rows_copied env (cs_relation create) url ctx2 s2 t"
    using h(4) r by (auto split: option.splits dest: copy_url_into_Return)
  with c h(3) o show ?thesis by (intro exI conjI) auto
qed

theorem create_runs_witness:
  "\<exists>t. chDBProcessUtilityHook ex_hook (CreateStatement
       (ex_create\<lparr>cs_options := [\<lparr>defname = ''structure_from'', defarg = Some ''hdfs://h/f''\<rparr>]\<rparr>)) False ex_session = Return () t
     \<and> (\<exists>create. ss_tree t = CreateStatement create \<and> cs_tableElts create \<noteq> [] \<and> cs_options create = [])"
proof -
  let ?create = "ex_create\<lparr>cs_options := [\<lparr>defname = ''structure_from'', defarg = Some ''hdfs://h/f''\<rparr>]\<rparr>"
  let ?ctx = "(default_options (start_context initial_settings))\<lparr>cx_url := ''hdfs://h/f'', cx_scheme := hdfs_scheme\<rparr>"
  have u: "chdb_creates_from_url ?create"
    by (simp add: chdb_creates_from_url_def CHDB_STRUCTURE_FROM_def)
  obtain q p where "make_ch_query unix_port (describe_context ?ctx) = Inr (q, p)" "small_request q p"
    by (simp add: query_eval describe_context_def default_options_def start_context_def blank_context_def)
  then obtain w where d: "chdb_describe ex_command ?ctx ex_world = Return [(''a'', ''String'')] w"
    using ex_describe_runs by blast
  then have c: "\<exists>cols ctx. chdb_url_columns ex_command ex_types ?ctx ex_world = Return (cols, ctx, []) w \<and> cols \<noteq> []"
    by (simp add: chdb_url_columns_def url_columns_of_def Let_def add_url_column_def column_type_def add_structure_def
        ex_types_def)
  have sch: "option_url_scheme ex_hook ''hdfs://h/f'' CHDB_STRUCTURE_FROM = Inr hdfs_scheme"
    by (simp add: option_url_scheme_def scheme_eval ex_hook_def)
  have f: "chdb_create_from_url ex_def_lib ex_catalog () ?create
      = Return \<lparr>structure_url = Some ''hdfs://h/f'', copy_url = None\<rparr> (?create\<lparr>cs_options := []\<rparr>)"
    by (simp add: chdb_create_from_url_def take_url_option_def error_if_relation_exists_def Let_def ex_create_def
        ex_catalog_def ex_def_lib_def CHDB_COPY_FROM_def CHDB_STRUCTURE_FROM_def InvalidOid_def has_columns_def)
  have e: "he_command ex_hook = ex_command" "he_types ex_hook = ex_types" "he_defs ex_hook = ex_def_lib"
    "he_catalog ex_hook = ex_catalog" "he_gucs ex_hook = initial_settings" "\<not> XactReadOnly ex_hook"
    "PrevProcessUtility ex_hook = (\<lambda>_ _ s. Return () s)" "ss_world ex_session = ex_world"
    by (simp_all add: ex_hook_def ex_session_def)
  obtain t where t: "chDBProcessUtilityHook ex_hook (CreateStatement ?create) False ex_session = Return () t"
    using u c by (auto simp: chDBProcessUtilityHook_def hook_create_def PreventCommandIfReadOnly_def
        create_columns_from_url_def on_tree_def set_tree_def e f sch contextualize_options_def on_session_def Let_def)
  from create_runs [OF u t] obtain urls create1 ctx1 create2 ctx2 s1 s2 where
    r: "create_allowed ex_hook ?create (ss_catalog ex_session) urls create1 ctx1"
      "columns_given ex_hook urls create1 ctx1 ex_session create2 ctx2 (ss_world s1)"
      "ss_tree s1 = CreateStatement create2" "PrevProcessUtility ex_hook (CreateStatement create2) False s1 = Return () s2"
      "case copy_url urls of None \<Rightarrow> t = s2 | Some url \<Rightarrow> rows_copied ex_hook (cs_relation ?create) url ctx2 s2 t"
    by (simp only: if_False) blast
  have a: "urls = \<lparr>structure_url = Some ''hdfs://h/f'', copy_url = None\<rparr>" "create1 = ?create\<lparr>cs_options := []\<rparr>"
    "ctx1 = default_options (start_context initial_settings)"
    using r(1) by (simp_all add: create_allowed_iff e f contextualize_options_def)
  have "scheme_for (he_no_file ex_hook) (Some ''hdfs://h/f'') = hdfs_scheme" by (simp add: scheme_eval ex_hook_def)
  with r(2) a c have "cs_tableElts create2 \<noteq> [] \<and> cs_options create2 = []" by (auto simp: columns_given_def e)
  moreover have "t = s1" using r(4,5) a(1) by (simp add: e)
  ultimately show ?thesis using t r(3) by blast
qed

end
