(* ===== verification/Helper_Main.thy ===== *)
theory Helper_Main
  imports Settings
begin

text \<open>
  The program \<open>src/helper/chdb_helper.c\<close>: it reads its setup payload, opens a chDB session,
  runs one query and exits with a status. The chDB library is the parameter \<open>chdb_lib\<close>, what
  the program is given as results of its calls; the calls the program makes to manage the
  library's handles are recorded. The standard streams are the scripts of the pipes.
\<close>

section \<open>The library and the process\<close>

text \<open>
  Results of libchdb. A failing call carries its error text (\<open>chdb_result_error\<close>), otherwise its
  bytes. \<open>lib_fetch q p\<close> is what the successive \<open>chdb_stream_fetch_result\<close> calls give; an
  exhausted list is the empty chunk that ends a stream. \<open>lib_append\<close> is given what was
  appended before and answers \<open>Some\<close> for a failing append, with its error text if it has one.
\<close>

record chdb_lib =
  lib_connects :: bool
  lib_settings :: "string \<Rightarrow> string option"
  lib_stream_error :: "string \<Rightarrow> (string \<times> string) list \<Rightarrow> string option"
  lib_fetch :: "string \<Rightarrow> (string \<times> string) list \<Rightarrow> (string + string) list"
  lib_query :: "string \<Rightarrow> (string \<times> string) list \<Rightarrow> string + string"
  lib_insert_error :: "string \<Rightarrow> (string \<times> string) list \<Rightarrow> string option"
  lib_append :: "string \<Rightarrow> string \<Rightarrow> string option option"
  lib_done :: "string \<Rightarrow> string option"

datatype handle = SettingsResult | Stream | Chunk | QueryResult | InsertStream | DoneResult

datatype lib_call =
  OpenHandle handle | DestroyHandle handle | CancelQuery | CancelInsert | Append string | CloseConn

record hproc =
  out :: string
  out_wr :: "write_event list"
  in_ev :: "read_event list"
  err_out :: string
  lib_calls :: "lib_call list"

definition call :: "lib_call list \<Rightarrow> hproc \<Rightarrow> hproc" where
  "call cs s = s\<lparr>lib_calls := lib_calls s @ cs\<rparr>"

text \<open>\<open>fprintf(stderr, "%s\n", text)\<close>.\<close>

definition complain :: "string \<Rightarrow> hproc \<Rightarrow> hproc" where
  "complain msg s = s\<lparr>err_out := err_out s @ msg @ [CHR 0x0A]\<rparr>"

text \<open>A function of the program returns a status to \<open>main\<close>, or \<open>fail\<close> exits at once.\<close>

datatype verdict = Status nat | ExitNow nat

definition fail :: "string \<Rightarrow> hproc \<Rightarrow> verdict \<times> hproc" where
  "fail what s = (ExitNow 1, complain what s)"

definition LOST_BACKEND :: nat where "LOST_BACKEND = 2"

definition CHDB_HELPER_IO_BYTES :: nat where "CHDB_HELPER_IO_BYTES = 256 * 1024"

section \<open>Writing the result\<close>

text \<open>\<open>write_all\<close>: false once the backend has gone. \<open>None\<close>: still blocked on the pipe.\<close>

function write_out :: "string \<Rightarrow> hproc \<Rightarrow> (bool \<times> hproc) option" where
  "write_out bs s =
     (if bs = [] then Some (True, s)
      else
        (case sys_write bs (out_wr s) of
           None \<Rightarrow> None
         | Some (Put n, es) \<Rightarrow> write_out (drop n bs) (s\<lparr>out_wr := es, out := out s @ take n bs\<rparr>)
         | Some (PutErr e, es) \<Rightarrow>
             if e \<noteq> EINTR then Some (False, s\<lparr>out_wr := es\<rparr>) else write_out bs (s\<lparr>out_wr := es\<rparr>)))"
  by pat_completeness auto

termination write_out
  by (relation "measure (\<lambda>(bs, s). length (out_wr s))") (auto dest: sys_write_Put sys_write_Err)

declare write_out.simps [simp del]

text \<open>The loop of \<open>run_select\<close> over the fetched chunks: the status it breaks with.\<close>

fun send_chunks :: "(string + string) list \<Rightarrow> hproc \<Rightarrow> (nat \<times> hproc) option" where
  "send_chunks [] s = Some (0, call [OpenHandle Chunk, DestroyHandle Chunk] s)"
| "send_chunks (Inl e # cs) s =
     Some (1, call [DestroyHandle Chunk] (complain e (call [OpenHandle Chunk] s)))"
| "send_chunks (Inr b # cs) s =
     (if b = [] then Some (0, call [OpenHandle Chunk, DestroyHandle Chunk] s)
      else
        (case write_out b (call [OpenHandle Chunk] s) of
           None \<Rightarrow> None
         | Some (True, s) \<Rightarrow> send_chunks cs (call [DestroyHandle Chunk] s)
         | Some (False, s) \<Rightarrow> Some (LOST_BACKEND, call [DestroyHandle Chunk] s)))"

definition run_select ::
  "chdb_lib \<Rightarrow> string \<Rightarrow> (string \<times> string) list \<Rightarrow> hproc \<Rightarrow> (verdict \<times> hproc) option"
where
  "run_select lib query par s =
     (let s = call [OpenHandle Stream] s
      in case lib_stream_error lib query par of
           Some e \<Rightarrow> Some (Status 1, call [DestroyHandle Stream] (complain e s))
         | None \<Rightarrow>
             (case send_chunks (lib_fetch lib query par) s of
                None \<Rightarrow> None
              | Some (status, s) \<Rightarrow>
                  Some (Status status, call [DestroyHandle Stream]
                    (if status \<noteq> 0 then call [CancelQuery] s else s))))"

definition run_query ::
  "chdb_lib \<Rightarrow> string \<Rightarrow> (string \<times> string) list \<Rightarrow> hproc \<Rightarrow> (verdict \<times> hproc) option"
where
  "run_query lib query par s =
     (let s = call [OpenHandle QueryResult] s
      in case lib_query lib query par of
           Inl e \<Rightarrow> Some (Status 1, call [DestroyHandle QueryResult] (complain e s))
         | Inr b \<Rightarrow>
             if b = [] then Some (Status 0, call [DestroyHandle QueryResult] s)
             else
               (case write_out b s of
                  None \<Rightarrow> None
                | Some (ok, s) \<Rightarrow>
                    Some (Status (if ok then 0 else LOST_BACKEND), call [DestroyHandle QueryResult] s)))"

section \<open>Reading the insert\<close>

text \<open>
  The loop of \<open>run_insert\<close>: \<open>Inl\<close> is the status of an early return, \<open>Inr\<close> all that was
  appended when the backend's stream ended.
\<close>

function append_blocks :: "chdb_lib \<Rightarrow> string \<Rightarrow> hproc \<Rightarrow> ((nat + string) \<times> hproc) option" where
  "append_blocks lib sofar s =
     (case sys_read CHDB_HELPER_IO_BYTES (in_ev s) of
        None \<Rightarrow> None
      | Some (GotEof, es) \<Rightarrow> Some (Inr sofar, s\<lparr>in_ev := es\<rparr>)
      | Some (GotErr e, es) \<Rightarrow>
          if e = EINTR then append_blocks lib sofar (s\<lparr>in_ev := es\<rparr>)
          else Some (Inl LOST_BACKEND, call [CancelInsert, DestroyHandle InsertStream] (s\<lparr>in_ev := es\<rparr>))
      | Some (Got b, es) \<Rightarrow>
          (let s = call [Append b] (s\<lparr>in_ev := es\<rparr>)
           in case lib_append lib sofar b of
                None \<Rightarrow> append_blocks lib (sofar @ b) s
              | Some e \<Rightarrow>
                  Some (Inl 1, call [CancelInsert, DestroyHandle InsertStream]
                    (complain (case e of Some msg \<Rightarrow> msg | None \<Rightarrow> ''chdb: append failed'') s))))"
  by pat_completeness auto

lemma call_sel [simp]:
  "in_ev (call cs s) = in_ev s" "out_wr (call cs s) = out_wr s" "out (call cs s) = out s"
  "err_out (call cs s) = err_out s" "lib_calls (call cs s) = lib_calls s @ cs"
  by (simp_all add: call_def)

lemma complain_sel [simp]:
  "in_ev (complain m s) = in_ev s" "out_wr (complain m s) = out_wr s" "out (complain m s) = out s"
  "err_out (complain m s) = err_out s @ m @ [CHR 0x0A]" "lib_calls (complain m s) = lib_calls s"
  by (simp_all add: complain_def)

termination append_blocks
  by (relation "measure (\<lambda>(lib, sofar, s). read_size (in_ev s))")
    (auto dest: sys_read_Got_size sys_read_Err_size)

declare append_blocks.simps [simp del]

definition run_insert ::
  "(nat \<Rightarrow> bool) \<Rightarrow> chdb_lib \<Rightarrow> string \<Rightarrow> (string \<times> string) list \<Rightarrow> hproc \<Rightarrow> (verdict \<times> hproc) option"
where
  "run_insert alloc lib query par s =
     (let s = call [OpenHandle InsertStream] s
      in case lib_insert_error lib query par of
           Some e \<Rightarrow> Some (Status 1, call [DestroyHandle InsertStream] (complain e s))
         | None \<Rightarrow>
             if \<not> alloc CHDB_HELPER_IO_BYTES then Some (fail out_of_memory s)
             else
               (case append_blocks lib [] s of
                  None \<Rightarrow> None
                | Some (Inl status, s) \<Rightarrow> Some (Status status, s)
                | Some (Inr blocks, s) \<Rightarrow>
                    (let s = call [OpenHandle DoneResult] s;
                         s = (case lib_done lib blocks of None \<Rightarrow> s | Some e \<Rightarrow> complain e s)
                     in Some (Status (if lib_done lib blocks = None then 0 else 1),
                          call [DestroyHandle DoneResult, DestroyHandle InsertStream] s))))"

section \<open>The session and the program\<close>

definition setup_session :: "chdb_lib \<Rightarrow> setup_request \<Rightarrow> hproc \<Rightarrow> (nat \<times> hproc) option" where
  "setup_session lib req s =
     (let ctx = req_ctx req
      in case session_settings (max_memory ctx) (max_threads ctx) (max_parsers ctx) (req_timezone req) of
           None \<Rightarrow> None
         | Some text \<Rightarrow>
             (case lib_settings lib text of
                Some e \<Rightarrow> Some (1, call [DestroyHandle SettingsResult]
                  (complain e (call [OpenHandle SettingsResult] s)))
              | None \<Rightarrow> Some (0, call [OpenHandle SettingsResult, DestroyHandle SettingsResult] s)))"

definition dispatch ::
  "(nat \<Rightarrow> bool) \<Rightarrow> chdb_lib \<Rightarrow> setup_request \<Rightarrow> hproc \<Rightarrow> (verdict \<times> hproc) option"
where
  "dispatch alloc lib req s =
     (if cmd (req_ctx req) = CHDB_CMD_SELECT then run_select lib (req_query req) (req_params req) s
      else if cmd (req_ctx req) = CHDB_CMD_INSERT then run_insert alloc lib (req_query req) (req_params req) s
      else if cmd (req_ctx req) = CHDB_CMD_DESCRIBE then run_query lib (req_query req) (req_params req) s
      else Some (fail ''chdb: unknown command type'' s))"

text \<open>
  \<open>main\<close> after the payload is parsed, and \<open>main\<close>: the exit status and the final state.
\<close>

definition run_request ::
  "(nat \<Rightarrow> bool) \<Rightarrow> chdb_lib \<Rightarrow> setup_request \<Rightarrow> hproc \<Rightarrow> (nat \<times> hproc) option"
where
  "run_request alloc lib req s =
     (if \<not> lib_connects lib then Some (1, complain ''chdb: unable to connect to chDB'' s)
      else
        (case setup_session lib req s of
           None \<Rightarrow> None
         | Some (st, s) \<Rightarrow>
             if st \<noteq> 0 then Some (st, call [CloseConn] s)
             else
               (case dispatch alloc lib req s of
                  None \<Rightarrow> None
                | Some (ExitNow st, s) \<Rightarrow> Some (st, s)
                | Some (Status st, s) \<Rightarrow> Some (st, call [CloseConn] s))))"

definition helper_main ::
  "(nat \<Rightarrow> bool) \<Rightarrow> endian \<Rightarrow> chdb_lib \<Rightarrow> read_event list \<Rightarrow> hproc \<Rightarrow> (nat \<times> hproc) option"
where
  "helper_main alloc e lib setup_ev s =
     (case read_setup alloc setup_ev of
        None \<Rightarrow> None
      | Some (Inl msg) \<Rightarrow> Some (1, complain msg s)
      | Some (Inr payload) \<Rightarrow>
          (case parse_setup alloc e payload of
             Inl msg \<Rightarrow> Some (1, complain msg s)
           | Inr req \<Rightarrow> run_request alloc lib req s))"

section \<open>What was written\<close>

lemma write_out_out:
  "write_out bs s = Some (ok, t) \<Longrightarrow> \<exists>b. prefix b bs \<and> out t = out s @ b \<and> (ok \<longrightarrow> b = bs)
     \<and> err_out t = err_out s \<and> lib_calls t = lib_calls s \<and> in_ev t = in_ev s"
proof (induction bs s rule: write_out.induct)
  case (1 bs s)
  show ?case
  proof (cases "bs = []")
    case True
    with "1.prems" show ?thesis by (simp add: write_out.simps)
  next
    case False
    then obtain r es where r: "sys_write bs (out_wr s) = Some (r, es)"
      using "1.prems" by (auto simp: write_out.simps [of bs s] split: option.splits)
    show ?thesis
    proof (cases r)
      case (Put n)
      have "write_out (drop n bs) (s\<lparr>out_wr := es, out := out s @ take n bs\<rparr>) = Some (ok, t)"
        using "1.prems" False r Put by (simp add: write_out.simps [of bs s])
      from "1.IH"(1) [OF False r refl Put this] obtain b where
        b: "prefix b (drop n bs)" "out t = out s @ take n bs @ b" "ok \<longrightarrow> b = drop n bs"
          "err_out t = err_out s" "lib_calls t = lib_calls s" "in_ev t = in_ev s" by auto
      then have "prefix (take n bs @ b) (take n bs @ drop n bs)" by (simp only: same_prefix_prefix)
      with b show ?thesis by (intro exI [of _ "take n bs @ b"]) auto
    next
      case (PutErr e)
      with "1.prems" False r "1.IH"(2) [OF False r refl PutErr] show ?thesis
        by (cases "e = EINTR") (auto simp: write_out.simps [of bs s])
    qed
  qed
qed

text \<open>The program's own output is an ordered byte stream too.\<close>

definition write_stdout :: "string \<Rightarrow> hproc \<Rightarrow> (unit, hproc) outcome" where
  "write_stdout bs s =
     (case write_out bs s of
        None \<Rightarrow> Waiting
      | Some (True, t) \<Rightarrow> Return () t
      | Some (False, t) \<Rightarrow> Raise (ereport ERRCODE_INTERNAL_ERROR []) t)"

interpretation ho: byte_sink write_stdout out out "\<lambda>_. True"
proof
  show "write_stdout bs s = Return u t \<Longrightarrow> out t = out s @ bs \<and> True" for bs s u t
    by (auto simp: write_stdout_def split: option.splits bool.splits dest: write_out_out)
  show "write_stdout bs s = Raise e t \<Longrightarrow> prefix (out t) (out s @ bs)" for bs s e t
    by (auto simp: write_stdout_def split: option.splits bool.splits dest: write_out_out)
qed

text \<open>What a stream of fetched chunks amounts to: its bytes up to the empty chunk, or the error
  that comes before it, with the bytes that preceded the error.\<close>

fun chunks_value :: "(string + string) list \<Rightarrow> string \<times> string option" where
  "chunks_value [] = ([], None)"
| "chunks_value (Inl e # cs) = ([], Some e)"
| "chunks_value (Inr b # cs) =
     (if b = [] then ([], None) else (case chunks_value cs of (bs, e) \<Rightarrow> (b @ bs, e)))"

lemma send_chunks_spec:
  "send_chunks cs s = Some (st, t) \<Longrightarrow> chunks_value cs = (bs, e) \<Longrightarrow>
     (st = 0 \<longrightarrow> e = None \<and> out t = out s @ bs \<and> err_out t = err_out s)
     \<and> (st = 1 \<longrightarrow> (\<exists>m. e = Some m \<and> out t = out s @ bs \<and> err_out t = err_out s @ m @ [CHR 0x0A]))
     \<and> (st = LOST_BACKEND \<longrightarrow> prefix (out t) (out s @ bs) \<and> err_out t = err_out s)
     \<and> st \<in> {0, 1, LOST_BACKEND}"
proof (induction cs s arbitrary: bs rule: send_chunks.induct)
  case (3 b cs s)
  show ?case
  proof (cases "b = []")
    case True
    with 3 show ?thesis by (auto simp: LOST_BACKEND_def)
  next
    case False
    then obtain ok r where w: "write_out b (call [OpenHandle Chunk] s) = Some (ok, r)"
      using "3.prems" by (auto split: option.splits)
    obtain bs' where v: "chunks_value cs = (bs', e)" "bs = b @ bs'"
      using "3.prems"(2) False by (auto split: prod.splits)
    show ?thesis
    proof (cases ok)
      case True
      with w False "3.prems" have "send_chunks cs (call [DestroyHandle Chunk] r) = Some (st, t)" by simp
      from "3.IH" [OF False w refl _ this v(1)] v write_out_out [OF w] True show ?thesis by auto
    next
      case False
      with w \<open>b \<noteq> []\<close> "3.prems" have "st = LOST_BACKEND" "t = call [DestroyHandle Chunk] r" by auto
      with write_out_out [OF w] v show ?thesis by (auto simp: LOST_BACKEND_def prefix_def)
    qed
  qed
qed (auto simp: LOST_BACKEND_def)

lemma run_select_out:
  assumes "run_select lib query par s = Some (Status st, t)"
    and "lib_stream_error lib query par = None"
    and "chunks_value (lib_fetch lib query par) = (bs, e)"
  shows "(st = 0 \<longrightarrow> e = None \<and> out t = out s @ bs)
    \<and> (st = 1 \<longrightarrow> (\<exists>m. e = Some m \<and> out t = out s @ bs \<and> err_out t = err_out s @ m @ [CHR 0x0A]))
    \<and> (st = LOST_BACKEND \<longrightarrow> prefix (out t) (out s @ bs)) \<and> st \<in> {0, 1, LOST_BACKEND}"
proof -
  obtain r where r: "send_chunks (lib_fetch lib query par) (call [OpenHandle Stream] s) = Some (st, r)"
    "t = call [DestroyHandle Stream] (if st \<noteq> 0 then call [CancelQuery] r else r)"
    using assms(1,2) by (auto simp: run_select_def Let_def split: option.splits)
  from send_chunks_spec [OF r(1) assms(3)] r(2) show ?thesis by auto
qed

text \<open>
  A SELECT that exits with status 0 has written its whole result: every byte of the chunks
  chDB produced, in order, up to the chunk that ends the stream, and none of them was an error.
  With status 1 the bytes before the error were written and the error text was printed; with
  the lost-backend status a prefix was written.
\<close>

theorem select_complete:
  assumes "run_select lib query par s = Some (Status st, t)"
    and "lib_stream_error lib query par = None"
    and "chunks_value (lib_fetch lib query par) = (bs, e)"
  shows "(st = 0 \<longrightarrow> e = None \<and> out t = out s @ bs)
    \<and> (st = 1 \<longrightarrow> (\<exists>m. e = Some m \<and> out t = out s @ bs \<and> err_out t = err_out s @ m @ [CHR 0x0A]))
    \<and> (st = LOST_BACKEND \<longrightarrow> prefix (out t) (out s @ bs)) \<and> st \<in> {0, 1, LOST_BACKEND}"
  using assms by (rule run_select_out)

definition ex_lib :: chdb_lib where
  "ex_lib = \<lparr>lib_connects = True, lib_settings = (\<lambda>_. None), lib_stream_error = (\<lambda>_ _. None),
     lib_fetch = (\<lambda>_ _. [Inr ''ab'', Inr ''c'']), lib_query = (\<lambda>_ _. Inr ''d''),
     lib_insert_error = (\<lambda>_ _. None), lib_append = (\<lambda>_ _. None), lib_done = (\<lambda>_. None)\<rparr>"

definition ex_proc :: hproc where
  "ex_proc = \<lparr>out = [], out_wr = [Accept 0, WriteErr EINTR, Accept 9, Accept 9],
     in_ev = [Data CHR ''x'' ''y'', ReadErr EINTR, Data CHR ''z'' [], Eof], err_out = [], lib_calls = []\<rparr>"

theorem select_complete_witness:
  "\<exists>t. run_select ex_lib ''q'' [] ex_proc = Some (Status 0, t) \<and> out t = ''abc''"
proof -
  obtain t where t: "run_select ex_lib ''q'' [] ex_proc = Some (Status 0, t)"
    by (simp add: run_select_def ex_lib_def ex_proc_def call_def write_out.simps Let_def)
  have "out t = out ex_proc @ ''abc''"
    using select_complete [OF t, of "''abc''" None] by (simp add: ex_lib_def)
  then have "out t = ''abc''" by (simp add: ex_proc_def)
  with t show ?thesis by blast
qed

section \<open>What was appended\<close>

definition appended :: "lib_call list \<Rightarrow> string" where
  "appended cs = concat (map (\<lambda>c. case c of Append b \<Rightarrow> b | _ \<Rightarrow> []) cs)"

lemma appended_simps [simp]:
  "appended [] = []" "appended (xs @ ys) = appended xs @ appended ys" "appended (Append b # cs) = b @ appended cs"
  "appended (OpenHandle h # cs) = appended cs" "appended (DestroyHandle h # cs) = appended cs"
  "appended (CancelInsert # cs) = appended cs" "appended (CancelQuery # cs) = appended cs"
  "appended (CloseConn # cs) = appended cs"
  by (simp_all add: appended_def)

lemma append_blocks_spec:
  "append_blocks lib sofar s = Some (r, t) \<Longrightarrow>
     (\<forall>blocks. r = Inr blocks \<longrightarrow> blocks = sofar @ stream_bytes (in_ev s) \<and> err_out t = err_out s
        \<and> appended (lib_calls t) = appended (lib_calls s) @ stream_bytes (in_ev s))
     \<and> (\<forall>st. r = Inl st \<longrightarrow> (st = 1 \<and> (\<exists>m. err_out t = err_out s @ m @ [CHR 0x0A]))
        \<or> (st = LOST_BACKEND \<and> err_out t = err_out s))"
proof (induction lib sofar s rule: append_blocks.induct)
  case (1 lib sofar s)
  obtain a es where a: "sys_read CHDB_HELPER_IO_BYTES (in_ev s) = Some (a, es)"
    using "1.prems" by (auto simp: append_blocks.simps [of lib sofar s] split: option.splits)
  show ?case
  proof (cases a)
    case (Got b)
    show ?thesis
    proof (cases "lib_append lib sofar b")
      case None
      then have "append_blocks lib (sofar @ b) (call [Append b] (s\<lparr>in_ev := es\<rparr>)) = Some (r, t)"
        using "1.prems" a Got by (simp add: append_blocks.simps [of lib sofar s] Let_def)
      from "1.IH"(1) [OF a refl Got refl None this] sys_read_Got(1) [of CHDB_HELPER_IO_BYTES "in_ev s" b es] a Got
      show ?thesis by auto
    next
      case (Some e)
      with "1.prems" a Got show ?thesis by (auto simp: append_blocks.simps [of lib sofar s] Let_def)
    qed
  next
    case GotEof
    with a have "stream_bytes (in_ev s) = []" by (auto simp: CHDB_HELPER_IO_BYTES_def dest: sys_read_Eof)
    with "1.prems" a GotEof show ?thesis by (auto simp: append_blocks.simps [of lib sofar s])
  next
    case (GotErr e)
    show ?thesis
    proof (cases "e = EINTR")
      case True
      then have "append_blocks lib sofar (s\<lparr>in_ev := es\<rparr>) = Some (r, t)"
        using "1.prems" a GotErr by (simp add: append_blocks.simps [of lib sofar s])
      from "1.IH"(2) [OF a refl GotErr True this] sys_read_Err [of CHDB_HELPER_IO_BYTES "in_ev s" e es UNIV] a GotErr
      show ?thesis by simp
    next
      case False
      with "1.prems" a GotErr show ?thesis by (auto simp: append_blocks.simps [of lib sofar s])
    qed
  qed
qed

lemma run_insert_appended:
  assumes "run_insert alloc lib query par s = Some (Status 0, t)"
  shows "appended (lib_calls t) = appended (lib_calls s) @ stream_bytes (in_ev s)
    \<and> lib_done lib (stream_bytes (in_ev s)) = None \<and> err_out t = err_out s"
proof -
  obtain blocks r where r: "append_blocks lib [] (call [OpenHandle InsertStream] s) = Some (Inr blocks, r)"
    "lib_done lib blocks = None"
    "t = call [DestroyHandle DoneResult, DestroyHandle InsertStream] (call [OpenHandle DoneResult] r)"
    using assms append_blocks_spec [of lib "[]" "call [OpenHandle InsertStream] s"]
    by (auto simp: run_insert_def Let_def fail_def LOST_BACKEND_def split: option.splits if_splits sum.splits)
  from append_blocks_spec [OF r(1)] r(2,3) show ?thesis by auto
qed

text \<open>
  An INSERT that exits with status 0 has appended everything the backend sent, in order and
  without cutting its stream at a read that was interrupted, and chDB accepted the whole of it.
\<close>

theorem insert_complete:
  assumes "run_insert alloc lib query par s = Some (Status 0, t)"
  shows "appended (lib_calls t) = appended (lib_calls s) @ stream_bytes (in_ev s)
    \<and> lib_done lib (stream_bytes (in_ev s)) = None \<and> err_out t = err_out s"
  using assms by (rule run_insert_appended)

theorem insert_complete_witness:
  "\<exists>t. run_insert (\<lambda>_. True) ex_lib ''q'' [] ex_proc = Some (Status 0, t) \<and> appended (lib_calls t) = ''xyz''"
proof -
  obtain t where t: "run_insert (\<lambda>_. True) ex_lib ''q'' [] ex_proc = Some (Status 0, t)"
    by (simp add: run_insert_def ex_lib_def ex_proc_def call_def append_blocks.simps Let_def
        CHDB_HELPER_IO_BYTES_def)
  have "appended (lib_calls t) = ''xyz''" using insert_complete [OF t] by (simp add: ex_proc_def)
  with t show ?thesis by blast
qed

section \<open>Exit statuses and handles\<close>

text \<open>What the statuses say about the error output.\<close>

definition explained :: "hproc \<Rightarrow> nat \<Rightarrow> hproc \<Rightarrow> bool" where
  "explained s st t \<longleftrightarrow> (st \<in> {0, LOST_BACKEND} \<and> err_out t = err_out s)
     \<or> (st = 1 \<and> (\<exists>m. err_out t = err_out s @ m @ [CHR 0x0A]))"

lemma explained_call [simp]:
  "explained s st (call cs t) = explained s st t" "explained (call cs s) st t = explained s st t"
  by (simp_all add: explained_def)

lemma explained_complain: "err_out t = err_out s \<Longrightarrow> explained s (Suc 0) (complain m t)"
  by (auto simp: explained_def)

lemma send_chunks_explained: "send_chunks cs s = Some (st, t) \<Longrightarrow> explained s st t"
  using send_chunks_spec [of cs s st t] by (cases "chunks_value cs") (fastforce simp: explained_def)

lemma dispatch_explained:
  assumes "dispatch alloc lib req s = Some (v, t)"
  shows "\<exists>st. (v = Status st \<or> v = ExitNow st) \<and> explained s st t"
proof -
  have sel: "\<exists>st. v = Status st \<and> explained s st t" if "run_select lib q p s = Some (v, t)" for q p
    using that send_chunks_explained [of _ "call [OpenHandle Stream] s"]
    by (auto simp: run_select_def Let_def explained_complain split: option.splits if_splits)
  have qry: "\<exists>st. v = Status st \<and> explained s st t" if "run_query lib q p s = Some (v, t)" for q p
    using that write_out_out [of _ "call [OpenHandle QueryResult] s"]
    by (fastforce simp: run_query_def Let_def explained_complain explained_def
        split: option.splits if_splits sum.splits)
  have ins: "\<exists>st. (v = Status st \<or> v = ExitNow st) \<and> explained s st t"
    if "run_insert alloc lib q p s = Some (v, t)" for q p
    using that append_blocks_spec [of lib "[]" "call [OpenHandle InsertStream] s"]
    by (auto simp: run_insert_def Let_def fail_def explained_complain explained_def LOST_BACKEND_def
        split: option.splits if_splits sum.splits)
  from assms consider "run_select lib (req_query req) (req_params req) s = Some (v, t)"
    | "run_insert alloc lib (req_query req) (req_params req) s = Some (v, t)"
    | "run_query lib (req_query req) (req_params req) s = Some (v, t)"
    | "v = ExitNow 1" "t = complain ''chdb: unknown command type'' s"
    by (auto simp: dispatch_def fail_def split: if_splits)
  then show ?thesis
  proof cases
    case 4
    then show ?thesis using explained_complain [of s s] by auto
  qed (use sel qry ins in blast)+
qed

text \<open>
  C32. The contract of \<open>src/helper.h\<close> for the exit: 0 and the lost-backend status come with nothing
  on the error channel, every other status is 1 and comes with a message, and there is no other
  status.
\<close>

theorem exit_contract:
  assumes "helper_main alloc e lib setup_ev s = Some (st, t)"
  shows "(st = 0 \<or> st = LOST_BACKEND \<longrightarrow> err_out t = err_out s)
    \<and> (st = 1 \<longrightarrow> (\<exists>m. err_out t = err_out s @ m @ [CHR 0x0A])) \<and> st \<in> {0, 1, LOST_BACKEND}"
proof -
  have "explained s st t" if r: "run_request alloc lib req s = Some (st, t)" for req
  proof (cases "lib_connects lib")
    case False
    with r show ?thesis by (auto simp: run_request_def explained_complain)
  next
    case True
    then obtain st1 s1 where 1: "setup_session lib req s = Some (st1, s1)"
      using r by (auto simp: run_request_def split: option.splits)
    then have e1: "explained s st1 s1" "st1 = 0 \<longrightarrow> err_out s1 = err_out s"
      by (auto simp: setup_session_def Let_def explained_def split: option.splits)
    show ?thesis
    proof (cases "st1 = 0")
      case False
      with r True 1 e1 show ?thesis by (auto simp: run_request_def)
    next
      case z: True
      then obtain v t1 where "dispatch alloc lib req s1 = Some (v, t1)"
        "(v = Status st \<and> t = call [CloseConn] t1) \<or> (v = ExitNow st \<and> t = t1)"
        using r True 1 by (auto simp: run_request_def split: option.splits verdict.splits)
      with dispatch_explained [of alloc lib req s1 v t1] e1(2) z show ?thesis by (auto simp: explained_def)
    qed
  qed
  then have "explained s st t"
    using assms by (auto simp: helper_main_def explained_complain split: option.splits sum.splits)
  then show ?thesis by (auto simp: explained_def LOST_BACKEND_def)
qed

theorem exit_contract_witness:
  "\<exists>t. helper_main (\<lambda>_. True) Little ex_lib [Data CHR ''S'' [], Eof] ex_proc = Some (1, t)
     \<and> (\<exists>m. err_out t = m @ [CHR 0x0A])"
proof -
  have "read_setup (\<lambda>_. True) [Data CHR ''S'' [], Eof] = Some (Inr ''S'')"
    using read_setup_spec [of "[Data CHR ''S'' [], Eof]" "\<lambda>_. True"] by (simp add: CHDB_SETUP_MAX_def)
  then obtain t where t: "helper_main (\<lambda>_. True) Little ex_lib [Data CHR ''S'' [], Eof] ex_proc = Some (1, t)"
    by (simp add: helper_main_def parse_setup_def take2_def)
  from exit_contract [OF t] t show ?thesis by (auto simp: ex_proc_def)
qed

text \<open>How many handles of a kind are open.\<close>

definition live :: "handle \<Rightarrow> lib_call list \<Rightarrow> int" where
  "live h cs = int (count_list cs (OpenHandle h)) - int (count_list cs (DestroyHandle h))"

lemma live_append [simp]: "live h (xs @ ys) = live h xs + live h ys"
  by (simp add: live_def)

lemma live_simps [simp]:
  "live h [] = 0" "live h (OpenHandle k # cs) = (if h = k then 1 else 0) + live h cs"
  "live h (DestroyHandle k # cs) = live h cs - (if h = k then 1 else 0)"
  "live h (CancelQuery # cs) = live h cs" "live h (CancelInsert # cs) = live h cs"
  "live h (Append b # cs) = live h cs" "live h (CloseConn # cs) = live h cs"
  by (auto simp: live_def)

lemma send_chunks_live: "send_chunks cs s = Some (st, t) \<Longrightarrow> live h (lib_calls t) = live h (lib_calls s)"
proof (induction cs s rule: send_chunks.induct)
  case (3 b cs s)
  show ?case
  proof (cases "b = []")
    case False
    then obtain ok r where w: "write_out b (call [OpenHandle Chunk] s) = Some (ok, r)"
      using "3.prems" by (auto split: option.splits)
    with write_out_out [OF w] "3.IH" [OF False w refl] "3.prems" False show ?thesis by (cases ok) auto
  qed (use 3 in auto)
qed auto

lemma append_blocks_live:
  "append_blocks lib sofar s = Some (r, t) \<Longrightarrow> live h (lib_calls t)
     = live h (lib_calls s) - (if (\<exists>st. r = Inl st) \<and> h = InsertStream then 1 else 0)"
proof (induction lib sofar s rule: append_blocks.induct)
  case (1 lib sofar s)
  obtain a es where a: "sys_read CHDB_HELPER_IO_BYTES (in_ev s) = Some (a, es)"
    using "1.prems" by (auto simp: append_blocks.simps [of lib sofar s] split: option.splits)
  show ?case
  proof (cases a)
    case (Got b)
    with "1.prems" a "1.IH"(1) [OF a refl Got refl] show ?thesis
      by (cases "lib_append lib sofar b") (auto simp: append_blocks.simps [of lib sofar s] Let_def)
  next
    case GotEof
    with "1.prems" a show ?thesis by (auto simp: append_blocks.simps [of lib sofar s])
  next
    case (GotErr e)
    with "1.prems" a "1.IH"(2) [OF a refl GotErr] show ?thesis
      by (cases "e = EINTR") (auto simp: append_blocks.simps [of lib sofar s])
  qed
qed

text \<open>
  C33. Every handle the library gives out during a command is destroyed exactly once before the
  command returns its status, on the error paths as well.
\<close>

theorem handles_released:
  assumes "dispatch alloc lib req s = Some (Status st, t)"
  shows "live h (lib_calls t) = live h (lib_calls s)"
proof -
  have "live h (lib_calls t) = live h (lib_calls s)" if "run_select lib q p s = Some (Status st, t)" for q p
    using that send_chunks_live [of _ "call [OpenHandle Stream] s"]
    by (auto simp: run_select_def Let_def split: option.splits if_splits)
  moreover have "live h (lib_calls t) = live h (lib_calls s)" if "run_query lib q p s = Some (Status st, t)" for q p
    using that write_out_out [of _ "call [OpenHandle QueryResult] s"]
    by (fastforce simp: run_query_def Let_def split: option.splits if_splits sum.splits)
  moreover have "live h (lib_calls t) = live h (lib_calls s)"
    if "run_insert alloc lib q p s = Some (Status st, t)" for q p
    using that append_blocks_live [of lib "[]" "call [OpenHandle InsertStream] s"]
    by (auto simp: run_insert_def Let_def fail_def split: option.splits if_splits sum.splits)
  ultimately show ?thesis using assms by (auto simp: dispatch_def fail_def split: if_splits)
qed

theorem handles_released_witness:
  "\<exists>t. dispatch (\<lambda>_. True) ex_lib \<lparr>req_ctx = \<lparr>cmd = CHDB_CMD_DESCRIBE, max_memory = 0, max_threads = 0,
       max_parsers = 0\<rparr>, req_timezone = ''UTC'', req_query = ''q'', req_params = []\<rparr> ex_proc = Some (Status 0, t)
     \<and> live QueryResult (lib_calls t) = 0"
proof -
  let ?r = "\<lparr>req_ctx = \<lparr>cmd = CHDB_CMD_DESCRIBE, max_memory = 0, max_threads = 0, max_parsers = 0\<rparr>,
    req_timezone = ''UTC'', req_query = ''q'', req_params = []\<rparr>"
  obtain t where t: "dispatch (\<lambda>_. True) ex_lib ?r ex_proc = Some (Status 0, t)"
    by (simp add: dispatch_def run_query_def ex_lib_def ex_proc_def call_def write_out.simps Let_def)
  have "live QueryResult (lib_calls t) = 0" using handles_released [OF t, of QueryResult] by (simp add: ex_proc_def)
  with t show ?thesis by blast
qed

end
