(* ===== verification/Helper_Report.thy ===== *)
theory Helper_Report
  imports Helper_Process
begin

text \<open>
  What a failed helper is reported as: the reading of the wait status by \<open>report_helper\<close> and
  \<open>helper_end\<close>, and the editing of the helper's error text by \<open>helper_error\<close>, all of
  \<open>src/helper.c\<close>.
\<close>

section \<open>The wait status\<close>

lemma exited_status:
  assumes "0 \<le> k" "k < 256"
  shows "WIFEXITED (256 * k)" "WEXITSTATUS (256 * k) = k" "\<not> WIFSIGNALED (256 * k)"
proof -
  have "256 * k mod 128 = 0" by presburger
  then show "WIFEXITED (256 * k)" "\<not> WIFSIGNALED (256 * k)"
    by (simp_all add: WIFEXITED_def WIFSIGNALED_def WTERMSIG_def)
  show "WEXITSTATUS (256 * k) = k" using assms by (simp add: WEXITSTATUS_def)
qed

lemma signaled_status:
  assumes "0 < g" "g < 127" "core \<in> {0, 128}"
  shows "WIFSIGNALED (g + core)" "WTERMSIG (g + core) = g"
proof -
  have "(g + core) mod 128 = g" using assms by (auto simp: mod_pos_pos_trivial)
  then show "WIFSIGNALED (g + core)" "WTERMSIG (g + core) = g"
    using assms by (simp_all add: WIFSIGNALED_def WTERMSIG_def)
qed

text \<open>
  C34. What the client is told when the helper fails without a word: a death by signal names the
  signal, an exit with the reserved status 2 says that the channel to the copy was lost, any
  other exit names its status, and a helper that could not be waited for says why. The query is
  always in the context, and the error class is the same.
\<close>

theorem report_by_status:
  assumes "helper_error env (h_err_buf h) = None"
  shows "errcode (helper_report env what h) = ERRCODE_EXTERNAL_ROUTINE_EXCEPTION
    \<and> errcontext (helper_report env what h) = Some (''query: '' @ h_query h)
    \<and> (\<forall>g core. h_status h = g + core \<and> 0 < g \<and> g < 127 \<and> core \<in> {0, 128} \<longrightarrow>
        errmsg (helper_report env what h) = ''chdb: chDB was terminated by signal '' @ dec_int g
        \<and> errdetail (helper_report env what h) = Some ''chDB produced no message.'')
    \<and> (\<forall>k. h_status h = 256 * k \<and> 0 \<le> k \<and> k < 256 \<longrightarrow>
        errmsg (helper_report env what h) = ''chdb: '' @ what
        \<and> errdetail (helper_report env what h) = Some (if k = 2 then ''chDB lost the channel to the copy.''
            else ''chDB exited with status '' @ dec_int k @ ''.''))
    \<and> (\<forall>e. h_status h = -1 \<and> h_wait_errno h = Some e \<longrightarrow>
        errdetail (helper_report env what h) =
          Some (''chDB (pid '' @ dec_int (h_pid h) @ '') could not be waited for: '' @ strerror env e @ ''.''))"
proof (intro conjI allI impI; (elim conjE)?)
  fix g core
  assume "h_status h = g + core" "0 < g" "g < 127" "core \<in> {0, 128}"
  with signaled_status [of g core] assms
  show "errmsg (helper_report env what h) = ''chdb: chDB was terminated by signal '' @ dec_int g"
    "errdetail (helper_report env what h) = Some ''chDB produced no message.''"
    by (auto simp: helper_report_def Let_def)
next
  fix k
  assume "h_status h = 256 * k" "0 \<le> k" "k < 256"
  with exited_status [of k] assms
  show "errmsg (helper_report env what h) = ''chdb: '' @ what"
    "errdetail (helper_report env what h) = Some (if k = 2 then ''chDB lost the channel to the copy.''
       else ''chDB exited with status '' @ dec_int k @ ''.'')"
    by (simp_all add: helper_report_def Let_def helper_end_def CHDB_HELPER_LOST_BACKEND_def)
qed (use assms in \<open>simp_all add: helper_report_def Let_def helper_end_def\<close>)

definition silent_helper :: chdbHelper where
  "silent_helper = (new_helper ''SELECT 1'')\<lparr>h_status := 9, h_reaped := True, h_pid := 77\<rparr>"

definition plain_env :: helper_env where
  "plain_env = \<lparr>mbcliplen = length, strerror = (\<lambda>_. ''error''), pkglib = ''/usr/lib'',
     session_timezone = ''UTC'', byte_order = Little, fd_limit = 64\<rparr>"

lemma dec_int_9: "dec_int 9 = ''9''"
proof -
  have "digit_char 9 = CHR ''9''" by code_simp
  then show ?thesis by (simp add: dec_int_def dec.simps)
qed

theorem report_by_status_witness:
  "helper_error plain_env (h_err_buf silent_helper) = None
   \<and> errmsg (helper_report plain_env ''error'' silent_helper) = ''chdb: chDB was terminated by signal 9''"
proof -
  have n: "helper_error plain_env (h_err_buf silent_helper) = None"
    by (simp add: helper_error_def Let_def silent_helper_def new_helper_def strip_newlines.simps)
  have "h_status silent_helper = 9" by (simp add: silent_helper_def)
  with report_by_status [OF n, of "''error''"] n show ?thesis by (force simp: dec_int_9)
qed

section \<open>The error text\<close>

lemma strip_newlines_keep: "s = [] \<or> last s \<notin> {newline, carriage_return} \<Longrightarrow> strip_newlines s = s"
  by (subst strip_newlines.simps) auto

lemma strip_newlines_snoc: "strip_newlines (s @ [newline]) = strip_newlines s"
  by (subst strip_newlines.simps) simp

lemma strip_newlines_end: "strip_newlines s = [] \<or> last (strip_newlines s) \<notin> {newline, carriage_return}"
  by (induction s rule: strip_newlines.induct) (subst (1 2) strip_newlines.simps, simp)

lemma cstr_id: "CHR 0x00 \<notin> set s \<Longrightarrow> cstr s = s"
  by (simp add: cstr_def takeWhile_eq_all_conv) (metis)

lemma remove_span_none: "strstr s needle = None \<Longrightarrow> remove_span needle stop s = s"
  by (simp add: remove_span_def)

lemma strstr_absent: "c \<notin> set s \<Longrightarrow> c \<in> set n \<Longrightarrow> strstr s n = None"
  by (induction s) (auto dest!: set_mono_prefix)

text \<open>The second character of the needle cannot occur earlier, so neither can the needle.\<close>

lemma strstr_append2:
  assumes "c \<noteq> d" "d \<notin> set a"
  shows "strstr (a @ (c # d # n) @ b) (c # d # n) = Some (length a)"
  using assms(2)
proof (induction a)
  case (Cons x xs)
  have "\<not> prefix (c # d # n) ((x # xs) @ (c # d # n) @ b)"
    using Cons.prems assms(1) by (cases xs) auto
  with Cons show ?case by simp
qed simp

text \<open>A span is removed up to its closing character; one that is not closed stays.\<close>

lemma remove_span_closed:
  assumes "strstr (a @ n @ mid @ stop # b) n = Some (length a)" "stop \<notin> set (n @ mid)"
  shows "remove_span n stop (a @ n @ mid @ stop # b) = a @ b"
proof -
  have "strchr (n @ mid @ stop # b) stop = Some (length (n @ mid))"
    using strchr_append [of stop "n @ mid" b] assms(2) by simp
  then show ?thesis by (simp add: remove_span_def assms(1))
qed

lemma remove_span_open:
  assumes "strstr (a @ n @ mid) n = Some (length a)" "stop \<notin> set (n @ mid)"
  shows "remove_span n stop (a @ n @ mid) = a @ n @ mid"
proof -
  have "strchr (n @ mid) stop = None" using assms(2) by (simp add: strchr_None)
  then show ?thesis by (simp add: remove_span_def assms(1))
qed

text \<open>
  The text shown to the client is the helper's own, less the first \<open>Request ID:\<close> line and the
  first \<open>(version ...)\<close> note: for a message that has both, what was before, between and after them
  is shown unchanged and in order.
\<close>

theorem helper_error_edited:
  fixes a i b v c :: string
  defines "msg \<equiv> a @ ''Request ID:'' @ i @ newline # b @ '' (version '' @ v @ CHR '')'' # c"
  assumes "CHR ''R'' \<notin> set a" and "newline \<notin> set i" and "CHR ''('' \<notin> set (a @ b)" and "CHR '')'' \<notin> set v"
    and "CHR 0x00 \<notin> set msg" and "last msg \<notin> {newline, carriage_return}" and "mbcliplen env msg = length msg"
  shows "helper_error env msg = Some (a @ b @ c)"
proof -
  have s: "strip_newlines msg = msg" using assms(7) by (intro strip_newlines_keep) simp
  have 1: "remove_span ''Request ID:'' newline msg = a @ b @ '' (version '' @ v @ CHR '')'' # c"
    unfolding msg_def
    by (rule remove_span_closed, rule strstr_append) (use assms(2,3) in simp_all)
  have 2: "remove_span '' (version '' (CHR '')'') ((a @ b) @ '' (version '' @ v @ CHR '')'' # c) = (a @ b) @ c"
    by (rule remove_span_closed, rule strstr_append2) (use assms(4,5) in simp_all)
  have "msg \<noteq> []" by (simp add: msg_def)
  with s assms(6,8) 1 2 show ?thesis by (simp add: helper_error_def Let_def cstr_id)
qed

theorem helper_error_edited_witness:
  "helper_error plain_env (''E1 '' @ ''Request ID:'' @ '' 7'' @ newline # ''bad'' @ '' (version '' @ ''25'' @ CHR '')'' # ''.'')
   = Some (''E1 '' @ ''bad'' @ ''.'')"
  by (rule helper_error_edited) (simp_all add: plain_env_def)

text \<open>
  A \<open>Request ID:\<close> line that ends the message is not removed: the trailing newline is
  stripped first, and the search for the end of the line then finds nothing.
\<close>

theorem helper_error_final_request_id:
  fixes a i :: string
  assumes "CHR ''R'' \<notin> set a" and "newline \<notin> set i" and "CHR ''('' \<notin> set (a @ i)"
    and "CHR 0x00 \<notin> set (a @ i)" and "i \<noteq> []" and "last i \<noteq> carriage_return"
    and "mbcliplen env (a @ ''Request ID:'' @ i) = length (a @ ''Request ID:'' @ i)"
  shows "helper_error env (a @ ''Request ID:'' @ i @ [newline]) = Some (a @ ''Request ID:'' @ i)"
proof -
  let ?m = "a @ ''Request ID:'' @ i"
  have "strip_newlines (?m @ [newline]) = strip_newlines ?m" by (rule strip_newlines_snoc)
  also have "\<dots> = ?m"
  proof (rule strip_newlines_keep)
    have "last i \<noteq> newline" using assms(2) last_in_set [OF assms(5)] by metis
    then show "?m = [] \<or> last ?m \<notin> {newline, carriage_return}" using assms(5,6) by simp
  qed
  finally have s: "strip_newlines (a @ ''Request ID:'' @ i @ [newline]) = ?m" by simp
  have 1: "remove_span ''Request ID:'' newline ?m = ?m"
    by (rule remove_span_open, rule strstr_append) (use assms(1,2) in simp_all)
  have 2: "remove_span '' (version '' (CHR '')'') ?m = ?m"
    by (rule remove_span_none, rule strstr_absent [of "CHR ''(''"]) (use assms(3) in simp_all)
  have 3: "cstr ?m = ?m" using assms(4) by (intro cstr_id) simp
  show ?thesis
    by (simp only: helper_error_def Let_def s assms(7) take_all order_refl 3 1 2) simp
qed

theorem helper_error_final_request_id_witness:
  "helper_error plain_env (''E1 '' @ ''Request ID:'' @ '' 7'' @ [newline]) = Some (''E1 '' @ ''Request ID:'' @ '' 7'')"
  by (rule helper_error_final_request_id) (simp_all add: plain_env_def)

end
