(* ===== verification/Stream_Reads.thy ===== *)
theory Stream_Reads
  imports Helper_Streams
begin

text \<open>
  How the Native decoder reads the helper's output: the callbacks \<open>source_read\<close> and \<open>source_cancelled\<close>
  of \<open>src/native.c\<close>, a refill of the decoder's input buffer, and what a sequence of refills amounts
  to. The lengths are the decoder's own choice.
\<close>

section \<open>Refills\<close>

definition source_read :: "helper_env \<Rightarrow> nat \<Rightarrow> backend \<Rightarrow> (string, backend) outcome" where
  "source_read env len s = chdb_helper_recv env len s"

definition source_cancelled :: "backend \<Rightarrow> (int, backend) outcome" where
  "source_cancelled s = bindO (check_for_interrupts s) (\<lambda>_ s. Return 0 s)"

text \<open>The decoder checks for a cancel before it refills, and takes an empty read as the end.\<close>

definition refill :: "helper_env \<Rightarrow> nat \<Rightarrow> backend \<Rightarrow> (string, backend) outcome" where
  "refill env len s = bindO (source_cancelled s) (\<lambda>_ s. source_read env len s)"

fun refills :: "helper_env \<Rightarrow> nat list \<Rightarrow> backend \<Rightarrow> (string \<times> bool, backend) outcome" where
  "refills env [] s = Return ([], False) s"
| "refills env (len # lens) s =
     bindO (refill env len s) (\<lambda>bs s.
       if bs = [] then Return ([], True) s
       else bindO (refills env lens s) (\<lambda>(rest, ended) s. Return (bs @ rest, ended) s))"

section \<open>The verdict that is still to come\<close>

text \<open>The wait status the helper has or will have.\<close>

definition status_due :: "int \<Rightarrow> backend \<Rightarrow> bool" where
  "status_due st s \<longleftrightarrow>
     (if h_reaped (hp s) then h_status (hp s) = st else \<exists>w es. waitpid_loop (wait_ev s) = Some ((st, w), es))"

interpretation due: helper_invariant "status_due st" for st
proof
  show "status_due st s \<Longrightarrow> leaves (status_due st) (reap s)" for s
    by (auto simp: status_due_def reap_def split: if_splits option.splits)
  show "status_due st s \<Longrightarrow> status_due st (channel_accept ch ws bs s)" for s ch ws bs
    by (cases ch) (simp_all add: channel_accept_def status_due_def)
qed (simp_all add: status_due_def close_err_def close_data_def close_setup_def keep_err_def)

lemma refill_Return:
  assumes "refill env len s = Return bs t" "0 < len"
  obtains r where "chdb_helper_recv env len (s\<lparr>intr := r\<rparr>) = Return bs t"
  using assms by (auto simp: refill_def source_cancelled_def source_read_def bindO_eq_Return dest!: check_for_interrupts_Return)

lemma refills_stream:
  "refills env lens s = Return (bs, ended) t \<Longrightarrow> list_all ((<) 0) lens
     \<Longrightarrow> prefix bs (stream_bytes (data_ev s)) \<and> (ended \<longrightarrow> bs = stream_bytes (data_ev s)
           \<and> h_reaped (hp t) \<and> h_status (hp t) = 0) \<and> (status_due st s \<longrightarrow> status_due st t)"
proof (induction env lens s arbitrary: bs rule: refills.induct)
  case (2 env len lens s)
  obtain b s1 where b: "refill env len s = Return b s1"
    "(if b = [] then Return ([], True) s1
      else bindO (refills env lens s1) (\<lambda>(rest, ended) s. Return (b @ rest, ended) s)) = Return (bs, ended) t"
    using "2.prems"(1) by (auto simp: bindO_eq_Return)
  obtain r where r: "chdb_helper_recv env len (s\<lparr>intr := r\<rparr>) = Return b s1"
    using refill_Return [OF b(1)] "2.prems"(2) by auto
  have v: "if b = [] then stream_bytes (data_ev s) = [] \<and> h_reaped (hp s1) \<and> h_status (hp s1) = 0
      else stream_bytes (data_ev s) = b @ stream_bytes (data_ev s1) \<and> length b \<le> len"
    using recv_Return [OF r] "2.prems"(2) by (simp split: if_splits)
  have d: "status_due st s \<Longrightarrow> status_due st s1"
    using leavesD(1) [OF due.recv_keeps r, of st] by (simp add: status_due_def)
  show ?case
  proof (cases "b = []")
    case True
    with b(2) v d show ?thesis by auto
  next
    case False
    then obtain rest where k: "refills env lens s1 = Return (rest, ended) t" "bs = b @ rest"
      using b(2) by (auto simp: bindO_eq_Return)
    from "2.IH" [OF False k(1)] "2.prems"(2) v False k(2) d show ?thesis by auto
  qed
qed simp

end
