(* ===== verification/Backend_Steps.thy ===== *)
theory Backend_Steps
  imports Stream_Reads
begin

text \<open>
  The operations of \<open>src/helper.c\<close> one system call at a time. A configuration is a control point in the
  loops of \<open>write_all\<close>, \<open>drain_err\<close>, \<open>drain_and_reap\<close>, \<open>reap\<close> and \<open>chdb_helper_recv\<close>, the operations the
  COPY code has still to call, the bytes received and the backend's own state; \<open>bnext\<close> is what
  the answer to one system call makes of it. The script model of \<open>Helper_Process\<close> is what these steps
  add up to (\<open>steps_are_operations\<close>): the two are the same program, once as functions of all the answers
  and once as a machine that another process can be interleaved with.
\<close>

section \<open>Programs of operations\<close>

text \<open>
  What the COPY code does with a started helper: it writes blocks and finishes, or receives until
  the end of the stream.
\<close>

datatype op = OpWrite string | OpFinish | OpRecv nat

fun run_ops :: "helper_env \<Rightarrow> op list \<Rightarrow> string \<Rightarrow> backend \<Rightarrow> (string, backend) outcome" where
  "run_ops env [] got s = Return got s"
| "run_ops env (OpWrite bs # ops) got s = bindO (chdb_helper_write env bs s) (\<lambda>_. run_ops env ops got)"
| "run_ops env (OpFinish # ops) got s = bindO (chdb_helper_finish env s) (\<lambda>_. run_ops env ops got)"
| "run_ops env (OpRecv len # ops) got s =
     bindO (chdb_helper_recv env len s) (\<lambda>bs s. if bs = [] then Return got s else run_ops env ops (got @ bs) s)"

text \<open>The part of \<open>chdb_helper_start\<close> after the fork, then the operations.\<close>

definition run_helper :: "helper_env \<Rightarrow> string \<Rightarrow> op list \<Rightarrow> backend \<Rightarrow> (string, backend) outcome" where
  "run_helper env payload ops s = bindO (write_setup env payload s) (\<lambda>_. run_ops env ops [])"

lemma run_ops_writes:
  "run_ops env (map OpWrite bss @ ops) got s = bindO (each (chdb_helper_write env) bss s) (\<lambda>_. run_ops env ops got)"
proof (induction bss arbitrary: s)
  case (Cons b bss)
  then show ?case by (cases "chdb_helper_write env b s") simp_all
qed simp

section \<open>Control points\<close>

text \<open>Why \<open>drain_and_reap\<close> was called.\<close>

datatype cause = Finishing | EndOfStream | Reporting string

text \<open>
  \<open>Next\<close> is between two operations. \<open>W_check\<close>, \<open>W_write\<close> and \<open>W_drain\<close> are the head of the loop of
  \<open>write_all\<close> with its remaining bytes, the \<open>write\<close> and the \<open>drain_err\<close> after a full channel; \<open>R_\<close> the same in
  \<open>chdb_helper_recv\<close>; \<open>E_check\<close>, \<open>E_drain\<close> and \<open>E_reap\<close> the loop of \<open>drain_and_reap\<close> and the \<open>waitpid\<close>.
\<close>

datatype point =
    Next
  | W_check channel string | W_write channel string | W_drain channel string
  | R_check nat | R_read nat | R_drain nat
  | E_check cause | E_drain cause | E_reap cause
  | Returned | Raised pg_error

record bconf =
  bc_point :: point
  bc_ops :: "op list"
  bc_got :: string
  bc_be :: backend

text \<open>The answer a step takes: nothing, an interrupt check, or one system call's.\<close>

datatype answer =
  Tau | Intr bool | WriteAns channel write_event | DataAns read_event | ErrAns read_event | WaitAns wait_event

definition query_canceled :: pg_error where
  "query_canceled = ereport ERRCODE_QUERY_CANCELED ''canceling statement due to user request''"

section \<open>One step\<close>

text \<open>\<open>CHECK_FOR_INTERRUPTS()\<close> at the head of a loop.\<close>

definition check_step :: "point \<Rightarrow> answer \<Rightarrow> bconf \<Rightarrow> bconf option" where
  "check_step p a c =
     (case a of
        Intr False \<Rightarrow> Some (c\<lparr>bc_point := p\<rparr>)
      | Intr True \<Rightarrow> Some (c\<lparr>bc_point := Raised query_canceled\<rparr>)
      | _ \<Rightarrow> None)"

text \<open>One round of \<open>drain_err\<close>; \<open>p\<close> is where the loop it was called from goes on.\<close>

definition drain_step :: "point \<Rightarrow> answer \<Rightarrow> bconf \<Rightarrow> bconf option" where
  "drain_step p a c =
     (if h_err (hp (bc_be c)) < 0 then (if a = Tau then Some (c\<lparr>bc_point := p\<rparr>) else None)
      else
        (case a of
           ErrAns (Data x xs) \<Rightarrow>
             if length xs < err_room (bc_be c) then Some (c\<lparr>bc_be := keep_err (x # xs) (bc_be c)\<rparr>) else None
         | ErrAns Eof \<Rightarrow> Some (c\<lparr>bc_be := close_err (bc_be c)\<rparr>)
         | ErrAns (ReadErr e) \<Rightarrow> Some (if e \<noteq> EINTR then c\<lparr>bc_point := p\<rparr> else c)
         | _ \<Rightarrow> None))"

text \<open>What \<open>write_setup\<close> and \<open>chdb_helper_write\<close> do with the result of \<open>write_all\<close>.\<close>

definition after_write :: "helper_env \<Rightarrow> channel \<Rightarrow> errno option \<Rightarrow> bconf \<Rightarrow> bconf" where
  "after_write env ch r c =
     (case (ch, r) of
        (DataChannel, None) \<Rightarrow> c\<lparr>bc_point := Next\<rparr>
      | (DataChannel, Some e) \<Rightarrow> c\<lparr>bc_point := E_check (Reporting ''error appending to chDB query'')\<rparr>
      | (SetupChannel, None) \<Rightarrow> c\<lparr>bc_point := Next, bc_be := close_setup (bc_be c)\<rparr>
      | (SetupChannel, Some e) \<Rightarrow>
          if e = EPIPE then c\<lparr>bc_point := E_check (Reporting ''could not start chDB'')\<rparr>
          else c\<lparr>bc_point := Raised (ereport errcode_for_socket_access
            (''chdb: could not send the query to chDB: '' @ strerror env e))\<rparr>)"

definition write_step :: "helper_env \<Rightarrow> channel \<Rightarrow> string \<Rightarrow> answer \<Rightarrow> bconf \<Rightarrow> bconf option" where
  "write_step env ch bs a c =
     (if channel_fd ch (bc_be c) < 0 then (if a = Tau then Some (after_write env ch (Some EBADF) c) else None)
      else
        (case a of
           WriteAns ch' (Accept n) \<Rightarrow>
             if ch' = ch then Some (c\<lparr>bc_point := W_check ch (drop (min (Suc n) (length bs)) bs),
               bc_be := channel_accept ch (channel_wr ch (bc_be c)) (take (min (Suc n) (length bs)) bs) (bc_be c)\<rparr>)
             else None
         | WriteAns ch' (WriteErr e) \<Rightarrow>
             if ch' = ch then
               Some (if e = EAGAIN \<or> e = EWOULDBLOCK then c\<lparr>bc_point := W_drain ch bs\<rparr>
                     else if e \<noteq> EINTR then after_write env ch (Some e) c
                     else c\<lparr>bc_point := W_check ch bs\<rparr>)
             else None
         | _ \<Rightarrow> None))"

definition read_step :: "nat \<Rightarrow> answer \<Rightarrow> bconf \<Rightarrow> bconf option" where
  "read_step len a c =
     (let lost = c\<lparr>bc_point := E_check (Reporting ''error fetching chDB query result'')\<rparr>
      in if h_data (hp (bc_be c)) < 0 then (if a = Tau then Some lost else None)
         else
           (case a of
              DataAns (Data x xs) \<Rightarrow>
                if length xs < len then Some (c\<lparr>bc_point := Next, bc_got := bc_got c @ x # xs\<rparr>) else None
            | DataAns Eof \<Rightarrow> Some (c\<lparr>bc_point := E_check EndOfStream, bc_be := close_data (bc_be c)\<rparr>)
            | DataAns (ReadErr e) \<Rightarrow>
                Some (if e = EAGAIN \<or> e = EWOULDBLOCK then c\<lparr>bc_point := R_drain len\<rparr>
                      else if e \<noteq> EINTR then lost
                      else c\<lparr>bc_point := R_check len\<rparr>)
            | _ \<Rightarrow> None))"

text \<open>What the callers of \<open>drain_and_reap\<close> do with the status.\<close>

definition after_end :: "helper_env \<Rightarrow> cause \<Rightarrow> int \<Rightarrow> bconf \<Rightarrow> bconf" where
  "after_end env why status c =
     (case why of
        Finishing \<Rightarrow>
          if status \<noteq> 0 then c\<lparr>bc_point := E_check (Reporting ''error finishing chDB query'')\<rparr>
          else c\<lparr>bc_point := Next\<rparr>
      | EndOfStream \<Rightarrow>
          if status \<noteq> 0 then c\<lparr>bc_point := E_check (Reporting ''error executing chDB query'')\<rparr>
          else c\<lparr>bc_point := Returned\<rparr>
      | Reporting what \<Rightarrow> c\<lparr>bc_point := Raised (helper_report env what (hp (bc_be c)))\<rparr>)"

text \<open>The state after a \<open>waitpid\<close> that is not repeated.\<close>

definition reaped_with :: "int \<Rightarrow> errno option \<Rightarrow> backend \<Rightarrow> backend" where
  "reaped_with st e s =
     s\<lparr>calls := calls s @ [Waited (h_pid (hp s))],
       hp := (hp s)\<lparr>h_status := st, h_reaped := True,
         h_wait_errno := (case e of None \<Rightarrow> h_wait_errno (hp s) | Some e' \<Rightarrow> Some e')\<rparr>\<rparr>"

definition reap_step :: "helper_env \<Rightarrow> cause \<Rightarrow> answer \<Rightarrow> bconf \<Rightarrow> bconf option" where
  "reap_step env why a c =
     (if h_reaped (hp (bc_be c)) then
        (if a = Tau then Some (after_end env why (h_status (hp (bc_be c))) c) else None)
      else
        (case a of
           WaitAns (Ended st) \<Rightarrow> Some (after_end env why st (c\<lparr>bc_be := reaped_with st None (bc_be c)\<rparr>))
         | WaitAns (WaitErr e) \<Rightarrow>
             Some (if e = EINTR then c else after_end env why (-1) (c\<lparr>bc_be := reaped_with (-1) (Some e) (bc_be c)\<rparr>))
         | _ \<Rightarrow> None))"

text \<open>The next operation is called: \<open>chdb_helper_finish\<close> closes the data channel first.\<close>

definition call_step :: "bconf \<Rightarrow> bconf" where
  "call_step c =
     (case bc_ops c of
        [] \<Rightarrow> c\<lparr>bc_point := Returned\<rparr>
      | OpWrite bs # ops \<Rightarrow> c\<lparr>bc_point := W_check DataChannel bs, bc_ops := ops\<rparr>
      | OpFinish # ops \<Rightarrow> c\<lparr>bc_point := E_check Finishing, bc_ops := ops, bc_be := close_data (bc_be c)\<rparr>
      | OpRecv len # ops \<Rightarrow> c\<lparr>bc_point := R_check len, bc_ops := ops\<rparr>)"

definition bnext :: "helper_env \<Rightarrow> answer \<Rightarrow> bconf \<Rightarrow> bconf option" where
  "bnext env a c =
     (case bc_point c of
        Next \<Rightarrow> if a = Tau then Some (call_step c) else None
      | W_check ch bs \<Rightarrow>
          if bs = [] then (if a = Tau then Some (after_write env ch None c) else None)
          else check_step (W_write ch bs) a c
      | W_write ch bs \<Rightarrow> write_step env ch bs a c
      | W_drain ch bs \<Rightarrow> drain_step (W_check ch bs) a c
      | R_check len \<Rightarrow> check_step (R_read len) a c
      | R_read len \<Rightarrow> read_step len a c
      | R_drain len \<Rightarrow> drain_step (R_check len) a c
      | E_check why \<Rightarrow>
          if h_err (hp (bc_be c)) < 0 then (if a = Tau then Some (c\<lparr>bc_point := E_reap why\<rparr>) else None)
          else check_step (E_drain why) a c
      | E_drain why \<Rightarrow> drain_step (E_check why) a c
      | E_reap why \<Rightarrow> reap_step env why a c
      | Returned \<Rightarrow> None
      | Raised e \<Rightarrow> None)"

text \<open>The start: the helper has been forked and its payload is to be written.\<close>

definition bstart :: "string \<Rightarrow> op list \<Rightarrow> backend \<Rightarrow> bconf" where
  "bstart payload ops s = \<lparr>bc_point = W_check SetupChannel payload, bc_ops = ops, bc_got = [], bc_be = s\<rparr>"

fun brun :: "helper_env \<Rightarrow> answer list \<Rightarrow> bconf \<Rightarrow> bconf option" where
  "brun env [] c = Some c"
| "brun env (a # as) c = (case bnext env a c of None \<Rightarrow> None | Some c' \<Rightarrow> brun env as c')"

lemmas step_defs = bnext_def call_step_def check_step_def drain_step_def write_step_def read_step_def
  reap_step_def after_write_def after_end_def

section \<open>What a configuration still has to do\<close>

text \<open>The rest of the operations, as functions of the answers to come.\<close>

definition written :: "helper_env \<Rightarrow> channel \<Rightarrow> bconf \<Rightarrow> errno option \<Rightarrow> backend \<Rightarrow> (string, backend) outcome" where
  "written env ch c r t =
     (case (ch, r) of
        (DataChannel, None) \<Rightarrow> run_ops env (bc_ops c) (bc_got c) t
      | (DataChannel, Some e) \<Rightarrow> report_helper env ''error appending to chDB query'' t
      | (SetupChannel, None) \<Rightarrow> run_ops env (bc_ops c) (bc_got c) (close_setup t)
      | (SetupChannel, Some e) \<Rightarrow>
          if e = EPIPE then report_helper env ''could not start chDB'' t
          else Raise (ereport errcode_for_socket_access
            (''chdb: could not send the query to chDB: '' @ strerror env e)) t)"

definition received :: "helper_env \<Rightarrow> bconf \<Rightarrow> string \<Rightarrow> backend \<Rightarrow> (string, backend) outcome" where
  "received env c bs t = (if bs = [] then Return (bc_got c) t else run_ops env (bc_ops c) (bc_got c @ bs) t)"

definition ended_rest :: "helper_env \<Rightarrow> cause \<Rightarrow> bconf \<Rightarrow> int \<Rightarrow> backend \<Rightarrow> (string, backend) outcome" where
  "ended_rest env why c st t =
     (case why of
        Finishing \<Rightarrow> if st \<noteq> 0 then report_helper env ''error finishing chDB query'' t
          else run_ops env (bc_ops c) (bc_got c) t
      | EndOfStream \<Rightarrow> if st \<noteq> 0 then report_helper env ''error executing chDB query'' t
          else Return (bc_got c) t
      | Reporting what \<Rightarrow> Raise (helper_report env what (hp t)) t)"

definition resume :: "helper_env \<Rightarrow> bconf \<Rightarrow> backend \<Rightarrow> (string, backend) outcome" where
  "resume env c s =
     (case bc_point c of
        Next \<Rightarrow> run_ops env (bc_ops c) (bc_got c) s
      | W_check ch bs \<Rightarrow> bindO (write_all ch bs s) (written env ch c)
      | W_write ch bs \<Rightarrow> bindO (write_all ch bs (s\<lparr>intr := False # intr s\<rparr>)) (written env ch c)
      | W_drain ch bs \<Rightarrow> bindO (drain_err s) (\<lambda>_ t. bindO (write_all ch bs t) (written env ch c))
      | R_check len \<Rightarrow> bindO (chdb_helper_recv env len s) (received env c)
      | R_read len \<Rightarrow> bindO (chdb_helper_recv env len (s\<lparr>intr := False # intr s\<rparr>)) (received env c)
      | R_drain len \<Rightarrow> bindO (drain_err s) (\<lambda>_ t. bindO (chdb_helper_recv env len t) (received env c))
      | E_check why \<Rightarrow> bindO (drain_and_reap s) (ended_rest env why c)
      | E_drain why \<Rightarrow> bindO (drain_err s) (\<lambda>_ t. bindO (drain_and_reap t) (ended_rest env why c))
      | E_reap why \<Rightarrow> bindO (reap s) (ended_rest env why c)
      | Returned \<Rightarrow> Return (bc_got c) s
      | Raised e \<Rightarrow> Raise e s)"

text \<open>Answers to come, one script per channel, and putting an answer in front.\<close>

record scripts =
  sc_err :: "read_event list"
  sc_data :: "read_event list"
  sc_data_wr :: "write_event list"
  sc_setup_wr :: "write_event list"
  sc_wait :: "wait_event list"
  sc_intr :: "bool list"

definition load :: "scripts \<Rightarrow> backend \<Rightarrow> backend" where
  "load f s = s\<lparr>err_ev := sc_err f, data_ev := sc_data f, data_wr := sc_data_wr f, setup_wr := sc_setup_wr f,
     wait_ev := sc_wait f, intr := sc_intr f\<rparr>"

fun push :: "answer \<Rightarrow> scripts \<Rightarrow> scripts" where
  "push Tau f = f"
| "push (Intr b) f = f\<lparr>sc_intr := b # sc_intr f\<rparr>"
| "push (WriteAns DataChannel e) f = f\<lparr>sc_data_wr := e # sc_data_wr f\<rparr>"
| "push (WriteAns SetupChannel e) f = f\<lparr>sc_setup_wr := e # sc_setup_wr f\<rparr>"
| "push (DataAns e) f = f\<lparr>sc_data := e # sc_data f\<rparr>"
| "push (ErrAns e) f = f\<lparr>sc_err := e # sc_err f\<rparr>"
| "push (WaitAns e) f = f\<lparr>sc_wait := e # sc_wait f\<rparr>"

text \<open>An end of stream stays in the channel.\<close>

definition left :: "answer \<Rightarrow> scripts \<Rightarrow> scripts" where
  "left a f = (if a = DataAns Eof \<or> a = ErrAns Eof then push a f else f)"

section \<open>One step is one answer\<close>

lemma bindO_assoc: "bindO (bindO m f) g = bindO m (\<lambda>x s. bindO (f x s) g)"
  by (cases m) simp_all

lemma bindO_report_helper [simp]: "bindO (report_helper env what s) f = report_helper env what s"
  by (simp add: report_helper_def bindO_assoc)

lemma ended_reporting [simp]: "bindO (drain_and_reap s) (ended_rest env (Reporting what) c) = report_helper env what s"
  by (simp add: report_helper_def ended_rest_def [abs_def])

lemma load_sel [simp]:
  "err_ev (load f s) = sc_err f" "data_ev (load f s) = sc_data f" "data_wr (load f s) = sc_data_wr f"
  "setup_wr (load f s) = sc_setup_wr f" "wait_ev (load f s) = sc_wait f" "intr (load f s) = sc_intr f"
  "hp (load f s) = hp s" "fds (load f s) = fds s" "calls (load f s) = calls s"
  "channel_fd ch (load f s) = channel_fd ch s" "err_room (load f s) = err_room s"
  by (cases ch; simp add: load_def channel_fd_def err_room_def)+

lemma load_ops [simp]:
  "close_err (load f s) = load f (close_err s)" "close_data (load f s) = load f (close_data s)"
  "close_setup (load f s) = load f (close_setup s)" "keep_err bs (load f s) = load f (keep_err bs s)"
  by (simp_all add: load_def close_err_def close_data_def close_setup_def keep_err_def)

lemma load_upd [simp]:
  "(load f s)\<lparr>err_ev := es\<rparr> = load (f\<lparr>sc_err := es\<rparr>) s" "(load f s)\<lparr>data_ev := es\<rparr> = load (f\<lparr>sc_data := es\<rparr>) s"
  "(load f s)\<lparr>intr := bs\<rparr> = load (f\<lparr>sc_intr := bs\<rparr>) s"
  by (simp_all add: load_def)

lemma load_id [simp]:
  "f\<lparr>sc_err := sc_err f\<rparr> = f" "f\<lparr>sc_data := sc_data f\<rparr> = f" "f\<lparr>sc_intr := sc_intr f\<rparr> = f"
  by simp_all

lemma check_load [simp]:
  "sc_intr f = False # r \<Longrightarrow> check_for_interrupts (load f s) = Return () (load (f\<lparr>sc_intr := r\<rparr>) s)"
  "sc_intr f = True # r \<Longrightarrow> check_for_interrupts (load f s) = Raise query_canceled (load (f\<lparr>sc_intr := r\<rparr>) s)"
  by (simp_all add: check_for_interrupts_def query_canceled_def)

lemma resume_check:
  assumes "check_step p a c = Some c'"
    and "\<And>f. resume env c (load (f\<lparr>sc_intr := False # sc_intr f\<rparr>) (bc_be c)) = resume env (c\<lparr>bc_point := p\<rparr>) (load f (bc_be c))"
    and "\<And>f. resume env c (load (f\<lparr>sc_intr := True # sc_intr f\<rparr>) (bc_be c)) = Raise query_canceled (load f (bc_be c))"
  shows "resume env c (load (push a f) (bc_be c)) = resume env c' (load (left a f) (bc_be c'))"
  using assms by (auto simp: check_step_def left_def resume_def [of env "c\<lparr>bc_point := Raised query_canceled\<rparr>"]
      split: answer.splits bool.splits)

text \<open>Draining, wherever it was called from.\<close>

lemma resume_drain:
  assumes "drain_step p a c = Some c'"
    and "\<And>s c'. bc_point c' = bc_point c \<Longrightarrow> bc_ops c' = bc_ops c \<Longrightarrow> bc_got c' = bc_got c
      \<Longrightarrow> resume env c' s = bindO (drain_err s) (\<lambda>_. rest)"
    and "\<And>s. resume env (c\<lparr>bc_point := p\<rparr>) s = rest s"
  shows "resume env c (load (push a f) (bc_be c)) = resume env c' (load (left a f) (bc_be c'))"
proof (cases "h_err (hp (bc_be c)) < 0")
  case True
  then have "a = Tau" "c' = c\<lparr>bc_point := p\<rparr>" using assms(1) by (auto simp: drain_step_def split: if_splits)
  then show ?thesis using True assms(2) [of c] assms(3) by (simp add: drain_err.simps left_def)
next
  case False
  then obtain e where e: "a = ErrAns e" using assms(1) by (auto simp: drain_step_def split: answer.splits)
  note d = assms(1) [unfolded drain_step_def, simplified False e, simplified]
  show ?thesis
  proof (cases e)
    case (Data x xs)
    with d have c': "length xs < err_room (bc_be c)" "c' = c\<lparr>bc_be := keep_err (x # xs) (bc_be c)\<rparr>"
      by (auto split: if_splits)
    with False Data show ?thesis
      by (simp add: assms(2) e left_def drain_err.simps [of "load (f\<lparr>sc_err := Data x xs # sc_err f\<rparr>) (bc_be c)"])
  next
    case Eof
    with d have "c' = c\<lparr>bc_be := close_err (bc_be c)\<rparr>" by simp
    with Eof False show ?thesis
      by (simp add: assms(2) e left_def drain_err.simps [of "load (f\<lparr>sc_err := Eof # sc_err f\<rparr>) (bc_be c)"])
  next
    case (ReadErr r)
    with d have "c' = (if r \<noteq> EINTR then c\<lparr>bc_point := p\<rparr> else c)" by simp
    with ReadErr False show ?thesis
      by (simp add: assms(2,3) e left_def drain_err.simps [of "load (f\<lparr>sc_err := ReadErr r # sc_err f\<rparr>) (bc_be c)"])
  qed
qed

lemma rest_cong:
  assumes "bc_ops c = bc_ops d" "bc_got c = bc_got d"
  shows "written env ch c = written env ch d" "received env c = received env d" "ended_rest env why c = ended_rest env why d"
  using assms by (intro ext; simp add: written_def received_def ended_rest_def split: channel.split option.split cause.split)+

lemma rest_upd [simp]:
  "written env ch (c\<lparr>bc_point := p\<rparr>) = written env ch c" "written env ch (c\<lparr>bc_be := b\<rparr>) = written env ch c"
  "received env (c\<lparr>bc_point := p\<rparr>) = received env c" "received env (c\<lparr>bc_be := b\<rparr>) = received env c"
  "ended_rest env why (c\<lparr>bc_point := p\<rparr>) = ended_rest env why c" "ended_rest env why (c\<lparr>bc_be := b\<rparr>) = ended_rest env why c"
  by (rule rest_cong; simp)+

lemma resume_sel:
  "resume env (c\<lparr>bc_point := Next\<rparr>) s = run_ops env (bc_ops c) (bc_got c) s"
  "resume env (c\<lparr>bc_point := W_check ch bs\<rparr>) s = bindO (write_all ch bs s) (written env ch c)"
  "resume env (c\<lparr>bc_point := R_check len\<rparr>) s = bindO (chdb_helper_recv env len s) (received env c)"
  "resume env (c\<lparr>bc_point := E_check why\<rparr>) s = bindO (drain_and_reap s) (ended_rest env why c)"
  "resume env (c\<lparr>bc_point := E_reap why\<rparr>) s = bindO (reap s) (ended_rest env why c)"
  by (simp_all add: resume_def)

lemma resume_reporting:
  "resume env (c\<lparr>bc_point := E_check (Reporting what)\<rparr>) s = report_helper env what s"
  by (simp add: resume_sel)

lemma written_after:
  "written env ch c r (load f (bc_be c)) = resume env (after_write env ch r c) (load f (bc_be (after_write env ch r c)))"
  by (cases ch; cases r) (auto simp: written_def after_write_def resume_reporting resume_def)

lemma ended_after:
  "ended_rest env why c st (load f (bc_be c)) = resume env (after_end env why st c) (load f (bc_be (after_end env why st c)))"
  by (cases why) (auto simp: ended_rest_def after_end_def resume_reporting resume_def)

lemma resume_write:
  assumes "write_step env ch bs a c = Some c'" "bc_point c = W_write ch bs" "bs \<noteq> []"
  shows "resume env c (load (push a f) (bc_be c)) = resume env c' (load (left a f) (bc_be c'))"
proof -
  have r: "resume env c (load (push a f) (bc_be c))
      = bindO (write_all ch bs (load ((push a f)\<lparr>sc_intr := False # sc_intr (push a f)\<rparr>) (bc_be c))) (written env ch c)"
    using assms(2) by (simp add: resume_def)
  note u = write_all.simps [of ch bs "load ((push a f)\<lparr>sc_intr := False # sc_intr (push a f)\<rparr>) (bc_be c)"]
  show ?thesis
  proof (cases "channel_fd ch (bc_be c) < 0")
    case True
    then have "a = Tau" "c' = after_write env ch (Some EBADF) c"
      using assms(1) by (auto simp: write_step_def split: if_splits)
    with True assms(3) show ?thesis unfolding r u by (simp add: channel_write_def left_def written_after)
  next
    case False
    then obtain e where e: "a = WriteAns ch e"
      using assms(1) by (auto simp: write_step_def split: answer.splits write_event.splits if_splits)
    have acc: "channel_accept ch (channel_wr ch (load f (bc_be c))) b (load (push a f) (bc_be c))
        = load f (channel_accept ch (channel_wr ch (bc_be c)) b (bc_be c))" for b
      by (cases ch) (simp_all add: e channel_accept_def load_def channel_wr_def)
    have wr: "channel_wr ch (load (push a f) (bc_be c)) = e # channel_wr ch (load f (bc_be c))"
      by (cases ch) (simp_all add: e channel_wr_def)
    have l: "left a f = f" by (simp add: e left_def)
    show ?thesis
    proof (cases e)
      case (Accept n)
      let ?k = "min (Suc n) (length bs)"
      have "c' = c\<lparr>bc_point := W_check ch (drop ?k bs),
          bc_be := channel_accept ch (channel_wr ch (bc_be c)) (take ?k bs) (bc_be c)\<rparr>"
        using assms(1) False e Accept by (simp add: write_step_def)
      then show ?thesis unfolding r u using False assms(3) Accept
        by (simp add: channel_write_def wr acc l resume_def)
    next
      case (WriteErr x)
      have c': "c' = (if x = EAGAIN \<or> x = EWOULDBLOCK then c\<lparr>bc_point := W_drain ch bs\<rparr>
          else if x \<noteq> EINTR then after_write env ch (Some x) c else c\<lparr>bc_point := W_check ch bs\<rparr>)"
        using assms(1) False e WriteErr by (simp add: write_step_def)
      have n: "channel_accept ch (channel_wr ch (bc_be c)) [] (bc_be c) = bc_be c"
        by (cases ch) (simp_all add: channel_accept_def channel_wr_def)
      have d: "bindO (case drain_err t of Raise e' t' \<Rightarrow> Raise e' t' | Waiting \<Rightarrow> Waiting
            | Return v t' \<Rightarrow> write_all ch bs (wait_fd (channel_fd ch t') t')) g
          = bindO (drain_err t) (\<lambda>_ t. bindO (write_all ch bs t) g)" for t g
        by (cases "drain_err t") (simp_all add: wait_fd_def)
      consider "x = EAGAIN \<or> x = EWOULDBLOCK" | "x \<noteq> EAGAIN" "x \<noteq> EWOULDBLOCK" "x \<noteq> EINTR" | "x = EINTR" by blast
      then show ?thesis unfolding r u using False assms(3) WriteErr
        by cases (simp_all add: channel_write_def wr acc l n d c' written_after resume_sel, simp add: resume_def)
    qed
  qed
qed

lemma resume_read:
  assumes "read_step len a c = Some c'" "bc_point c = R_read len" "0 < len"
  shows "resume env c (load (push a f) (bc_be c)) = resume env c' (load (left a f) (bc_be c'))"
proof -
  have r: "resume env c (load (push a f) (bc_be c))
      = bindO (chdb_helper_recv env len (load ((push a f)\<lparr>sc_intr := False # sc_intr (push a f)\<rparr>) (bc_be c))) (received env c)"
    using assms(2) by (simp add: resume_def)
  note u = chdb_helper_recv.simps [of env len "load ((push a f)\<lparr>sc_intr := False # sc_intr (push a f)\<rparr>) (bc_be c)"]
  let ?lost = "c\<lparr>bc_point := E_check (Reporting ''error fetching chDB query result'')\<rparr>"
  show ?thesis
  proof (cases "h_data (hp (bc_be c)) < 0")
    case True
    then have "a = Tau" "c' = ?lost" using assms(1) by (auto simp: read_step_def Let_def split: if_splits)
    with True show ?thesis unfolding r u by (simp add: read_data_def left_def resume_reporting)
  next
    case False
    then obtain e where e: "a = DataAns e"
      using assms(1) by (auto simp: read_step_def Let_def split: answer.splits)
    have d: "bindO (case drain_err t of Raise e' t' \<Rightarrow> Raise e' t' | Waiting \<Rightarrow> Waiting
          | Return v t' \<Rightarrow> chdb_helper_recv env len (wait_fd (h_data (hp t')) t')) g
        = bindO (drain_err t) (\<lambda>_ t. bindO (chdb_helper_recv env len t) g)" for t g
      by (cases "drain_err t") (simp_all add: wait_fd_def)
    show ?thesis
    proof (cases e)
      case (Data x xs)
      with assms(1) False e have "length xs < len" "c' = c\<lparr>bc_point := Next, bc_got := bc_got c @ x # xs\<rparr>"
        by (auto simp: read_step_def Let_def split: if_splits)
      with False e Data show ?thesis unfolding r u by (simp add: read_data_def left_def received_def resume_def)
    next
      case Eof
      with assms(1) False e have "c' = c\<lparr>bc_point := E_check EndOfStream, bc_be := close_data (bc_be c)\<rparr>"
        by (simp add: read_step_def Let_def)
      moreover have "bindO (recv_end env t) (received env c) = bindO (drain_and_reap (close_data t)) (ended_rest env EndOfStream c)" for t
        by (cases "drain_and_reap (close_data t)") (simp_all add: recv_end_def ended_rest_def received_def)
      ultimately show ?thesis unfolding r u using False e Eof by (simp add: read_data_def left_def resume_def)
    next
      case (ReadErr x)
      have c': "c' = (if x = EAGAIN \<or> x = EWOULDBLOCK then c\<lparr>bc_point := R_drain len\<rparr>
          else if x \<noteq> EINTR then ?lost else c\<lparr>bc_point := R_check len\<rparr>)"
        using assms(1) False e ReadErr by (simp add: read_step_def Let_def)
      consider "x = EAGAIN \<or> x = EWOULDBLOCK" | "x \<noteq> EAGAIN" "x \<noteq> EWOULDBLOCK" "x \<noteq> EINTR" | "x = EINTR" by blast
      then show ?thesis unfolding r u using False e ReadErr
        by cases (simp_all add: read_data_def left_def d c' resume_reporting resume_sel, simp_all add: resume_def)
    qed
  qed
qed

lemma resume_reap:
  assumes "reap_step env why a c = Some c'" "bc_point c = E_reap why"
  shows "resume env c (load (push a f) (bc_be c)) = resume env c' (load (left a f) (bc_be c'))"
proof -
  have r: "resume env c (load (push a f) (bc_be c)) = bindO (reap (load (push a f) (bc_be c))) (ended_rest env why c)"
    using assms(2) by (simp add: resume_def)
  have w: "ended_rest env why c st (load f (reaped_with st e (bc_be c)))
      = resume env (after_end env why st (c\<lparr>bc_be := reaped_with st e (bc_be c)\<rparr>))
          (load f (bc_be (after_end env why st (c\<lparr>bc_be := reaped_with st e (bc_be c)\<rparr>))))" for st e
    using ended_after [of env why "c\<lparr>bc_be := reaped_with st e (bc_be c)\<rparr>" st f] by simp
  show ?thesis
  proof (cases "h_reaped (hp (bc_be c))")
    case True
    then have "a = Tau" "c' = after_end env why (h_status (hp (bc_be c))) c"
      using assms(1) by (auto simp: reap_step_def split: if_splits)
    with True show ?thesis unfolding r by (simp add: reap_def left_def ended_after)
  next
    case False
    then obtain e where e: "a = WaitAns e" using assms(1) by (auto simp: reap_step_def split: answer.splits)
    have l: "left a f = f" by (simp add: e left_def)
    show ?thesis
    proof (cases e)
      case (Ended st)
      with assms(1) False e have c': "c' = after_end env why st (c\<lparr>bc_be := reaped_with st None (bc_be c)\<rparr>)"
        by (simp add: reap_step_def)
      have "reap (load (push a f) (bc_be c)) = Return st (load f (reaped_with st None (bc_be c)))"
        using False e Ended by (simp add: reap_def reaped_with_def load_def)
      then show ?thesis unfolding r c' l by (simp add: w)
    next
      case (WaitErr x)
      show ?thesis
      proof (cases "x = EINTR")
        case True
        with assms(1) False e WaitErr have "c' = c" by (simp add: reap_step_def)
        moreover have "reap (load (push a f) (bc_be c)) = reap (load f (bc_be c))"
          using e WaitErr True False by (simp add: reap_def load_def split: option.split)
        ultimately show ?thesis unfolding r l using assms(2) by (simp add: resume_def)
      next
        case f: False
        with assms(1) False e WaitErr
        have c': "c' = after_end env why (-1) (c\<lparr>bc_be := reaped_with (-1) (Some x) (bc_be c)\<rparr>)"
          by (simp add: reap_step_def)
        have "reap (load (push a f) (bc_be c)) = Return (-1) (load f (reaped_with (-1) (Some x) (bc_be c)))"
          using False e WaitErr f by (simp add: reap_def reaped_with_def load_def)
        then show ?thesis unfolding r c' l by (simp add: w)
      qed
    qed
  qed
qed

text \<open>The bytes of a pending \<open>write\<close> and the length of a pending \<open>read\<close> are not zero.\<close>

definition op_sound :: "op \<Rightarrow> bool" where
  "op_sound op \<longleftrightarrow> (case op of OpRecv len \<Rightarrow> 0 < len | _ \<Rightarrow> True)"

definition sound_point :: "bconf \<Rightarrow> bool" where
  "sound_point c \<longleftrightarrow>
     (case bc_point c of
        W_write ch bs \<Rightarrow> bs \<noteq> [] | W_drain ch bs \<Rightarrow> bs \<noteq> []
      | R_check len \<Rightarrow> 0 < len | R_read len \<Rightarrow> 0 < len | R_drain len \<Rightarrow> 0 < len | _ \<Rightarrow> True)
     \<and> list_all op_sound (bc_ops c)"

lemma bnext_resume:
  assumes "bnext env a c = Some c'" "sound_point c"
  shows "resume env c (load (push a f) (bc_be c)) = resume env c' (load (left a f) (bc_be c'))"
proof (cases "bc_point c")
  case Next
  with assms(1) have a: "a = Tau" "c' = call_step c" by (auto simp: bnext_def split: if_splits)
  have 1: "bindO (chdb_helper_write env bs t) (\<lambda>_. run_ops env ops got)
      = bindO (write_all DataChannel bs t) (written env DataChannel (c\<lparr>bc_ops := ops\<rparr>))" if "got = bc_got c" for bs t ops got
    unfolding chdb_helper_write_def bindO_assoc using that
    by (cases "write_all DataChannel bs t") (auto simp: written_def split: option.split)
  have 2: "bindO (chdb_helper_finish env t) (\<lambda>_. run_ops env ops got)
      = bindO (drain_and_reap (close_data t)) (ended_rest env Finishing (c\<lparr>bc_ops := ops\<rparr>))" if "got = bc_got c" for t ops got
    unfolding chdb_helper_finish_def bindO_assoc using that
    by (cases "drain_and_reap (close_data t)") (auto simp: ended_rest_def)
  have 3: "(\<lambda>bs s. if bs = [] then Return got s else run_ops env ops (got @ bs) s) = received env (c\<lparr>bc_ops := ops\<rparr>)"
    if "got = bc_got c" for ops got
    using that by (intro ext) (simp add: received_def)
  show ?thesis
  proof (cases "bc_ops c")
    case (Cons op ops)
    have u: "written env DataChannel (call_step c) = written env DataChannel (c\<lparr>bc_ops := ops\<rparr>)"
      "ended_rest env Finishing (call_step c) = ended_rest env Finishing (c\<lparr>bc_ops := ops\<rparr>)"
      "received env (call_step c) = received env (c\<lparr>bc_ops := ops\<rparr>)"
      using Cons by (intro rest_cong; simp add: call_step_def split: op.split)+
    have p: "bc_point (call_step c) = (case op of OpWrite bs \<Rightarrow> W_check DataChannel bs | OpFinish \<Rightarrow> E_check Finishing
        | OpRecv len \<Rightarrow> R_check len)" "bc_be (call_step c) = (if op = OpFinish then close_data (bc_be c) else bc_be c)"
      using Cons by (simp_all add: call_step_def split: op.split)
    show ?thesis using Next Cons a
      by (cases op) (simp_all add: left_def resume_def 1 2 3 u p)
  qed (use Next a in \<open>simp add: call_step_def left_def resume_def\<close>)
next
  case (W_check ch bs)
  show ?thesis
  proof (cases "bs = []")
    case True
    with W_check assms(1) have "a = Tau" "c' = after_write env ch None c" by (auto simp: bnext_def split: if_splits)
    with W_check True show ?thesis by (simp add: resume_def [of env c] left_def write_all.simps written_after)
  next
    case False
    show ?thesis
      by (rule resume_check [of "W_write ch bs"])
        (use W_check False assms(1) in \<open>simp_all add: bnext_def resume_def write_all.simps\<close>)
  qed
next
  case (W_write ch bs)
  with assms show ?thesis by (intro resume_write) (auto simp: bnext_def sound_point_def)
next
  case (W_drain ch bs)
  have "resume env d s = bindO (drain_err s) (\<lambda>_ t. bindO (write_all ch bs t) (written env ch c))"
    if "bc_point d = bc_point c" "bc_ops d = bc_ops c" "bc_got d = bc_got c" for d s
    using that W_drain rest_cong(1) [of d c env ch] by (simp add: resume_def)
  note r = this
  show ?thesis
    by (rule resume_drain [of "W_check ch bs", OF _ r]) (use W_drain assms(1) in \<open>simp_all add: bnext_def resume_sel\<close>)
next
  case (R_check len)
  show ?thesis
    by (rule resume_check [of "R_read len"])
      (use R_check assms(1) in \<open>simp_all add: bnext_def resume_def chdb_helper_recv.simps\<close>)
next
  case (R_read len)
  with assms show ?thesis by (intro resume_read) (auto simp: bnext_def sound_point_def)
next
  case (R_drain len)
  have "resume env d s = bindO (drain_err s) (\<lambda>_ t. bindO (chdb_helper_recv env len t) (received env c))"
    if "bc_point d = bc_point c" "bc_ops d = bc_ops c" "bc_got d = bc_got c" for d s
    using that R_drain rest_cong(2) [of d c env] by (simp add: resume_def)
  note r = this
  show ?thesis
    by (rule resume_drain [of "R_check len", OF _ r]) (use R_drain assms(1) in \<open>simp_all add: bnext_def resume_sel\<close>)
next
  case (E_check why)
  show ?thesis
  proof (cases "h_err (hp (bc_be c)) < 0")
    case True
    with E_check assms(1) have "a = Tau" "c' = c\<lparr>bc_point := E_reap why\<rparr>" by (auto simp: bnext_def split: if_splits)
    with E_check True show ?thesis by (simp add: resume_def [of env c] left_def drain_and_reap.simps resume_sel)
  next
    case False
    have "bindO (drain_and_reap (load (f\<lparr>sc_intr := False # sc_intr f\<rparr>) (bc_be c))) g
        = bindO (drain_err (load f (bc_be c))) (\<lambda>_ t. bindO (drain_and_reap t) g)" for g :: "int \<Rightarrow> backend \<Rightarrow> (string, backend) outcome" and f
    proof (cases "drain_err (load f (bc_be c))")
      case (Return u t)
      with False show ?thesis
        by (subst drain_and_reap.simps) (simp add: wait_fd_def drain_and_reap.simps [of t])
    next
      case Waiting
      with False show ?thesis by (subst drain_and_reap.simps) simp
    qed simp
    moreover have "drain_and_reap (load (f\<lparr>sc_intr := True # sc_intr f\<rparr>) (bc_be c)) = Raise query_canceled (load f (bc_be c))" for f
      using False by (subst drain_and_reap.simps) simp
    ultimately show ?thesis
      by (intro resume_check [of "E_drain why"])
        (use E_check False assms(1) in \<open>simp_all add: bnext_def resume_def\<close>)
  qed
next
  case (E_drain why)
  have "resume env d s = bindO (drain_err s) (\<lambda>_ t. bindO (drain_and_reap t) (ended_rest env why c))"
    if "bc_point d = bc_point c" "bc_ops d = bc_ops c" "bc_got d = bc_got c" for d s
    using that E_drain rest_cong(3) [of d c env why] by (simp add: resume_def)
  note r = this
  show ?thesis
    by (rule resume_drain [of "E_check why", OF _ r]) (use E_drain assms(1) in \<open>simp_all add: bnext_def resume_sel\<close>)
next
  case (E_reap why)
  with assms show ?thesis by (intro resume_reap) (simp_all add: bnext_def)
qed (use assms in \<open>simp_all add: bnext_def\<close>)

section \<open>A run of steps is a run of the operations\<close>

lemma bnext_sound:
  assumes "bnext env a c = Some c'" "sound_point c"
  shows "sound_point c'"
proof -
  have w: "sound_point (after_write env ch r c)" for ch r
    using assms(2) by (cases ch; cases r) (simp_all add: sound_point_def after_write_def)
  have e: "sound_point (after_end env why st (c\<lparr>bc_be := b\<rparr>))" "sound_point (after_end env why st c)" for why st b
    using assms(2) by (cases why; simp add: sound_point_def after_end_def)+
  have o: "list_all op_sound (bc_ops c)" using assms(2) by (simp add: sound_point_def)
  show ?thesis
  proof (cases "bc_point c")
    case Next
    with assms(1) o show ?thesis
      by (cases "bc_ops c") (auto simp: sound_point_def op_sound_def bnext_def call_step_def split: if_splits op.splits)
  next
    case (W_check ch bs)
    with assms(1) o w show ?thesis
      by (auto simp: bnext_def check_step_def sound_point_def split: if_splits answer.splits bool.splits)
  next
    case (W_write ch bs)
    with assms w show ?thesis
      by (auto simp: bnext_def write_step_def sound_point_def split: if_splits answer.splits write_event.splits)
  next
    case (R_read len)
    with assms show ?thesis
      by (auto simp: bnext_def read_step_def Let_def sound_point_def split: if_splits answer.splits read_event.splits)
  next
    case (E_reap why)
    with assms e show ?thesis
      by (auto simp: bnext_def reap_step_def split: if_splits answer.splits wait_event.splits)
  qed (use assms in \<open>auto simp: bnext_def check_step_def drain_step_def sound_point_def
      split: if_splits answer.splits bool.splits read_event.splits\<close>)
qed

text \<open>A closed descriptor is not read again.\<close>

lemma bnext_closed:
  assumes "bnext env a c = Some c'"
  shows "h_err (hp (bc_be c)) < 0 \<Longrightarrow> h_err (hp (bc_be c')) < 0 \<and> (\<forall>e. a \<noteq> ErrAns e)"
    "h_data (hp (bc_be c)) < 0 \<Longrightarrow> h_data (hp (bc_be c')) < 0 \<and> (\<forall>e. a \<noteq> DataAns e)"
    "a = ErrAns Eof \<Longrightarrow> h_err (hp (bc_be c')) < 0" "a = DataAns Eof \<Longrightarrow> h_data (hp (bc_be c')) < 0"
proof -
  let ?P = "\<lambda>c'. (h_err (hp (bc_be c)) < 0 \<longrightarrow> h_err (hp (bc_be c')) < 0 \<and> (\<forall>e. a \<noteq> ErrAns e))
    \<and> (h_data (hp (bc_be c)) < 0 \<longrightarrow> h_data (hp (bc_be c')) < 0 \<and> (\<forall>e. a \<noteq> DataAns e))
    \<and> (a = ErrAns Eof \<longrightarrow> h_err (hp (bc_be c')) < 0) \<and> (a = DataAns Eof \<longrightarrow> h_data (hp (bc_be c')) < 0)"
  have w: "h_err (hp (bc_be (after_write env ch r c))) = h_err (hp (bc_be c))"
    "h_data (hp (bc_be (after_write env ch r c))) = h_data (hp (bc_be c))" for ch r
    by (cases ch; cases r; simp add: after_write_def close_setup_def)+
  have e: "bc_be (after_end env why st d) = bc_be d" for why st d by (cases why) (simp_all add: after_end_def)
  have "?P c'" if "check_step p a c = Some c'" for p
    using that by (auto simp: check_step_def split: answer.splits bool.splits)
  moreover have "?P c'" if "drain_step p a c = Some c'" for p
    using that by (auto simp: drain_step_def close_err_def keep_err_def split: answer.splits read_event.splits if_splits)
  moreover have "?P c'" if "write_step env ch bs a c = Some c'" for ch bs
    using that by (cases ch) (auto simp: write_step_def w channel_accept_def split: answer.splits write_event.splits if_splits)
  moreover have "?P c'" if "read_step len a c = Some c'" for len
    using that by (auto simp: read_step_def Let_def close_data_def split: answer.splits read_event.splits if_splits)
  moreover have "?P c'" if "reap_step env why a c = Some c'" for why
    using that by (auto simp: reap_step_def e reaped_with_def split: answer.splits wait_event.splits if_splits)
  moreover have "?P (call_step c)" if "a = Tau"
    using that by (auto simp: call_step_def close_data_def split: list.split op.split)
  ultimately have "?P c'" using assms w by (auto simp: bnext_def split: point.splits if_splits)
  then show "h_err (hp (bc_be c)) < 0 \<Longrightarrow> h_err (hp (bc_be c')) < 0 \<and> (\<forall>e. a \<noteq> ErrAns e)"
    "h_data (hp (bc_be c)) < 0 \<Longrightarrow> h_data (hp (bc_be c')) < 0 \<and> (\<forall>e. a \<noteq> DataAns e)"
    "a = ErrAns Eof \<Longrightarrow> h_err (hp (bc_be c')) < 0" "a = DataAns Eof \<Longrightarrow> h_data (hp (bc_be c')) < 0" by blast+
qed

fun pushes :: "answer list \<Rightarrow> scripts \<Rightarrow> scripts" where
  "pushes [] f = f"
| "pushes (a # as) f = push a (pushes as f)"

lemma brun_closed:
  "brun env as c = Some c' \<Longrightarrow> (h_err (hp (bc_be c)) < 0 \<longrightarrow> (\<forall>e. ErrAns e \<notin> set as))
     \<and> (h_data (hp (bc_be c)) < 0 \<longrightarrow> (\<forall>e. DataAns e \<notin> set as))"
proof (induction env as c rule: brun.induct)
  case (2 env a as c)
  then obtain d where d: "bnext env a c = Some d" "brun env as d = Some c'" by (auto split: option.splits)
  with 2 bnext_closed(1,2) [OF d(1)] show ?case by auto
qed simp

lemma push_commute:
  "push (ErrAns e) (push a f) = push a (push (ErrAns e) f)" if "\<forall>x. a \<noteq> ErrAns x" for e a f
  using that by (cases "(a, f)" rule: push.cases) simp_all

lemma push_commute_data:
  "push (DataAns e) (push a f) = push a (push (DataAns e) f)" if "\<forall>x. a \<noteq> DataAns x" for e a f
  using that by (cases "(a, f)" rule: push.cases) simp_all

lemma left_pushes:
  assumes "a = ErrAns Eof \<Longrightarrow> \<forall>e. ErrAns e \<notin> set as" "a = DataAns Eof \<Longrightarrow> \<forall>e. DataAns e \<notin> set as"
  shows "left a (pushes as f) = pushes as (left a f)"
  using assms
proof (induction as)
  case (Cons b as)
  then have "left a (pushes as f) = pushes as (left a f)" by simp
  moreover have "left a (push b g) = push b (left a g)" for g
    using Cons.prems push_commute [of b Eof g] push_commute_data [of b Eof g] by (auto simp: left_def)
  ultimately show ?case by simp
qed simp

lemma brun_resume:
  "brun env as c = Some c' \<Longrightarrow> sound_point c
     \<Longrightarrow> \<exists>f'. resume env c (load (pushes as f) (bc_be c)) = resume env c' (load f' (bc_be c'))"
proof (induction env as c arbitrary: f rule: brun.induct)
  case (2 env a as c)
  then obtain d where d: "bnext env a c = Some d" "brun env as d = Some c'" by (auto split: option.splits)
  have "left a (pushes as f) = pushes as (left a f)"
    by (rule left_pushes) (use brun_closed [OF d(2)] bnext_closed(3,4) [OF d(1)] in auto)
  with bnext_resume [OF d(1) "2.prems"(2), of "pushes as f"]
    "2.IH" [OF d(1,2) bnext_sound [OF d(1) "2.prems"(2)], of "left a f"] show ?case by simp
qed auto

lemma bc_be_bstart [simp]: "bc_be (bstart payload ops s) = s"
  by (simp add: bstart_def)

lemma resume_start: "resume env (bstart payload ops s) t = run_helper env payload ops t"
proof -
  have "written env SetupChannel (bstart payload ops s) r t = bindO
      (case r of None \<Rightarrow> Return () (close_setup t) | Some e \<Rightarrow> if e = EPIPE then report_helper env ''could not start chDB'' t
       else Raise (ereport errcode_for_socket_access (''chdb: could not send the query to chDB: '' @ strerror env e)) t)
      (\<lambda>_. run_ops env ops [])" for r t
    by (simp add: written_def bstart_def split: option.split)
  then show ?thesis
    by (cases "write_all SetupChannel payload t") (simp_all add: resume_def bstart_def run_helper_def write_setup_def)
qed

definition no_answers :: scripts where
  "no_answers = \<lparr>sc_err = [], sc_data = [], sc_data_wr = [], sc_setup_wr = [], sc_wait = [], sc_intr = []\<rparr>"

text \<open>
  C14. The step machine and the script model are the same program: when a run of single steps, each
  on one answer of the operating system, has ended, the operations called on the scripts of those
  answers, channel by channel, have the same end: they return the same bytes, or raise the same
  error, in the same state of the backend.
\<close>

theorem steps_are_operations:
  assumes "brun env as (bstart payload ops s) = Some c" and "list_all op_sound ops"
  shows "\<exists>f. (bc_point c = Returned \<longrightarrow>
        run_helper env payload ops (load (pushes as no_answers) s) = Return (bc_got c) (load f (bc_be c)))
    \<and> (\<forall>e. bc_point c = Raised e \<longrightarrow>
        run_helper env payload ops (load (pushes as no_answers) s) = Raise e (load f (bc_be c)))"
proof -
  have "sound_point (bstart payload ops s)" using assms(2) by (simp add: sound_point_def bstart_def)
  from brun_resume [OF assms(1) this, of no_answers] obtain f where
    "run_helper env payload ops (load (pushes as no_answers) s) = resume env c (load f (bc_be c))"
    by (auto simp: resume_start)
  then show ?thesis by (intro exI [of _ f]) (simp add: resume_def)
qed

theorem steps_are_operations_witness:
  "\<exists>c s t. brun ex_env [Intr False, WriteAns SetupChannel (Accept 0), Tau, Tau, Intr False, DataAns (ReadErr EAGAIN),
        ErrAns (ReadErr EAGAIN), Intr False, DataAns (Data CHR ''a'' []), Tau]
      (bstart ''p'' [OpRecv 3] (ex_backend\<lparr>hp := (new_helper [])\<lparr>h_data := 5, h_err := 6, h_setup := 7\<rparr>\<rparr>)) = Some c
    \<and> run_helper ex_env ''p'' [OpRecv 3] s = Return ''a'' t"
proof -
  let ?s = "ex_backend\<lparr>hp := (new_helper [])\<lparr>h_data := 5, h_err := 6, h_setup := 7\<rparr>\<rparr>"
  let ?as = "[Intr False, WriteAns SetupChannel (Accept 0), Tau, Tau, Intr False, DataAns (ReadErr EAGAIN),
        ErrAns (ReadErr EAGAIN), Intr False, DataAns (Data CHR ''a'' []), Tau]"
  obtain c where c: "brun ex_env ?as (bstart ''p'' [OpRecv 3] ?s) = Some c" "bc_point c = Returned" "bc_got c = ''a''"
    by (simp add: bstart_def step_defs Let_def channel_fd_def new_helper_def close_setup_def channel_accept_def)
  from steps_are_operations [OF c(1)] obtain f where
    f: "run_helper ex_env ''p'' [OpRecv 3] (load (pushes ?as no_answers) ?s) = Return (bc_got c) (load f (bc_be c))"
    using c(2) by (auto simp: op_sound_def)
  with c(1,3) show ?thesis by auto
qed

end
