(* ===== verification/Joint_Run.thy ===== *)
theory Joint_Run
  imports Backend_Steps Helper_Main
begin

text \<open>
  The backend and the helper side by side. They share nothing but bounded channels: the setup pipe,
  the error pipe and the two directions of the data socket. A move is one step of one of the two
  processes, chosen by an arbitrary scheduler, and takes what the kernel allows at that moment:
  a read delivers some of the bytes in the channel, a write puts some of its bytes into the room
  that is left, the backend's calls (non-blocking) fail on a full or an empty channel and the
  helper's (blocking) have no move then. Any read and any write of either process may fail with
  any error instead, the child of the fork may fail to become the helper, libchdb may write to the
  error channel on its own, and a signal may end the process at any point.
\<close>

section \<open>The helper as a machine\<close>

text \<open>
  What the helper program has still to do: text for its error output, bytes for its standard output,
  and then either its exit or the reading of its standard input.
\<close>

datatype haction = Say string | Send string

datatype hthen = Exit nat | Input

abbreviation line :: "string \<Rightarrow> string" where "line msg \<equiv> msg @ [newline]"

text \<open>The commands of \<open>chdb_helper.c\<close> up to the point where they wait for the backend.\<close>

fun chunk_plan :: "(string + string) list \<Rightarrow> haction list \<times> hthen" where
  "chunk_plan [] = ([], Exit 0)"
| "chunk_plan (Inl e # cs) = ([Say (line e)], Exit 1)"
| "chunk_plan (Inr b # cs) = (if b = [] then ([], Exit 0) else (case chunk_plan cs of (as, th) \<Rightarrow> (Send b # as, th)))"

definition select_plan :: "chdb_lib \<Rightarrow> string \<Rightarrow> (string \<times> string) list \<Rightarrow> haction list \<times> hthen" where
  "select_plan lib query par =
     (case lib_stream_error lib query par of
        Some e \<Rightarrow> ([Say (line e)], Exit 1)
      | None \<Rightarrow> chunk_plan (lib_fetch lib query par))"

definition query_plan :: "chdb_lib \<Rightarrow> string \<Rightarrow> (string \<times> string) list \<Rightarrow> haction list \<times> hthen" where
  "query_plan lib query par =
     (case lib_query lib query par of
        Inl e \<Rightarrow> ([Say (line e)], Exit 1)
      | Inr b \<Rightarrow> (if b = [] then [] else [Send b], Exit 0))"

definition insert_plan ::
  "(nat \<Rightarrow> bool) \<Rightarrow> chdb_lib \<Rightarrow> string \<Rightarrow> (string \<times> string) list \<Rightarrow> haction list \<times> hthen"
where
  "insert_plan alloc lib query par =
     (case lib_insert_error lib query par of
        Some e \<Rightarrow> ([Say (line e)], Exit 1)
      | None \<Rightarrow> if alloc CHDB_HELPER_IO_BYTES then ([], Input) else ([Say (line out_of_memory)], Exit 1))"

text \<open>One block of the insert, and its end.\<close>

definition append_plan :: "chdb_lib \<Rightarrow> string \<Rightarrow> string \<Rightarrow> haction list \<times> hthen" where
  "append_plan lib taken b =
     (case lib_append lib taken b of
        None \<Rightarrow> ([], Input)
      | Some e \<Rightarrow> ([Say (line (case e of Some msg \<Rightarrow> msg | None \<Rightarrow> ''chdb: append failed''))], Exit 1))"

definition done_plan :: "chdb_lib \<Rightarrow> string \<Rightarrow> haction list \<times> hthen" where
  "done_plan lib taken = (case lib_done lib taken of None \<Rightarrow> ([], Exit 0) | Some e \<Rightarrow> ([Say (line e)], Exit 1))"

definition request_plan :: "(nat \<Rightarrow> bool) \<Rightarrow> chdb_lib \<Rightarrow> setup_request \<Rightarrow> (haction list \<times> hthen) option" where
  "request_plan alloc lib req =
     (let ctx = req_ctx req; query = req_query req; par = req_params req
      in if \<not> lib_connects lib then Some ([Say (line ''chdb: unable to connect to chDB'')], Exit 1)
         else
           (case session_settings (max_memory ctx) (max_threads ctx) (max_parsers ctx) (req_timezone req) of
              None \<Rightarrow> None
            | Some text \<Rightarrow>
                Some (case lib_settings lib text of
                  Some e \<Rightarrow> ([Say (line e)], Exit 1)
                | None \<Rightarrow>
                    if cmd ctx = CHDB_CMD_SELECT then select_plan lib query par
                    else if cmd ctx = CHDB_CMD_INSERT then insert_plan alloc lib query par
                    else if cmd ctx = CHDB_CMD_DESCRIBE then query_plan lib query par
                    else ([Say (line ''chdb: unknown command type'')], Exit 1))))"

record program =
  pr_alloc :: "nat \<Rightarrow> bool"
  pr_endian :: endian
  pr_lib :: chdb_lib

definition setup_plan :: "program \<Rightarrow> string \<Rightarrow> (haction list \<times> hthen) option" where
  "setup_plan P payload =
     (case parse_setup (pr_alloc P) (pr_endian P) payload of
        Inl msg \<Rightarrow> Some ([Say (line msg)], Exit 1)
      | Inr req \<Rightarrow> request_plan (pr_alloc P) (pr_lib P) req)"

text \<open>
  \<open>H_exec\<close> is the child before its \<open>execv\<close> (\<open>exec_helper\<close> of \<open>src/helper.c\<close>, whose placing of the
  descriptors is in \<open>Fd_Table\<close>), \<open>H_setup cap buf\<close> is the loop of \<open>read_setup\<close>; \<open>H_exited w\<close> is the
  end, with its wait status.
\<close>

datatype hstate = H_exec | H_setup nat string | H_do "haction list" hthen | H_exited int

text \<open>The program has been started: \<open>read_setup\<close> allocates its first buffer.\<close>

definition hstart :: "program \<Rightarrow> hstate" where
  "hstart P = (if pr_alloc P (64 * 1024) then H_setup (64 * 1024) [] else H_do [Say (line out_of_memory)] (Exit 1))"

section \<open>Both processes\<close>

record kernel =
  data_cap :: nat
  err_cap :: nat
  setup_cap :: nat

text \<open>
  \<open>j_to\<close> and \<open>j_from\<close> are the bytes in the data socket on their way to the helper and from it, \<open>j_taken\<close>
  what the helper has appended to its insert, \<open>j_noise\<close> what libchdb will still write to the error
  channel by itself.
\<close>

record joint =
  j_conf :: bconf
  j_helper :: hstate
  j_setup :: string
  j_to :: string
  j_from :: string
  j_err :: string
  j_taken :: string
  j_noise :: "string list"

abbreviation j_hp :: "joint \<Rightarrow> chdbHelper" where "j_hp s \<equiv> hp (bc_be (j_conf s))"
abbreviation j_point :: "joint \<Rightarrow> point" where "j_point s \<equiv> bc_point (j_conf s)"

definition alive :: "joint \<Rightarrow> bool" where
  "alive s \<longleftrightarrow> (case j_helper s of H_exited w \<Rightarrow> False | _ \<Rightarrow> True)"

definition pipe_to :: "channel \<Rightarrow> joint \<Rightarrow> string" where
  "pipe_to ch s = (case ch of SetupChannel \<Rightarrow> j_setup s | DataChannel \<Rightarrow> j_to s)"

definition put_to :: "channel \<Rightarrow> string \<Rightarrow> joint \<Rightarrow> joint" where
  "put_to ch bs s =
     (case ch of SetupChannel \<Rightarrow> s\<lparr>j_setup := j_setup s @ bs\<rparr> | DataChannel \<Rightarrow> s\<lparr>j_to := j_to s @ bs\<rparr>)"

definition cap_to :: "kernel \<Rightarrow> channel \<Rightarrow> nat" where
  "cap_to K ch = (case ch of SetupChannel \<Rightarrow> setup_cap K | DataChannel \<Rightarrow> data_cap K)"

section \<open>Moves of the backend\<close>

text \<open>The call the backend is at.\<close>

datatype ask =
  AskTau | AskCheck | AskWrite channel string | AskData nat | AskErr nat | AskWait | AskNothing

definition asks :: "bconf \<Rightarrow> ask" where
  "asks c =
     (let drain = (if h_err (hp (bc_be c)) < 0 then AskTau else AskErr (err_room (bc_be c)))
      in case bc_point c of
           Next \<Rightarrow> AskTau
         | W_check ch bs \<Rightarrow> if bs = [] then AskTau else AskCheck
         | W_write ch bs \<Rightarrow> if channel_fd ch (bc_be c) < 0 then AskTau else AskWrite ch bs
         | W_drain ch bs \<Rightarrow> drain
         | R_check len \<Rightarrow> AskCheck
         | R_read len \<Rightarrow> if h_data (hp (bc_be c)) < 0 then AskTau else AskData len
         | R_drain len \<Rightarrow> drain
         | E_check why \<Rightarrow> if h_err (hp (bc_be c)) < 0 then AskTau else AskCheck
         | E_drain why \<Rightarrow> drain
         | E_reap why \<Rightarrow> if h_reaped (hp (bc_be c)) then AskTau else AskWait
         | Returned \<Rightarrow> AskNothing
         | Raised e \<Rightarrow> AskNothing)"

text \<open>
  \<open>B_put k\<close> and \<open>B_take k\<close> move \<open>k + 1\<close> bytes; a write may be refused as soon as the channel is not
  empty, since a pipe takes small writes whole. \<open>B_again\<close> is an interrupted call, \<open>B_fault\<close> any other
  error.
\<close>

datatype bmove =
    B_tau | B_check bool | B_put nat | B_full | B_broken | B_take nat | B_none | B_end | B_wait
  | B_again | B_fault errno

definition hard :: "errno \<Rightarrow> bool" where
  "hard e \<longleftrightarrow> e \<notin> {EINTR, EAGAIN, EWOULDBLOCK, EPIPE}"

text \<open>The error of a call, as the answer to it.\<close>

definition refuse :: "ask \<Rightarrow> errno \<Rightarrow> answer option" where
  "refuse q e =
     (case q of
        AskWrite ch bs \<Rightarrow> Some (WriteAns ch (WriteErr e))
      | AskData n \<Rightarrow> Some (DataAns (ReadErr e))
      | AskErr n \<Rightarrow> Some (ErrAns (ReadErr e))
      | AskWait \<Rightarrow> Some (WaitAns (WaitErr e))
      | _ \<Rightarrow> None)"

text \<open>The first \<open>k + 1\<close> bytes of a channel, as a read event.\<close>

definition some_data :: "nat \<Rightarrow> string \<Rightarrow> read_event" where
  "some_data k bs = Data (hd bs) (take k (tl bs))"

definition kernel_answer :: "kernel \<Rightarrow> bmove \<Rightarrow> joint \<Rightarrow> (answer \<times> joint) option" where
  "kernel_answer K m s =
     (let q = asks (j_conf s)
      in case m of
           B_tau \<Rightarrow> if q = AskTau then Some (Tau, s) else None
         | B_check b \<Rightarrow> if q = AskCheck then Some (Intr b, s) else None
         | B_put k \<Rightarrow>
             (case q of
                AskWrite ch bs \<Rightarrow>
                  if alive s \<and> k < length bs \<and> length (pipe_to ch s) + Suc k \<le> cap_to K ch
                  then Some (WriteAns ch (Accept k), put_to ch (take (Suc k) bs) s) else None
              | _ \<Rightarrow> None)
         | B_full \<Rightarrow>
             (case q of
                AskWrite ch bs \<Rightarrow>
                  if alive s \<and> pipe_to ch s \<noteq> [] then Some (WriteAns ch (WriteErr EAGAIN), s) else None
              | _ \<Rightarrow> None)
         | B_broken \<Rightarrow>
             (case q of
                AskWrite ch bs \<Rightarrow> if \<not> alive s then Some (WriteAns ch (WriteErr EPIPE), s) else None
              | _ \<Rightarrow> None)
         | B_take k \<Rightarrow>
             (case q of
                AskData n \<Rightarrow>
                  if k < n \<and> k < length (j_from s)
                  then Some (DataAns (some_data k (j_from s)), s\<lparr>j_from := drop (Suc k) (j_from s)\<rparr>) else None
              | AskErr n \<Rightarrow>
                  if k < n \<and> k < length (j_err s)
                  then Some (ErrAns (some_data k (j_err s)), s\<lparr>j_err := drop (Suc k) (j_err s)\<rparr>) else None
              | _ \<Rightarrow> None)
         | B_none \<Rightarrow>
             (case q of
                AskData n \<Rightarrow> if alive s \<and> j_from s = [] then Some (DataAns (ReadErr EAGAIN), s) else None
              | AskErr n \<Rightarrow> if alive s \<and> j_err s = [] then Some (ErrAns (ReadErr EAGAIN), s) else None
              | _ \<Rightarrow> None)
         | B_end \<Rightarrow>
             (case q of
                AskData n \<Rightarrow> if \<not> alive s \<and> j_from s = [] then Some (DataAns Eof, s) else None
              | AskErr n \<Rightarrow> if \<not> alive s \<and> j_err s = [] then Some (ErrAns Eof, s) else None
              | _ \<Rightarrow> None)
         | B_wait \<Rightarrow>
             (case (q, j_helper s) of (AskWait, H_exited w) \<Rightarrow> Some (WaitAns (Ended w), s) | _ \<Rightarrow> None)
         | B_again \<Rightarrow> map_option (\<lambda>a. (a, s)) (refuse q EINTR)
         | B_fault e \<Rightarrow> if hard e then map_option (\<lambda>a. (a, s)) (refuse q e) else None)"

definition bmove_step :: "helper_env \<Rightarrow> kernel \<Rightarrow> bmove \<Rightarrow> joint \<Rightarrow> joint option" where
  "bmove_step env K m s =
     (case kernel_answer K m s of
        None \<Rightarrow> None
      | Some (a, t) \<Rightarrow> map_option (\<lambda>c. t\<lparr>j_conf := c\<rparr>) (bnext env a (j_conf s)))"

section \<open>Moves of the helper\<close>

text \<open>
  \<open>H_next\<close> is a step without a system call on a channel, \<open>H_lost\<close> a write to an end the backend has
  closed, \<open>H_fault e\<close> a read or a write that fails with \<open>e\<close>, whatever the channel holds; \<open>H_unplaced\<close> and
  \<open>H_unexecuted\<close> are the two ends of a child that does not become the helper. A \<open>read_setup\<close> that has
  filled its buffer doubles it first, if it can.
\<close>

datatype hmove =
    H_take nat | H_end | H_put nat | H_lost | H_fault errno | H_next | H_noise | H_crash nat
  | H_unplaced | H_unexecuted

definition exec_move :: "program \<Rightarrow> hmove \<Rightarrow> joint \<Rightarrow> joint option" where
  "exec_move P m s =
     (case m of
        H_next \<Rightarrow> Some (s\<lparr>j_helper := hstart P\<rparr>)
      | H_unplaced \<Rightarrow> Some (s\<lparr>j_helper := H_exited (256 * 126)\<rparr>)
      | H_unexecuted \<Rightarrow> Some (s\<lparr>j_helper := H_exited (256 * 127)\<rparr>)
      | _ \<Rightarrow> None)"

definition setup_room :: "nat \<Rightarrow> string \<Rightarrow> nat" where
  "setup_room cap buf = (if length buf = cap then 2 * cap else cap)"

definition setup_refused :: "program \<Rightarrow> nat \<Rightarrow> string \<Rightarrow> string option" where
  "setup_refused P cap buf =
     (if length buf = cap \<and> 2 * cap > CHDB_SETUP_MAX then Some too_large
      else if length buf = cap \<and> \<not> pr_alloc P (2 * cap) then Some out_of_memory
      else None)"

definition goes_on :: "haction list \<times> hthen \<Rightarrow> hstate" where
  "goes_on p = H_do (fst p) (snd p)"

definition setup_move :: "program \<Rightarrow> hmove \<Rightarrow> nat \<Rightarrow> string \<Rightarrow> joint \<Rightarrow> joint option" where
  "setup_move P m cap buf s =
     (case setup_refused P cap buf of
        Some msg \<Rightarrow> if m = H_next then Some (s\<lparr>j_helper := H_do [Say (line msg)] (Exit 1)\<rparr>) else None
      | None \<Rightarrow>
          (case m of
             H_take k \<Rightarrow>
               if k < setup_room cap buf - length buf \<and> k < length (j_setup s)
               then Some (s\<lparr>j_helper := H_setup (setup_room cap buf) (buf @ take (Suc k) (j_setup s)),
                 j_setup := drop (Suc k) (j_setup s)\<rparr>)
               else None
           | H_end \<Rightarrow>
               if j_setup s = [] \<and> h_setup (j_hp s) < 0
               then map_option (\<lambda>p. s\<lparr>j_helper := goes_on p\<rparr>) (setup_plan P buf) else None
           | H_fault e \<Rightarrow>
               if e = EINTR then Some s else Some (s\<lparr>j_helper := H_do [Say (line unreadable)] (Exit 1)\<rparr>)
           | _ \<Rightarrow> None))"

text \<open>
  A failing write, and its error: \<open>fprintf\<close> drops the text, \<open>write_all\<close> gives up unless it was only
  interrupted, and the program then ends.
\<close>

definition write_fails :: "hmove \<Rightarrow> int \<Rightarrow> errno option" where
  "write_fails m fd =
     (case m of H_lost \<Rightarrow> if fd < 0 then Some EPIPE else None | H_fault e \<Rightarrow> Some e | _ \<Rightarrow> None)"

definition say_move :: "kernel \<Rightarrow> hmove \<Rightarrow> string \<Rightarrow> haction list \<Rightarrow> hthen \<Rightarrow> joint \<Rightarrow> joint option" where
  "say_move K m x as th s =
     (if x = [] then (if m = H_next then Some (s\<lparr>j_helper := H_do as th\<rparr>) else None)
      else
        (case m of
           H_put k \<Rightarrow>
             if 0 \<le> h_err (j_hp s) \<and> k < length x \<and> length (j_err s) + Suc k \<le> err_cap K
             then Some (s\<lparr>j_helper := H_do (Say (drop (Suc k) x) # as) th, j_err := j_err s @ take (Suc k) x\<rparr>)
             else None
         | _ \<Rightarrow> map_option (\<lambda>e. s\<lparr>j_helper := H_do as th\<rparr>) (write_fails m (h_err (j_hp s)))))"

definition send_move :: "kernel \<Rightarrow> hmove \<Rightarrow> string \<Rightarrow> haction list \<Rightarrow> hthen \<Rightarrow> joint \<Rightarrow> joint option" where
  "send_move K m x as th s =
     (if x = [] then (if m = H_next then Some (s\<lparr>j_helper := H_do as th\<rparr>) else None)
      else
        (case m of
           H_put k \<Rightarrow>
             if 0 \<le> h_data (j_hp s) \<and> k < length x \<and> length (j_from s) + Suc k \<le> data_cap K
             then Some (s\<lparr>j_helper := H_do (Send (drop (Suc k) x) # as) th, j_from := j_from s @ take (Suc k) x\<rparr>)
             else None
         | _ \<Rightarrow>
             map_option (\<lambda>e. if e \<noteq> EINTR then s\<lparr>j_helper := H_do [] (Exit LOST_BACKEND)\<rparr> else s)
               (write_fails m (h_data (j_hp s)))))"

definition input_move :: "program \<Rightarrow> hmove \<Rightarrow> joint \<Rightarrow> joint option" where
  "input_move P m s =
     (case m of
        H_take k \<Rightarrow>
          if k < CHDB_HELPER_IO_BYTES \<and> k < length (j_to s)
          then (let b = take (Suc k) (j_to s)
                in Some (s\<lparr>j_helper := goes_on (append_plan (pr_lib P) (j_taken s) b),
                     j_to := drop (Suc k) (j_to s),
                     j_taken := (if lib_append (pr_lib P) (j_taken s) b = None then j_taken s @ b else j_taken s)\<rparr>))
          else None
      | H_end \<Rightarrow>
          if j_to s = [] \<and> h_data (j_hp s) < 0 then Some (s\<lparr>j_helper := goes_on (done_plan (pr_lib P) (j_taken s))\<rparr>)
          else None
      | H_fault e \<Rightarrow> if e = EINTR then Some s else Some (s\<lparr>j_helper := H_do [] (Exit LOST_BACKEND)\<rparr>)
      | _ \<Rightarrow> None)"

definition plan_move :: "kernel \<Rightarrow> program \<Rightarrow> hmove \<Rightarrow> haction list \<Rightarrow> hthen \<Rightarrow> joint \<Rightarrow> joint option" where
  "plan_move K P m as th s =
     (case as of
        Say x # r \<Rightarrow> say_move K m x r th s
      | Send x # r \<Rightarrow> send_move K m x r th s
      | [] \<Rightarrow>
          (case th of
             Exit st \<Rightarrow> if m = H_next then Some (s\<lparr>j_helper := H_exited (256 * int st)\<rparr>) else None
           | Input \<Rightarrow> input_move P m s))"

definition hmove_step :: "kernel \<Rightarrow> program \<Rightarrow> hmove \<Rightarrow> joint \<Rightarrow> joint option" where
  "hmove_step K P m s =
     (case (j_helper s, m) of
        (H_exited w, _) \<Rightarrow> None
      | (_, H_crash sig) \<Rightarrow> if 0 < sig \<and> sig < 127 then Some (s\<lparr>j_helper := H_exited (int sig)\<rparr>) else None
      | (H_exec, _) \<Rightarrow> exec_move P m s
      | (H_setup cap buf, _) \<Rightarrow> setup_move P m cap buf s
      | (H_do as th, H_noise) \<Rightarrow>
          (case j_noise s of
             [] \<Rightarrow> None
           | x # xs \<Rightarrow> Some (s\<lparr>j_helper := H_do (Say x # as) th, j_noise := xs\<rparr>))
      | (H_do as th, _) \<Rightarrow> plan_move K P m as th s)"

section \<open>Runs\<close>

datatype move = Backend bmove | Helper hmove

definition jdo :: "helper_env \<Rightarrow> kernel \<Rightarrow> program \<Rightarrow> move \<Rightarrow> joint \<Rightarrow> joint option" where
  "jdo env K P m s = (case m of Backend b \<Rightarrow> bmove_step env K b s | Helper h \<Rightarrow> hmove_step K P h s)"

text \<open>
  What a scheduler may be forbidden: a run is faultless when there is no cancel, crash, failing
  start or failing system call in it, interrupted calls apart; \<open>no_io_fault\<close> only excludes failing
  system calls of the backend.
\<close>

definition faultless :: "move \<Rightarrow> bool" where
  "faultless m \<longleftrightarrow>
     (case m of
        Backend (B_check b) \<Rightarrow> \<not> b
      | Backend (B_fault e) \<Rightarrow> False
      | Helper (H_crash g) \<Rightarrow> False
      | Helper (H_fault e) \<Rightarrow> e = EINTR
      | Helper H_unplaced \<Rightarrow> False
      | Helper H_unexecuted \<Rightarrow> False
      | _ \<Rightarrow> True)"

definition no_io_fault :: "move \<Rightarrow> bool" where
  "no_io_fault m \<longleftrightarrow> (case m of Backend (B_fault e) \<Rightarrow> False | _ \<Rightarrow> True)"

inductive jreach :: "helper_env \<Rightarrow> kernel \<Rightarrow> program \<Rightarrow> (move \<Rightarrow> bool) \<Rightarrow> joint \<Rightarrow> joint \<Rightarrow> bool"
  for env K P ok
where
  jrefl: "jreach env K P ok s s"
| jstep: "jreach env K P ok s t \<Longrightarrow> ok m \<Longrightarrow> jdo env K P m t = Some u \<Longrightarrow> jreach env K P ok s u"

text \<open>The state after the fork: everything open, nothing sent.\<close>

definition jstart :: "string list \<Rightarrow> string \<Rightarrow> op list \<Rightarrow> backend \<Rightarrow> joint" where
  "jstart noise payload ops b =
     \<lparr>j_conf = bstart payload ops b, j_helper = H_exec, j_setup = [], j_to = [], j_from = [], j_err = [],
      j_taken = [], j_noise = noise\<rparr>"

definition just_forked :: "backend \<Rightarrow> bool" where
  "just_forked b \<longleftrightarrow> 0 \<le> h_data (hp b) \<and> 0 \<le> h_err (hp b) \<and> 0 \<le> h_setup (hp b) \<and> \<not> h_reaped (hp b)"

end
