(* ===== verification/Joint_Safety.thy ===== *)
theory Joint_Safety
  imports Joint_Run
begin

text \<open>
  What the backend may rely on when an operation returns, whatever the scheduler did: the helper has
  exited with status 0, and all the bytes have crossed. Faults of every kind are allowed in the
  runs: crashes, cancels and errors of system calls.
\<close>

section \<open>Where the backend is\<close>

definition in_write :: "point \<Rightarrow> (channel \<times> string) option" where
  "in_write p = (case p of W_check ch bs \<Rightarrow> Some (ch, bs) | W_write ch bs \<Rightarrow> Some (ch, bs) | W_drain ch bs \<Rightarrow> Some (ch, bs)
     | _ \<Rightarrow> None)"

definition in_read :: "point \<Rightarrow> bool" where
  "in_read p \<longleftrightarrow> (case p of R_check len \<Rightarrow> True | R_read len \<Rightarrow> True | R_drain len \<Rightarrow> True | _ \<Rightarrow> False)"

definition in_end :: "point \<Rightarrow> cause option" where
  "in_end p = (case p of E_check why \<Rightarrow> Some why | E_drain why \<Rightarrow> Some why | E_reap why \<Rightarrow> Some why | _ \<Rightarrow> None)"

lemma in_simps [simp]:
  "in_write Next = None" "in_write (W_check ch bs) = Some (ch, bs)" "in_write (W_write ch bs) = Some (ch, bs)"
  "in_write (W_drain ch bs) = Some (ch, bs)" "in_write (R_check len) = None" "in_write (R_read len) = None"
  "in_write (R_drain len) = None" "in_write (E_check why) = None" "in_write (E_drain why) = None"
  "in_write (E_reap why) = None" "in_write Returned = None" "in_write (Raised e) = None"
  "\<not> in_read Next" "\<not> in_read (W_check ch bs)" "\<not> in_read (W_write ch bs)" "\<not> in_read (W_drain ch bs)"
  "in_read (R_check len)" "in_read (R_read len)" "in_read (R_drain len)" "\<not> in_read (E_check why)"
  "\<not> in_read (E_drain why)" "\<not> in_read (E_reap why)" "\<not> in_read Returned" "\<not> in_read (Raised e)"
  "in_end Next = None" "in_end (W_check ch bs) = None" "in_end (W_write ch bs) = None"
  "in_end (W_drain ch bs) = None" "in_end (R_check len) = None" "in_end (R_read len) = None"
  "in_end (R_drain len) = None" "in_end (E_check why) = Some why" "in_end (E_drain why) = Some why"
  "in_end (E_reap why) = Some why" "in_end Returned = None" "in_end (Raised e) = None"
  by (simp_all add: in_write_def in_read_def in_end_def)

text \<open>A loop of the backend, whatever round it is in.\<close>

definition phase :: "point \<Rightarrow> point" where
  "phase p =
     (case p of
        W_write ch bs \<Rightarrow> W_check ch bs | W_drain ch bs \<Rightarrow> W_check ch bs
      | R_read len \<Rightarrow> R_check len | R_drain len \<Rightarrow> R_check len
      | E_drain why \<Rightarrow> E_check why | _ \<Rightarrow> p)"

lemma phase_simps [simp]:
  "phase Next = Next" "phase (W_check ch bs) = W_check ch bs" "phase (W_write ch bs) = W_check ch bs"
  "phase (W_drain ch bs) = W_check ch bs" "phase (R_check len) = R_check len" "phase (R_read len) = R_check len"
  "phase (R_drain len) = R_check len" "phase (E_check why) = E_check why" "phase (E_drain why) = E_check why"
  "phase (E_reap why) = E_reap why" "phase Returned = Returned" "phase (Raised e) = Raised e"
  by (simp_all add: phase_def)

text \<open>An operation that is going to raise.\<close>

definition raising :: "point \<Rightarrow> bool" where
  "raising p \<longleftrightarrow> (case p of Raised e \<Rightarrow> True | _ \<Rightarrow> (case in_end p of Some (Reporting what) \<Rightarrow> True | _ \<Rightarrow> False))"

lemma raising_simps [simp]:
  "raising (Raised e)" "\<not> raising Next" "\<not> raising Returned" "\<not> raising (W_check ch bs)" "\<not> raising (W_write ch bs)"
  "\<not> raising (W_drain ch bs)" "\<not> raising (R_check len)" "\<not> raising (R_read len)" "\<not> raising (R_drain len)"
  "raising (E_check (Reporting what))" "raising (E_drain (Reporting what))" "raising (E_reap (Reporting what))"
  "\<not> raising (E_check Finishing)" "\<not> raising (E_drain Finishing)" "\<not> raising (E_reap Finishing)"
  "\<not> raising (E_check EndOfStream)" "\<not> raising (E_drain EndOfStream)" "\<not> raising (E_reap EndOfStream)"
  by (simp_all add: raising_def)

lemma raising_same: "raising (E_drain why) = raising (E_check why)" "raising (E_reap why) = raising (E_check why)"
  by (cases why; simp)+

text \<open>The steps, as the moves of the control point they are.\<close>

lemma bnext_cases:
  assumes "bnext env a c = Some c'"
  obtains
    (cancel) "a = Intr True" "in_write (bc_point c) \<noteq> None \<or> in_read (bc_point c) \<or> in_end (bc_point c) \<noteq> None" "c' = c\<lparr>bc_point := Raised query_canceled\<rparr>"
  | (loop) p where "c' = c\<lparr>bc_point := p\<rparr>" "in_write p = in_write (bc_point c)" "in_read p = in_read (bc_point c)"
      "in_end p = in_end (bc_point c)" "raising p = raising (bc_point c)" "p \<noteq> Next" "p \<noteq> Returned" "\<forall>e. p \<noteq> Raised e"
      "\<forall>why. p = E_reap why \<longrightarrow> h_err (hp (bc_be c)) < 0 \<or> bc_point c = p"
      "phase p = phase (bc_point c) \<or> (\<exists>why. bc_point c = E_check why \<and> p = E_reap why)"
      "a = Tau \<or> a = Intr False \<or> (\<exists>ch e. a = WriteAns ch (WriteErr e)) \<or> (\<exists>e. a = DataAns (ReadErr e))
        \<or> (\<exists>e. a = ErrAns (ReadErr e)) \<or> a = WaitAns (WaitErr EINTR)"
      "in_write (bc_point c) \<noteq> None \<or> in_read (bc_point c) \<or> in_end (bc_point c) \<noteq> None"
  | (keep) x xs where "a = ErrAns (Data x xs)" "0 \<le> h_err (hp (bc_be c))" "c' = c\<lparr>bc_be := keep_err (x # xs) (bc_be c)\<rparr>"
  | (closed) "a = ErrAns Eof" "0 \<le> h_err (hp (bc_be c))" "c' = c\<lparr>bc_be := close_err (bc_be c)\<rparr>"
  | (called) "a = Tau" "bc_point c = Next" "c' = call_step c"
  | (put) ch bs n where "a = WriteAns ch (Accept n)" "bc_point c = W_write ch bs"
      "c' = c\<lparr>bc_point := W_check ch (drop (min (Suc n) (length bs)) bs),
         bc_be := channel_accept ch (channel_wr ch (bc_be c)) (take (min (Suc n) (length bs)) bs) (bc_be c)\<rparr>"
  | (written) ch where "a = Tau" "bc_point c = W_check ch []" "c' = after_write env ch None c"
  | (unwritten) ch bs e where "a = Tau \<and> e = EBADF \<and> channel_fd ch (bc_be c) < 0
        \<or> a = WriteAns ch (WriteErr e) \<and> e \<notin> {EAGAIN, EWOULDBLOCK, EINTR}"
      "bc_point c = W_write ch bs" "c' = after_write env ch (Some e) c"
  | (got) len x xs where "a = DataAns (Data x xs)" "bc_point c = R_read len"
      "c' = c\<lparr>bc_point := Next, bc_got := bc_got c @ x # xs\<rparr>"
  | (eof) len where "a = DataAns Eof" "bc_point c = R_read len" "0 \<le> h_data (hp (bc_be c))"
      "c' = c\<lparr>bc_point := E_check EndOfStream, bc_be := close_data (bc_be c)\<rparr>"
  | (unread) len e where "a = Tau \<and> h_data (hp (bc_be c)) < 0 \<or> a = DataAns (ReadErr e) \<and> e \<notin> {EAGAIN, EWOULDBLOCK, EINTR}"
      "bc_point c = R_read len" "c' = c\<lparr>bc_point := E_check (Reporting ''error fetching chDB query result'')\<rparr>"
  | (over) why where "a = Tau" "bc_point c = E_reap why" "h_reaped (hp (bc_be c))"
      "c' = after_end env why (h_status (hp (bc_be c))) c"
  | (waited) why st e where "a = WaitAns (Ended st) \<and> e = None \<or> (\<exists>x. a = WaitAns (WaitErr x) \<and> x \<noteq> EINTR \<and> e = Some x \<and> st = -1)"
      "bc_point c = E_reap why" "\<not> h_reaped (hp (bc_be c))"
      "c' = after_end env why st (c\<lparr>bc_be := reaped_with st e (bc_be c)\<rparr>)"
proof (cases "bc_point c")
  case Next
  with assms called show ?thesis by (auto simp: bnext_def split: if_splits)
next
  case (W_check ch bs)
  with assms show ?thesis using written [of ch] cancel loop [of "W_write ch bs"]
    by (auto simp: bnext_def check_step_def split: if_splits answer.splits bool.splits)
next
  case (W_write ch bs)
  with assms show ?thesis using put [of ch _ bs] unwritten [of EBADF ch bs] unwritten [of _ ch bs]
      loop [of "W_drain ch bs"] loop [of "W_check ch bs"]
    by (auto simp: bnext_def write_step_def split: if_splits answer.splits write_event.splits)
next
  case (W_drain ch bs)
  with assms show ?thesis using keep closed loop [of "W_check ch bs"] loop [of "W_drain ch bs"]
    by (auto simp: bnext_def drain_step_def split: if_splits answer.splits read_event.splits)
next
  case (R_check len)
  with assms show ?thesis using cancel loop [of "R_read len"]
    by (auto simp: bnext_def check_step_def split: answer.splits bool.splits)
next
  case (R_read len)
  with assms show ?thesis using got [of _ _ len] eof [of len] unread [of _ len] loop [of "R_drain len"] loop [of "R_check len"]
    by (auto simp: bnext_def read_step_def Let_def split: if_splits answer.splits read_event.splits)
next
  case (R_drain len)
  with assms show ?thesis using keep closed loop [of "R_check len"] loop [of "R_drain len"]
    by (auto simp: bnext_def drain_step_def split: if_splits answer.splits read_event.splits)
next
  case (E_check why)
  show ?thesis
  proof (cases "h_err (hp (bc_be c)) < 0")
    case True
    with E_check assms show ?thesis by (intro loop [of "E_reap why"]) (auto simp: bnext_def raising_same split: if_splits)
  next
    case False
    with E_check assms show ?thesis using cancel loop [of "E_drain why"]
      by (auto simp: bnext_def raising_same check_step_def split: answer.splits bool.splits)
  qed
next
  case (E_drain why)
  with assms show ?thesis using keep closed loop [of "E_check why"] loop [of "E_drain why"]
    by (auto simp: bnext_def raising_same drain_step_def split: if_splits answer.splits read_event.splits)
next
  case (E_reap why)
  with assms show ?thesis using over [of why] waited [of _ None why] waited [of "-1" _ why] loop [of "E_reap why"]
    by (auto simp: bnext_def raising_same reap_step_def split: if_splits answer.splits wait_event.splits)
next
  case Returned
  with assms have False by (simp add: bnext_def)
  then show ?thesis ..
next
  case (Raised e)
  with assms have False by (simp add: bnext_def)
  then show ?thesis ..
qed

text \<open>What the steps do to the fields of the helper's record.\<close>

lemma be_simps [simp]:
  "bc_be (after_end env why st c) = bc_be c" "bc_ops (after_end env why st c) = bc_ops c"
  "bc_got (after_end env why st c) = bc_got c" "bc_ops (after_write env ch r c) = bc_ops c"
  "bc_got (after_write env ch r c) = bc_got c" "bc_got (call_step c) = bc_got c"
  by (cases why; cases ch; cases r; simp add: after_end_def after_write_def call_step_def split: list.split op.split)+

lemma hp_simps [simp]:
  "h_data (hp (keep_err bs b)) = h_data (hp b)" "h_setup (hp (keep_err bs b)) = h_setup (hp b)"
  "h_reaped (hp (keep_err bs b)) = h_reaped (hp b)" "h_status (hp (keep_err bs b)) = h_status (hp b)"
  "h_data (hp (close_err b)) = h_data (hp b)" "h_setup (hp (close_err b)) = h_setup (hp b)"
  "h_err (hp (close_err b)) = -1"
  "h_reaped (hp (close_err b)) = h_reaped (hp b)" "h_status (hp (close_err b)) = h_status (hp b)"
  "h_data (hp (close_data b)) = -1" "h_setup (hp (close_data b)) = h_setup (hp b)"
  "h_err (hp (close_data b)) = h_err (hp b)"
  "h_reaped (hp (close_data b)) = h_reaped (hp b)" "h_status (hp (close_data b)) = h_status (hp b)"
  "h_data (hp (close_setup b)) = h_data (hp b)" "h_setup (hp (close_setup b)) = -1"
  "h_err (hp (close_setup b)) = h_err (hp b)"
  "h_reaped (hp (close_setup b)) = h_reaped (hp b)" "h_status (hp (close_setup b)) = h_status (hp b)"
  "hp (channel_accept ch es bs b) = hp b"
  "h_data (hp (reaped_with st e b)) = h_data (hp b)" "h_setup (hp (reaped_with st e b)) = h_setup (hp b)"
  "h_err (hp (reaped_with st e b)) = h_err (hp b)" "h_reaped (hp (reaped_with st e b))"
  "h_status (hp (reaped_with st e b)) = st"
  by (cases ch; simp add: keep_err_def close_err_def close_data_def close_setup_def channel_accept_def reaped_with_def)+

section \<open>The two kinds of copy\<close>

lemma raising_after_end: "raising (E_reap why) \<Longrightarrow> raising (bc_point (after_end env why st c))"
  by (cases why) (simp_all add: after_end_def)

lemma bnext_raising: "bnext env a c = Some c' \<Longrightarrow> raising (bc_point c) \<Longrightarrow> raising (bc_point c')"
  by (erule bnext_cases) (simp_all add: raising_after_end)

text \<open>The backend of a COPY TO: while the data channel is open, and after it has been closed.\<close>

definition to_open :: "bconf \<Rightarrow> bool" where
  "to_open c \<longleftrightarrow>
     (\<exists>bss. bc_ops c = map OpWrite bss @ [OpFinish]) \<and> 0 \<le> h_data (hp (bc_be c))
     \<and> (0 \<le> h_setup (hp (bc_be c)) \<longleftrightarrow> (\<exists>bs. in_write (bc_point c) = Some (SetupChannel, bs)))
     \<and> (in_write (bc_point c) \<noteq> None \<or> bc_point c = Next)"

definition to_end :: "bconf \<Rightarrow> bool" where
  "to_end c \<longleftrightarrow>
     bc_ops c = [] \<and> h_data (hp (bc_be c)) < 0 \<and> h_setup (hp (bc_be c)) < 0
     \<and> (in_end (bc_point c) = Some Finishing
        \<or> (bc_point c = Next \<or> bc_point c = Returned) \<and> h_reaped (hp (bc_be c)) \<and> h_status (hp (bc_be c)) = 0)"

text \<open>The backend of a COPY FROM, likewise.\<close>

definition from_open :: "bconf \<Rightarrow> bool" where
  "from_open c \<longleftrightarrow>
     (\<exists>lens. bc_ops c = map OpRecv lens) \<and> 0 \<le> h_data (hp (bc_be c))
     \<and> (0 \<le> h_setup (hp (bc_be c)) \<longleftrightarrow> in_write (bc_point c) \<noteq> None)
     \<and> (case in_write (bc_point c) of Some (ch, bs) \<Rightarrow> ch = SetupChannel
        | None \<Rightarrow> bc_point c = Next \<or> in_read (bc_point c) \<or> bc_point c = Returned)"

definition from_end :: "bconf \<Rightarrow> bool" where
  "from_end c \<longleftrightarrow>
     h_data (hp (bc_be c)) < 0 \<and> h_setup (hp (bc_be c)) < 0
     \<and> (in_end (bc_point c) = Some EndOfStream
        \<or> bc_point c = Returned \<and> h_reaped (hp (bc_be c)) \<and> h_status (hp (bc_be c)) = 0)"

lemma to_open_call: "to_open c \<Longrightarrow> bc_point c = Next \<Longrightarrow> to_open (call_step c) \<or> to_end (call_step c)"
proof -
  assume o: "to_open c" "bc_point c = Next"
  then obtain bss where b: "bc_ops c = map OpWrite bss @ [OpFinish]" by (auto simp: to_open_def)
  from o b show ?thesis by (cases bss) (auto simp: to_open_def to_end_def call_step_def)
qed

lemma bnext_to_open:
  assumes "bnext env a c = Some c'" "to_open c"
  shows "raising (bc_point c') \<or> to_open c' \<or> to_end c'"
  using assms(1)
proof (cases rule: bnext_cases)
  case called
  with to_open_call [OF assms(2)] show ?thesis by simp
next
  case (written ch)
  with assms(2) show ?thesis by (cases ch) (auto simp: to_open_def after_write_def)
next
  case (unwritten ch bs e)
  then show ?thesis by (cases ch) (auto simp: after_write_def)
qed (use assms(2) in \<open>auto simp: to_open_def\<close>)

lemma bnext_to_end:
  assumes "bnext env a c = Some c'" "to_end c"
  shows "raising (bc_point c') \<or> to_end c'"
  using assms(1)
proof (cases rule: bnext_cases)
  case called
  with assms(2) show ?thesis by (auto simp: to_end_def call_step_def)
next
  case (loop p)
  with assms(2) show ?thesis by (auto simp: to_end_def)
qed (use assms(2) in \<open>auto simp: to_end_def after_end_def\<close>)

lemma bnext_from_open:
  assumes "bnext env a c = Some c'" "from_open c"
  shows "raising (bc_point c') \<or> from_open c' \<or> from_end c'"
  using assms(1)
proof (cases rule: bnext_cases)
  case called
  obtain lens where l: "bc_ops c = map OpRecv lens" using assms(2) by (auto simp: from_open_def)
  with called assms(2) show ?thesis by (cases lens) (auto simp: from_open_def call_step_def)
next
  case (written ch)
  with assms(2) show ?thesis by (auto simp: from_open_def after_write_def)
next
  case (unwritten ch bs e)
  then show ?thesis by (cases ch) (auto simp: after_write_def)
qed (use assms(2) in \<open>auto simp: from_open_def from_end_def split: option.splits\<close>)

lemma bnext_from_end:
  assumes "bnext env a c = Some c'" "from_end c"
  shows "raising (bc_point c') \<or> from_end c'"
  using assms(1)
proof (cases rule: bnext_cases)
  case (loop p)
  with assms(2) show ?thesis by (auto simp: from_end_def)
qed (use assms(2) in \<open>auto simp: from_end_def after_end_def\<close>)

lemma in_end_write: "in_end p = Some why \<Longrightarrow> in_write p = None"
  by (cases p) simp_all

lemma take_drop_append [simp]: "take n xs @ drop n xs @ ys = xs @ ys"
  by (simp only: append_assoc [symmetric] append_take_drop_id)

section \<open>Bytes that are still to be written\<close>

definition op_bytes :: "op \<Rightarrow> string" where
  "op_bytes op = (case op of OpWrite bs \<Rightarrow> bs | _ \<Rightarrow> [])"

definition pending :: "channel \<Rightarrow> bconf \<Rightarrow> string" where
  "pending ch c =
     (case in_write (bc_point c) of Some (ch', bs) \<Rightarrow> if ch' = ch then bs else [] | None \<Rightarrow> [])
     @ (if ch = DataChannel then concat (map op_bytes (bc_ops c)) else [])"

text \<open>The bytes an answer takes off the channel's debt, and those it delivers.\<close>

definition accepted :: "channel \<Rightarrow> answer \<Rightarrow> bconf \<Rightarrow> string" where
  "accepted ch a c =
     (case (a, in_write (bc_point c)) of
        (WriteAns ch' (Accept n), Some (ch'', bs)) \<Rightarrow> if ch' = ch then take (Suc n) bs else []
      | _ \<Rightarrow> [])"

definition delivered :: "answer \<Rightarrow> string" where
  "delivered a = (case a of DataAns (Data x xs) \<Rightarrow> x # xs | _ \<Rightarrow> [])"

lemma take_min_length: "take (min n (length xs)) xs = take n xs" "drop (min n (length xs)) xs = drop n xs"
  by (simp_all add: min_def)

lemma bnext_pending:
  assumes "bnext env a c = Some c'" "\<not> raising (bc_point c')"
  shows "pending ch c = accepted ch a c @ pending ch c'"
  using assms(1)
proof (cases rule: bnext_cases)
  case (loop p)
  then show ?thesis by (auto simp: pending_def accepted_def)
next
  case called
  then show ?thesis
    by (auto simp: pending_def accepted_def call_step_def op_bytes_def split: list.split op.split)
next
  case (put ch' bs n)
  then show ?thesis by (simp add: pending_def accepted_def take_min_length)
next
  case (written ch')
  then show ?thesis by (cases ch') (simp_all add: pending_def accepted_def after_write_def)
next
  case (unwritten ch' bs e)
  with assms(2) show ?thesis by (cases ch') (auto simp: after_write_def split: if_splits)
next
  case (over why)
  with assms(2) show ?thesis by (cases why) (auto simp: after_end_def pending_def accepted_def split: if_splits)
next
  case (waited why st e)
  with assms(2) show ?thesis by (cases why) (auto simp: after_end_def pending_def accepted_def split: if_splits)
qed (use assms(2) in \<open>simp_all add: pending_def accepted_def\<close>)

lemma bnext_got: "bnext env a c = Some c' \<Longrightarrow> bc_got c' = bc_got c @ delivered a"
  by (erule bnext_cases) (auto simp: delivered_def)

section \<open>What the kernel's answers mean\<close>

lemma alive_simps [simp]:
  "alive (s\<lparr>j_conf := c\<rparr>) = alive s" "alive (put_to ch bs s) = alive s" "alive (s\<lparr>j_err := x\<rparr>) = alive s"
  "alive (s\<lparr>j_from := x\<rparr>) = alive s"
  by (cases ch; simp add: alive_def put_to_def)+

lemma some_data_bytes: "k < length bs \<Longrightarrow> some_data k bs = Data x xs \<Longrightarrow> x # xs = take (Suc k) bs"
  by (cases bs) (auto simp: some_data_def)

lemma kernel_cases:
  assumes "kernel_answer K m s = Some (a, t)"
  obtains
    (same) "t = s" "\<forall>ch. accepted ch a (j_conf s) = []" "delivered a = []" "\<forall>x xs. a \<noteq> ErrAns (Data x xs)"
      "\<forall>ch n. a \<noteq> WriteAns ch (Accept n)"
      "a = ErrAns Eof \<Longrightarrow> \<not> alive s \<and> j_err s = []" "a = DataAns Eof \<Longrightarrow> \<not> alive s \<and> j_from s = []"
      "\<And>w. a = WaitAns (Ended w) \<Longrightarrow> j_helper s = H_exited w"
  | (put) ch bs k where "m = B_put k" "a = WriteAns ch (Accept k)" "j_point s = W_write ch bs" "alive s" "k < length bs"
      "length (pipe_to ch s) + Suc k \<le> cap_to K ch" "t = put_to ch (take (Suc k) bs) s"
  | (data) k x xs where "m = B_take k" "a = DataAns (Data x xs)" "x # xs = take (Suc k) (j_from s)" "k < length (j_from s)"
      "t = s\<lparr>j_from := drop (Suc k) (j_from s)\<rparr>"
  | (err) k x xs where "m = B_take k" "a = ErrAns (Data x xs)" "x # xs = take (Suc k) (j_err s)" "k < length (j_err s)"
      "t = s\<lparr>j_err := drop (Suc k) (j_err s)\<rparr>"
proof -
  have refused: ?thesis if "refuse (asks (j_conf s)) e = Some a" "t = s" for e
    using same that by (auto simp: refuse_def accepted_def delivered_def split: ask.splits option.splits)
  have w: "j_point s = W_write ch bs" if "asks (j_conf s) = AskWrite ch bs" for ch bs
    using that by (auto simp: asks_def Let_def split: point.splits if_splits)
  show ?thesis
  proof (cases m)
    case (B_put k)
    with assms show ?thesis using put w
      by (auto simp: kernel_answer_def Let_def split: ask.splits if_splits)
  next
    case (B_take k)
    with assms show ?thesis using data [of k] err [of k] some_data_bytes
      by (auto simp: kernel_answer_def Let_def some_data_def split: ask.splits if_splits)
  next
    case B_again
    with assms have "refuse (asks (j_conf s)) EINTR = Some a" "t = s" by (auto simp: kernel_answer_def Let_def)
    then show ?thesis by (rule refused)
  next
    case (B_fault e)
    with assms have "refuse (asks (j_conf s)) e = Some a" "t = s"
      by (auto simp: kernel_answer_def Let_def split: if_splits)
    then show ?thesis by (rule refused)
  qed (use assms same in \<open>auto simp: kernel_answer_def Let_def accepted_def delivered_def
      split: ask.splits if_splits hstate.splits option.splits\<close>)
qed

text \<open>The moves of the helper.\<close>

lemma hmove_cases:
  assumes "hmove_step K P m s = Some t"
  obtains
    (crash) sig where "m = H_crash sig" "alive s" "0 < sig" "t = s\<lparr>j_helper := H_exited (int sig)\<rparr>"
  | (interrupted) "m = H_fault EINTR" "alive s" "t = s"
  | (started) "j_helper s = H_exec" "t = s\<lparr>j_helper := hstart P\<rparr>"
  | (unstarted) st where "m = H_unplaced \<or> m = H_unexecuted" "j_helper s = H_exec" "0 < st"
      "t = s\<lparr>j_helper := H_exited (256 * st)\<rparr>"
  | (refused) cap buf msg where "j_helper s = H_setup cap buf" "setup_refused P cap buf = Some msg" "t = s\<lparr>j_helper := H_do [Say (line msg)] (Exit 1)\<rparr>"
  | (payload) cap buf k where "j_helper s = H_setup cap buf" "setup_refused P cap buf = None" "k < length (j_setup s)"
      "Suc k \<le> setup_room cap buf - length buf"
      "t = s\<lparr>j_helper := H_setup (setup_room cap buf) (buf @ take (Suc k) (j_setup s)), j_setup := drop (Suc k) (j_setup s)\<rparr>"
  | (unread) cap buf e where "m = H_fault e" "e \<noteq> EINTR" "j_helper s = H_setup cap buf"
      "t = s\<lparr>j_helper := H_do [Say (line unreadable)] (Exit 1)\<rparr>"
  | (planned) cap buf as th where "j_helper s = H_setup cap buf" "j_setup s = []" "h_setup (j_hp s) < 0"
      "setup_plan P buf = Some (as, th)" "t = s\<lparr>j_helper := H_do as th\<rparr>"
  | (noise) as th x xs where "j_helper s = H_do as th" "j_noise s = x # xs"
      "t = s\<lparr>j_helper := H_do (Say x # as) th, j_noise := xs\<rparr>"
  | (said) x as th where "j_helper s = H_do (Say x # as) th" "t = s\<lparr>j_helper := H_do as th\<rparr>"
  | (say) x as th k where "j_helper s = H_do (Say x # as) th" "k < length x" "length (j_err s) + Suc k \<le> err_cap K"
      "t = s\<lparr>j_helper := H_do (Say (drop (Suc k) x) # as) th, j_err := j_err s @ take (Suc k) x\<rparr>"
  | (sent) as th where "j_helper s = H_do (Send [] # as) th" "t = s\<lparr>j_helper := H_do as th\<rparr>"
  | (send) x as th k where "j_helper s = H_do (Send x # as) th" "k < length x" "0 \<le> h_data (j_hp s)"
      "length (j_from s) + Suc k \<le> data_cap K"
      "t = s\<lparr>j_helper := H_do (Send (drop (Suc k) x) # as) th, j_from := j_from s @ take (Suc k) x\<rparr>"
  | (lost) x as th where "j_helper s = H_do (Send x # as) th" "x \<noteq> []"
      "h_data (j_hp s) < 0 \<or> (\<exists>e. m = H_fault e \<and> e \<noteq> EINTR)" "t = s\<lparr>j_helper := H_do [] (Exit LOST_BACKEND)\<rparr>"
  | (exits) st where "j_helper s = H_do [] (Exit st)" "t = s\<lparr>j_helper := H_exited (256 * int st)\<rparr>"
  | (append) k where "j_helper s = H_do [] Input" "k < length (j_to s)"
      "lib_append (pr_lib P) (j_taken s) (take (Suc k) (j_to s)) = None"
      "t = s\<lparr>j_helper := H_do [] Input, j_to := drop (Suc k) (j_to s), j_taken := j_taken s @ take (Suc k) (j_to s)\<rparr>"
  | (unappended) k msg where "j_helper s = H_do [] Input" "k < length (j_to s)"
      "lib_append (pr_lib P) (j_taken s) (take (Suc k) (j_to s)) \<noteq> None"
      "t = s\<lparr>j_helper := H_do [Say (line msg)] (Exit 1), j_to := drop (Suc k) (j_to s)\<rparr>"
  | (unreceived) e where "m = H_fault e" "e \<noteq> EINTR" "j_helper s = H_do [] Input"
      "t = s\<lparr>j_helper := H_do [] (Exit LOST_BACKEND)\<rparr>"
  | (finished) as th where "j_helper s = H_do [] Input" "j_to s = []" "h_data (j_hp s) < 0"
      "done_plan (pr_lib P) (j_taken s) = (as, th)" "t = s\<lparr>j_helper := H_do as th\<rparr>"
proof (cases "j_helper s")
  case H_exec
  with assms started unstarted [of 126] unstarted [of 127] crash show ?thesis
    by (auto simp: hmove_step_def exec_move_def alive_def split: hmove.splits if_splits)
next
  case (H_setup cap buf)
  then have al: "alive s" by (simp add: alive_def)
  show ?thesis
  proof (cases "\<exists>sig. m = H_crash sig")
    case True
    with assms H_setup crash show ?thesis by (auto simp: hmove_step_def alive_def split: if_splits)
  next
    case False
    with assms H_setup have a: "setup_move P m cap buf s = Some t"
      by (auto simp: hmove_step_def split: hmove.splits)
    show ?thesis
    proof (cases "setup_refused P cap buf")
      case None
      show ?thesis
      proof (cases m)
        case (H_take k)
        with a None H_setup payload [of cap buf k] show ?thesis by (simp add: setup_move_def split: if_splits)
      next
        case H_end
        with a None obtain p where "j_setup s = []" "h_setup (j_hp s) < 0" "setup_plan P buf = Some p"
          "t = s\<lparr>j_helper := goes_on p\<rparr>"
          by (auto simp: setup_move_def split: if_splits)
        with H_setup planned [of cap buf "fst p" "snd p"] show ?thesis by (simp add: goes_on_def)
      next
        case (H_fault e)
        show ?thesis
        proof (cases "e = EINTR")
          case True
          with a None H_fault interrupted [OF _ al] show ?thesis by (simp add: setup_move_def)
        next
          case False
          with a None H_setup H_fault unread [of e cap buf] show ?thesis by (simp add: setup_move_def)
        qed
      qed (use a None in \<open>simp_all add: setup_move_def\<close>)
    next
      case (Some msg)
      with a show ?thesis using H_setup refused [of cap buf msg] by (auto simp: setup_move_def split: if_splits)
    qed
  qed
next
  case (H_do as th)
  then have al: "alive s" by (simp add: alive_def)
  consider sig where "m = H_crash sig" | "m = H_noise" | "\<forall>sig. m \<noteq> H_crash sig" "m \<noteq> H_noise" by blast
  then show ?thesis
  proof cases
    case 1
    with assms H_do crash show ?thesis by (auto simp: hmove_step_def alive_def split: if_splits)
  next
    case 2
    with assms H_do noise show ?thesis by (auto simp: hmove_step_def split: list.splits)
  next
    case 3
    with assms H_do have p: "plan_move K P m as th s = Some t"
      by (auto simp: hmove_step_def split: hmove.splits)
    show ?thesis
    proof (cases as)
      case Nil
      show ?thesis
      proof (cases th)
        case (Exit st)
        with p Nil H_do exits show ?thesis by (auto simp: plan_move_def split: if_splits)
      next
        case Input
        with p Nil have i: "input_move P m s = Some t" by (simp add: plan_move_def)
        with Input Nil H_do show ?thesis
        proof (cases m)
          case (H_take k)
          with i have k: "k < length (j_to s)" by (auto simp: input_move_def split: if_splits)
          show ?thesis
          proof (cases "lib_append (pr_lib P) (j_taken s) (take (Suc k) (j_to s))")
            case None
            with i k H_take H_do Nil Input show ?thesis
              by (intro append [of k]) (auto simp: input_move_def Let_def append_plan_def goes_on_def split: if_splits)
          next
            case (Some e)
            with i k H_take H_do Nil Input show ?thesis
              by (intro unappended [of k "case e of Some msg \<Rightarrow> msg | None \<Rightarrow> ''chdb: append failed''"])
                (auto simp: input_move_def Let_def append_plan_def goes_on_def split: if_splits)
          qed
        next
          case H_end
          with i H_do Nil Input show ?thesis
            by (intro finished [of "fst (done_plan (pr_lib P) (j_taken s))" "snd (done_plan (pr_lib P) (j_taken s))"])
              (auto simp: input_move_def goes_on_def split: if_splits)
        next
          case (H_fault e)
          show ?thesis
          proof (cases "e = EINTR")
            case True
            with i H_fault interrupted [OF _ al] show ?thesis by (simp add: input_move_def)
          next
            case False
            with i H_do Nil Input H_fault unreceived [of e] show ?thesis by (simp add: input_move_def)
          qed
        qed (use i in \<open>simp_all add: input_move_def\<close>)
      qed
    next
      case (Cons x r)
      show ?thesis
      proof (cases x)
        case (Say y)
        with p Cons have q: "say_move K m y r th s = Some t" by (simp add: plan_move_def)
        show ?thesis
        proof (cases "t = s\<lparr>j_helper := H_do r th\<rparr>")
          case True
          with Say Cons H_do said [of y r th] show ?thesis by simp
        next
          case False
          with q Say Cons H_do say [of y r th] show ?thesis
            by (auto simp: say_move_def write_fails_def split: if_splits hmove.splits)
        qed
      next
        case (Send y)
        with p Cons have q: "send_move K m y r th s = Some t" by (simp add: plan_move_def)
        show ?thesis
        proof (cases "y = []")
          case True
          with q Send Cons H_do sent [of r th] show ?thesis by (simp add: send_move_def split: if_splits)
        next
          case ne: False
          show ?thesis
          proof (cases m)
            case (H_put k)
            with q ne Send Cons H_do send [of y r th k] show ?thesis by (simp add: send_move_def split: if_splits)
          next
            case H_lost
            with q ne Send Cons H_do lost [of y r th] show ?thesis
              by (simp add: send_move_def write_fails_def split: if_splits)
          next
            case (H_fault e)
            show ?thesis
            proof (cases "e = EINTR")
              case True
              with q ne H_fault interrupted [OF _ al] show ?thesis by (simp add: send_move_def write_fails_def)
            next
              case False
              with q ne H_fault have "t = s\<lparr>j_helper := H_do [] (Exit LOST_BACKEND)\<rparr>"
                by (simp add: send_move_def write_fails_def)
              with False ne H_fault Send Cons H_do lost [of y r th] show ?thesis by simp
            qed
          qed (use q ne in \<open>simp_all add: send_move_def write_fails_def\<close>)
        qed
      qed
    qed
  qed
next
  case (H_exited w)
  with assms have False by (cases m) (simp_all add: hmove_step_def)
  then show ?thesis ..
qed

lemma bmove_cases:
  assumes "bmove_step env K m s = Some t"
  obtains a u c where "kernel_answer K m s = Some (a, u)" "bnext env a (j_conf s) = Some c" "t = u\<lparr>j_conf := c\<rparr>"
  using assms by (auto simp: bmove_step_def split: option.splits)

section \<open>Who has ended\<close>

text \<open>
  The error channel ends and the child is collected only after the helper has gone.
\<close>

definition linked :: "joint \<Rightarrow> bool" where
  "linked s \<longleftrightarrow>
     (h_err (j_hp s) < 0 \<longrightarrow> \<not> alive s) \<and> (\<forall>why. j_point s = E_reap why \<longrightarrow> h_err (j_hp s) < 0)
     \<and> (h_reaped (j_hp s) \<longrightarrow> (\<exists>w. j_helper s = H_exited w \<and> (h_status (j_hp s) = w \<or> h_status (j_hp s) = -1)))"

lemma hmove_alive: "hmove_step K P m s = Some t \<Longrightarrow> alive s \<and> j_conf t = j_conf s"
  by (erule hmove_cases) (simp_all add: alive_def)

lemma linked_hmove:
  assumes "hmove_step K P m s = Some t" "linked s"
  shows "linked t"
  using hmove_alive [OF assms(1)] assms(2) by (auto simp: linked_def alive_def)

lemma call_step_hp [simp]:
  "h_err (hp (bc_be (call_step c))) = h_err (hp (bc_be c))" "h_reaped (hp (bc_be (call_step c))) = h_reaped (hp (bc_be c))"
  "h_status (hp (bc_be (call_step c))) = h_status (hp (bc_be c))"
  "h_setup (hp (bc_be (call_step c))) = h_setup (hp (bc_be c))"
  by (simp_all add: call_step_def split: list.split op.split)

lemma after_write_hp [simp]:
  "h_err (hp (bc_be (after_write env ch r c))) = h_err (hp (bc_be c))"
  "h_reaped (hp (bc_be (after_write env ch r c))) = h_reaped (hp (bc_be c))"
  "h_status (hp (bc_be (after_write env ch r c))) = h_status (hp (bc_be c))"
  "h_data (hp (bc_be (after_write env ch r c))) = h_data (hp (bc_be c))"
  by (cases ch; cases r; simp add: after_write_def)+

lemma after_end_point [simp]: "bc_point (after_end env why st c) \<noteq> E_reap w"
  by (simp add: after_end_def split: cause.split)

lemma after_write_point [simp]: "bc_point (after_write env ch r c) \<noteq> E_reap w"
  by (cases ch; cases r) (simp_all add: after_write_def)

lemma kernel_frame:
  assumes "kernel_answer K m s = Some (a, u)"
  shows "j_helper u = j_helper s" "j_conf u = j_conf s" "j_taken u = j_taken s" "j_noise u = j_noise s" "alive u = alive s"
  using assms by (cases rule: kernel_cases; auto simp: put_to_def alive_def split: channel.splits)+

lemma linked_bmove:
  assumes "bmove_step env K m s = Some t" "linked s"
  shows "linked t"
proof -
  obtain a u c where k: "kernel_answer K m s = Some (a, u)" "bnext env a (j_conf s) = Some c" "t = u\<lparr>j_conf := c\<rparr>"
    using assms(1) by (rule bmove_cases)
  note f = kernel_frame [OF k(1)]
  have e: "\<not> alive s" if "a = ErrAns Eof" using k(1) that by (cases rule: kernel_cases) auto
  have w: "j_helper s = H_exited v" if "a = WaitAns (Ended v)" for v using k(1) that by (cases rule: kernel_cases) auto
  from k(2) show ?thesis
  proof (cases rule: bnext_cases)
    case (loop p)
    then have "\<forall>why. p = E_reap why \<longrightarrow> h_err (j_hp s) < 0 \<or> j_point s = p" by blast
    with assms(2) f k(3) loop(1) show ?thesis by (simp add: linked_def) metis
  next
    case called
    have "bc_point (call_step (j_conf s)) \<noteq> E_reap why" for why by (simp add: call_step_def split: list.split op.split)
    with called assms(2) f k(3) show ?thesis by (auto simp: linked_def)
  next
    case (written ch)
    then show ?thesis using assms(2) f k(3) by (auto simp: linked_def)
  next
    case (unwritten ch bs x)
    then show ?thesis using assms(2) f k(3) by (auto simp: linked_def)
  next
    case (over why)
    then show ?thesis using assms(2) f k(3) by (auto simp: linked_def)
  next
    case (waited why st x)
    have "\<not> alive s" using assms(2) waited(2) by (simp add: linked_def)
    then obtain v where v: "j_helper s = H_exited v" by (auto simp: alive_def split: hstate.splits)
    with w waited(1) have "st = v \<or> st = -1" by auto
    then show ?thesis using v waited assms(2) f k(3) by (auto simp: linked_def alive_def)
  qed (use assms(2) f k(3) e in \<open>auto simp: linked_def alive_def\<close>)
qed

section \<open>Nothing is lost between the two\<close>

text \<open>A step of the backend moves bytes between its debt, the channels and what it has received.\<close>

lemma bmove_bytes:
  assumes "bmove_step env K m s = Some t" "\<not> raising (j_point t)"
  shows "j_setup t @ pending SetupChannel (j_conf t) = j_setup s @ pending SetupChannel (j_conf s)"
    "j_to t @ pending DataChannel (j_conf t) = j_to s @ pending DataChannel (j_conf s)"
    "bc_got (j_conf t) @ j_from t = bc_got (j_conf s) @ j_from s"
proof -
  obtain a u c where k: "kernel_answer K m s = Some (a, u)" "bnext env a (j_conf s) = Some c" "t = u\<lparr>j_conf := c\<rparr>"
    using assms(1) by (rule bmove_cases)
  have p: "pending ch (j_conf s) = accepted ch a (j_conf s) @ pending ch c" for ch
    using bnext_pending [OF k(2)] assms(2) k(3) by simp
  note g = bnext_got [OF k(2)]
  have "j_setup t @ pending SetupChannel (j_conf t) = j_setup s @ pending SetupChannel (j_conf s)
    \<and> j_to t @ pending DataChannel (j_conf t) = j_to s @ pending DataChannel (j_conf s)
    \<and> bc_got (j_conf t) @ j_from t = bc_got (j_conf s) @ j_from s"
    using k(1)
  proof (cases rule: kernel_cases)
    case (put ch bs n)
    then show ?thesis using p k(3) g by (cases ch) (auto simp: accepted_def put_to_def delivered_def)
  next
    case (data n x xs)
    then have "delivered a @ drop (Suc n) (j_from s) = take (Suc n) (j_from s) @ drop (Suc n) (j_from s)"
      by (simp add: delivered_def)
    with data p k(3) g show ?thesis by (simp add: accepted_def del: append_take_drop_id) simp
  next
    case (err n x xs)
    with p k(3) g show ?thesis by (simp add: accepted_def delivered_def)
  qed (use p k(3) g in simp)
  then show "j_setup t @ pending SetupChannel (j_conf t) = j_setup s @ pending SetupChannel (j_conf s)"
    "j_to t @ pending DataChannel (j_conf t) = j_to s @ pending DataChannel (j_conf s)"
    "bc_got (j_conf t) @ j_from t = bc_got (j_conf s) @ j_from s" by blast+
qed

lemma bmove_frame:
  assumes "bmove_step env K m s = Some t"
  shows "j_helper t = j_helper s" "j_taken t = j_taken s" "j_noise t = j_noise s" "alive t = alive s"
  using assms by (rule bmove_cases; auto dest: kernel_frame)+

lemma bmove_conf:
  assumes "bmove_step env K m s = Some t"
  obtains a where "bnext env a (j_conf s) = Some (j_conf t)" "a = DataAns Eof \<Longrightarrow> \<not> alive s \<and> j_from t = []"
proof -
  obtain a u c where k: "kernel_answer K m s = Some (a, u)" "bnext env a (j_conf s) = Some c" "t = u\<lparr>j_conf := c\<rparr>"
    using assms by (rule bmove_cases)
  have "\<not> alive s \<and> j_from u = []" if "a = DataAns Eof" using k(1) that by (cases rule: kernel_cases) auto
  with k that show thesis by auto
qed

fun sends :: "haction list \<Rightarrow> string" where
  "sends [] = []"
| "sends (Send x # as) = x @ sends as"
| "sends (Say x # as) = sends as"

section \<open>COPY FROM\<close>

text \<open>
  The stream of a COPY FROM: what was received, what is in the channel and what the helper has
  still to send make up the result \<open>res\<close>, as long as the helper is on its way to status 0; otherwise
  they are a head of it.
\<close>

definition from_bytes :: "string \<Rightarrow> string \<Rightarrow> bool \<Rightarrow> joint \<Rightarrow> bool" where
  "from_bytes payload res ok s \<longleftrightarrow>
     (let got = bc_got (j_conf s) @ j_from s
      in case j_helper s of
           H_exec \<Rightarrow> j_setup s @ pending SetupChannel (j_conf s) = payload \<and> got = []
         | H_setup cap buf \<Rightarrow> buf @ j_setup s @ pending SetupChannel (j_conf s) = payload \<and> got = []
         | H_do as th \<Rightarrow> th \<noteq> Input \<and> prefix (got @ sends as) res \<and> (th = Exit 0 \<longrightarrow> ok \<and> got @ sends as = res)
         | H_exited w \<Rightarrow> prefix got res \<and> (w = 0 \<longrightarrow> ok \<and> got = res))"

definition from_inv :: "string \<Rightarrow> string \<Rightarrow> bool \<Rightarrow> joint \<Rightarrow> bool" where
  "from_inv payload res ok s \<longleftrightarrow>
     raising (j_point s)
     \<or> (from_open (j_conf s) \<or> from_end (j_conf s) \<and> \<not> alive s \<and> j_from s = []) \<and> from_bytes payload res ok s"

lemma from_inv_bmove:
  assumes "bmove_step env K m s = Some t" "from_inv payload res ok s"
  shows "from_inv payload res ok t"
proof (cases "raising (j_point t)")
  case False
  obtain a where a: "bnext env a (j_conf s) = Some (j_conf t)" "a = DataAns Eof \<Longrightarrow> \<not> alive s \<and> j_from t = []"
    using assms(1) by (rule bmove_conf) blast
  have r: "\<not> raising (j_point s)" using bnext_raising [OF a(1)] False by blast
  note f = bmove_frame [OF assms(1)] and b = bmove_bytes [OF assms(1) False]
  have bytes: "from_bytes payload res ok t"
    using assms(2) r f b by (auto simp: from_inv_def from_bytes_def Let_def split: hstate.splits)
  from assms(2) r consider "from_open (j_conf s)" | "from_end (j_conf s)" "\<not> alive s" "j_from s = []"
    by (auto simp: from_inv_def)
  then show ?thesis
  proof cases
    case 1
    have "\<not> alive s \<and> j_from t = []" if "from_end (j_conf t)"
      using a(1)
    proof (cases rule: bnext_cases)
      case (eof len)
      with a(2) show ?thesis by simp
    next
      case called
      then show ?thesis using 1 that
        by (auto simp: from_open_def from_end_def call_step_def split: list.splits op.splits)
    qed (use 1 that in \<open>auto simp: from_open_def from_end_def\<close>)
    with bnext_from_open [OF a(1) 1] False f bytes show ?thesis by (auto simp: from_inv_def)
  next
    case 2
    have "j_from t = []"
      using a(1)
    proof (cases rule: bnext_cases)
      case (got len x xs)
      then show ?thesis using 2 by (auto simp: from_end_def)
    qed (use b(3) 2 bnext_got [OF a(1)] in \<open>auto simp: delivered_def\<close>)
    with bnext_from_end [OF a(1) 2(1)] False f 2 bytes show ?thesis by (auto simp: from_inv_def)
  qed
qed (simp add: from_inv_def)

text \<open>A helper that reads the end of its setup has read all of it.\<close>

lemma from_planned:
  assumes "from_open (j_conf s) \<or> from_end (j_conf s)" "from_bytes payload res ok s"
    and "j_helper s = H_setup cap buf" "j_setup s = []" "h_setup (j_hp s) < 0"
  shows "buf = payload" "bc_got (j_conf s) @ j_from s = []"
proof -
  have "pending SetupChannel (j_conf s) = []"
    using assms(1,5) by (auto simp: from_open_def from_end_def pending_def dest: in_end_write split: option.splits)
  with assms(2-4) show "buf = payload" "bc_got (j_conf s) @ j_from s = []" by (simp_all add: from_bytes_def)
qed

lemma from_inv_hmove:
  assumes "hmove_step K P m s = Some t" "from_inv payload res ok s"
    and "setup_plan P payload = Some (fas, fth)" "fth \<noteq> Input" "res = sends fas" "ok = (fth = Exit 0)"
  shows "from_inv payload res ok t"
proof (cases "raising (j_point s)")
  case True
  with hmove_alive [OF assms(1)] show ?thesis by (simp add: from_inv_def)
next
  case False
  have l: "alive s" "j_conf t = j_conf s" using hmove_alive [OF assms(1)] by simp_all
  with False assms(2) have o: "from_open (j_conf s)" and b: "from_bytes payload res ok s"
    by (auto simp: from_inv_def)
  have "from_bytes payload res ok t"
    using assms(1)
  proof (cases rule: hmove_cases)
    case (planned cap buf as th)
    with from_planned [OF _ b planned(1-3)] o have "buf = payload" "bc_got (j_conf s) @ j_from s = []" by simp_all
    with planned assms(3-6) show ?thesis by (auto simp: from_bytes_def)
  next
    case (payload cap buf k)
    with b show ?thesis by (simp add: from_bytes_def)
  next
    case (send x as th k)
    with b show ?thesis by (simp add: from_bytes_def Let_def)
  next
    case (lost x as th)
    with b have "prefix ((bc_got (j_conf s) @ j_from s) @ x @ sends as) res" by (simp add: from_bytes_def)
    from append_prefixD [OF this] lost show ?thesis by (simp add: from_bytes_def LOST_BACKEND_def)
  next
    case (crash sig)
    have "prefix (bc_got (j_conf s) @ j_from s) res"
      using b append_prefixD [of "bc_got (j_conf s) @ j_from s"]
      by (auto simp: from_bytes_def Let_def split: hstate.splits simp del: append_assoc)
    with crash show ?thesis by (simp add: from_bytes_def)
  qed (use b in \<open>auto simp: from_bytes_def Let_def hstart_def dest: append_prefixD\<close>)
  with o l show ?thesis by (simp add: from_inv_def)
qed

section \<open>COPY TO\<close>

text \<open>
  The stream of a COPY TO: what the helper has appended, what is in the channel and what the backend
  has still to write make up all its blocks; the helper is on its way to status 0 only when it has
  appended all of them and chDB has accepted the insert.
\<close>

definition to_bytes :: "chdb_lib \<Rightarrow> string \<Rightarrow> string \<Rightarrow> joint \<Rightarrow> bool" where
  "to_bytes lib payload blocks s \<longleftrightarrow>
     (let done = (j_taken s = blocks \<and> lib_done lib blocks = None);
          rest = j_to s @ pending DataChannel (j_conf s)
      in case j_helper s of
           H_exec \<Rightarrow> j_setup s @ pending SetupChannel (j_conf s) = payload \<and> j_taken s = [] \<and> rest = blocks
         | H_setup cap buf \<Rightarrow> buf @ j_setup s @ pending SetupChannel (j_conf s) = payload \<and> j_taken s = [] \<and> rest = blocks
         | H_do as th \<Rightarrow> (th = Input \<longrightarrow> j_taken s @ rest = blocks) \<and> (th = Exit 0 \<longrightarrow> done)
         | H_exited w \<Rightarrow> w = 0 \<longrightarrow> done)"

definition to_inv :: "chdb_lib \<Rightarrow> string \<Rightarrow> string \<Rightarrow> joint \<Rightarrow> bool" where
  "to_inv lib payload blocks s \<longleftrightarrow>
     raising (j_point s) \<or> (to_open (j_conf s) \<or> to_end (j_conf s)) \<and> to_bytes lib payload blocks s"

lemma to_inv_bmove:
  assumes "bmove_step env K m s = Some t" "to_inv lib payload blocks s"
  shows "to_inv lib payload blocks t"
proof (cases "raising (j_point t)")
  case False
  obtain a where a: "bnext env a (j_conf s) = Some (j_conf t)"
    using assms(1) by (rule bmove_conf)
  have r: "\<not> raising (j_point s)" using bnext_raising [OF a] False by blast
  note f = bmove_frame [OF assms(1)] and b = bmove_bytes [OF assms(1) False]
  have "to_bytes lib payload blocks t"
    using assms(2) r f b by (auto simp: to_inv_def to_bytes_def Let_def split: hstate.splits)
  with assms(2) r False bnext_to_open [OF a] bnext_to_end [OF a] show ?thesis by (auto simp: to_inv_def)
qed (simp add: to_inv_def)

lemma to_planned:
  assumes "to_open (j_conf s) \<or> to_end (j_conf s)" "to_bytes lib payload blocks s"
    and "j_helper s = H_setup cap buf" "j_setup s = []" "h_setup (j_hp s) < 0"
  shows "buf = payload"
proof -
  have "pending SetupChannel (j_conf s) = []"
    using assms(1,5) by (auto simp: to_open_def to_end_def pending_def dest: in_end_write split: option.splits)
  with assms(2-4) show ?thesis by (simp add: to_bytes_def)
qed

lemma to_finished:
  assumes "to_open (j_conf s) \<or> to_end (j_conf s)" "to_bytes lib payload blocks s"
    and "j_helper s = H_do [] Input" "j_to s = []" "h_data (j_hp s) < 0"
  shows "j_taken s = blocks"
proof -
  have "to_end (j_conf s)" using assms(1,5) by (auto simp: to_open_def)
  then have "in_write (j_point s) = None" "bc_ops (j_conf s) = []" by (auto simp: to_end_def dest: in_end_write)
  then have "pending DataChannel (j_conf s) = []" by (simp add: pending_def)
  with assms(2-4) show ?thesis by (simp add: to_bytes_def)
qed

lemma to_inv_hmove:
  assumes "hmove_step K P m s = Some t" "to_inv (pr_lib P) payload blocks s"
    and "\<And>as. setup_plan P payload \<noteq> Some (as, Exit 0)"
  shows "to_inv (pr_lib P) payload blocks t"
proof (cases "raising (j_point s)")
  case True
  with hmove_alive [OF assms(1)] show ?thesis by (simp add: to_inv_def)
next
  case False
  have l: "j_conf t = j_conf s" using hmove_alive [OF assms(1)] by simp
  from False assms(2) have o: "to_open (j_conf s) \<or> to_end (j_conf s)" and b: "to_bytes (pr_lib P) payload blocks s"
    by (auto simp: to_inv_def)
  have "to_bytes (pr_lib P) payload blocks t"
    using assms(1)
  proof (cases rule: hmove_cases)
    case (planned cap buf as th)
    then have p: "buf = payload" "j_taken s = []" "j_to s @ pending DataChannel (j_conf s) = blocks"
      using to_planned [OF o b planned(1-3)] b by (simp_all add: to_bytes_def)
    have "th \<noteq> Exit 0" using assms(3) [of as] planned(4) p(1) by auto
    with planned p show ?thesis by (auto simp: to_bytes_def)
  next
    case (payload cap buf k)
    with b show ?thesis by (simp add: to_bytes_def)
  next
    case (append k)
    with b have "(j_taken s @ take (Suc k) (j_to s)) @ drop (Suc k) (j_to s) @ pending DataChannel (j_conf s) = blocks"
      by (simp add: to_bytes_def)
    with append show ?thesis by (simp add: to_bytes_def)
  next
    case (finished as th)
    from to_finished [OF o b finished(1-3)] have "j_taken s = blocks" .
    with finished show ?thesis by (auto simp: to_bytes_def done_plan_def Let_def split: option.splits)
  qed (use b in \<open>auto simp: to_bytes_def Let_def LOST_BACKEND_def hstart_def\<close>)
  with o l show ?thesis by (simp add: to_inv_def)
qed

section \<open>All runs\<close>

lemma linked_start: "just_forked b \<Longrightarrow> linked (jstart noise payload ops b)"
  by (simp add: linked_def just_forked_def jstart_def bstart_def)

text \<open>An invariant of the moves of both processes holds along every run.\<close>

lemma jreach_rule:
  assumes "jreach env K P ok s t" "I s"
    and "\<And>m s t. ok (Backend m) \<Longrightarrow> I s \<Longrightarrow> bmove_step env K m s = Some t \<Longrightarrow> I t"
    and "\<And>m s t. ok (Helper m) \<Longrightarrow> I s \<Longrightarrow> hmove_step K P m s = Some t \<Longrightarrow> I t"
  shows "I t"
  using assms(1,2)
proof (induction rule: jreach.induct)
  case (jstep s t m u)
  then show ?case using assms(3,4) by (cases m) (auto simp: jdo_def)
qed

lemma from_run:
  assumes "jreach env K P ok (jstart noise payload (map OpRecv lens) b) s" "just_forked b"
    and "setup_plan P payload = Some (fas, fth)" "fth \<noteq> Input"
  shows "from_inv payload (sends fas) (fth = Exit 0) s \<and> linked s"
proof (rule jreach_rule [OF assms(1)])
  show "from_inv payload (sends fas) (fth = Exit 0) (jstart noise payload (map OpRecv lens) b)
      \<and> linked (jstart noise payload (map OpRecv lens) b)"
    using assms(2) linked_start [OF assms(2)]
    by (auto simp: from_inv_def from_open_def from_bytes_def jstart_def bstart_def just_forked_def pending_def)
next
  fix m u t
  assume i: "from_inv payload (sends fas) (fth = Exit 0) u \<and> linked u"
  show "bmove_step env K m u = Some t \<Longrightarrow> from_inv payload (sends fas) (fth = Exit 0) t \<and> linked t"
    using i from_inv_bmove linked_bmove by blast
next
  fix m u t
  assume i: "from_inv payload (sends fas) (fth = Exit 0) u \<and> linked u" "hmove_step K P m u = Some t"
  show "from_inv payload (sends fas) (fth = Exit 0) t \<and> linked t"
    using i from_inv_hmove [OF i(2) _ assms(3,4) refl refl] linked_hmove [OF i(2)] by simp
qed

lemma to_run:
  assumes "jreach env K P ok (jstart noise payload (map OpWrite bss @ [OpFinish]) b) s" "just_forked b"
    and "\<And>as. setup_plan P payload \<noteq> Some (as, Exit 0)"
  shows "to_inv (pr_lib P) payload (concat bss) s \<and> linked s"
proof (rule jreach_rule [OF assms(1)])
  have "concat (map (op_bytes \<circ> OpWrite) bss) = concat bss" by (induction bss) (simp_all add: op_bytes_def)
  then show "to_inv (pr_lib P) payload (concat bss) (jstart noise payload (map OpWrite bss @ [OpFinish]) b)
      \<and> linked (jstart noise payload (map OpWrite bss @ [OpFinish]) b)"
    using assms(2) linked_start [OF assms(2)]
    by (auto simp: to_inv_def to_open_def to_bytes_def jstart_def bstart_def just_forked_def pending_def op_bytes_def)
next
  fix m u t
  assume i: "to_inv (pr_lib P) payload (concat bss) u \<and> linked u"
  show "bmove_step env K m u = Some t \<Longrightarrow> to_inv (pr_lib P) payload (concat bss) t \<and> linked t"
    using i to_inv_bmove linked_bmove by blast
next
  fix m u t
  assume i: "to_inv (pr_lib P) payload (concat bss) u \<and> linked u" "hmove_step K P m u = Some t"
  show "to_inv (pr_lib P) payload (concat bss) t \<and> linked t"
    using i to_inv_hmove [OF i(2) _ assms(3)] linked_hmove [OF i(2)] by simp
qed

section \<open>What a copy may rely on\<close>

lemma chunk_plan_value:
  "chunks_value cs = (bs, e) \<Longrightarrow> \<exists>as. chunk_plan cs = (as, case e of None \<Rightarrow> Exit 0 | Some m \<Rightarrow> Exit 1) \<and> sends as = bs"
proof (induction cs arbitrary: bs rule: chunk_plan.induct)
  case (3 b cs)
  then show ?case by (cases "b = []") (auto split: prod.splits)
qed auto

lemma select_plan_value:
  assumes "parse_setup (pr_alloc P) (pr_endian P) payload = Inr req" "length (req_timezone req) < 2 ^ 31"
    and "cmd (req_ctx req) = CHDB_CMD_SELECT"
    and "chunks_value (lib_fetch (pr_lib P) (req_query req) (req_params req)) = (res, failure)"
  obtains as th where "setup_plan P payload = Some (as, th)" "th \<noteq> Input" "prefix (sends as) res"
    "th = Exit 0 \<Longrightarrow> sends as = res \<and> failure = None"
proof -
  obtain bs where b: "chunk_plan (lib_fetch (pr_lib P) (req_query req) (req_params req))
      = (bs, case failure of None \<Rightarrow> Exit 0 | Some m \<Rightarrow> Exit 1)" "sends bs = res"
    using chunk_plan_value [OF assms(4)] by blast
  have "\<exists>as th. setup_plan P payload = Some (as, th) \<and> th \<noteq> Input \<and> prefix (sends as) res
      \<and> (th = Exit 0 \<longrightarrow> sends as = res \<and> failure = None)"
    using assms(1-3) b
    by (auto simp: setup_plan_def request_plan_def Let_def session_settings_def select_plan_def split: option.splits)
  with that show thesis by blast
qed

lemma insert_plan_value:
  assumes "parse_setup (pr_alloc P) (pr_endian P) payload = Inr req" "cmd (req_ctx req) = CHDB_CMD_INSERT"
  shows "setup_plan P payload \<noteq> Some (as, Exit 0)"
  using assms
  by (auto simp: setup_plan_def request_plan_def Let_def session_settings_def insert_plan_def split: option.splits if_splits)

fun jrun :: "helper_env \<Rightarrow> kernel \<Rightarrow> program \<Rightarrow> move list \<Rightarrow> joint \<Rightarrow> joint option" where
  "jrun env K P [] s = Some s"
| "jrun env K P (m # ms) s = (case jdo env K P m s of None \<Rightarrow> None | Some t \<Rightarrow> jrun env K P ms t)"

lemma jrun_jreach:
  "jrun env K P ms t = Some u \<Longrightarrow> jreach env K P ok s t \<Longrightarrow> list_all ok ms \<Longrightarrow> jreach env K P ok s u"
  by (induction env K P ms t rule: jrun.induct) (auto split: option.splits intro: jstep)

text \<open>
  C7. Whatever the scheduler, the sizes of the channels, the way the kernel cuts reads and writes, the
  library's own error output, crashes, cancels and failing system calls of both processes do: the bytes a COPY FROM
  has received are always the head of the query's result, and when the stream has ended for the
  backend and nothing is raised, they are the whole result, there was no error in it, and the helper
  has exited with status 0.
\<close>

theorem joint_copy_from:
  assumes "jreach env K P (\<lambda>_. True) (jstart noise payload (map OpRecv lens) b) s" and "just_forked b"
    and "parse_setup (pr_alloc P) (pr_endian P) payload = Inr req" and "length (req_timezone req) < 2 ^ 31"
    and "cmd (req_ctx req) = CHDB_CMD_SELECT"
    and "chunks_value (lib_fetch (pr_lib P) (req_query req) (req_params req)) = (res, failure)"
  shows "(\<not> raising (j_point s) \<longrightarrow> prefix (bc_got (j_conf s)) res)
    \<and> (j_point s = Returned \<and> h_data (j_hp s) < 0 \<longrightarrow>
        bc_got (j_conf s) = res \<and> failure = None \<and> j_helper s = H_exited 0)"
proof -
  obtain as th where p: "setup_plan P payload = Some (as, th)" "th \<noteq> Input" "prefix (sends as) res"
    "th = Exit 0 \<longrightarrow> sends as = res \<and> failure = None"
    by (rule select_plan_value [OF assms(3-6)]) blast
  have i: "from_inv payload (sends as) (th = Exit 0) s" "linked s" using from_run [OF assms(1,2) p(1,2)] by simp_all
  have "prefix (bc_got (j_conf s)) res" if "\<not> raising (j_point s)"
  proof -
    have "prefix (bc_got (j_conf s) @ j_from s) (sends as)"
      using i(1) that append_prefixD [of "bc_got (j_conf s) @ j_from s"]
      by (auto simp: from_inv_def from_bytes_def Let_def split: hstate.splits simp del: append_assoc)
    with p(3) show ?thesis by (metis append_prefixD prefix_order.trans)
  qed
  moreover have "bc_got (j_conf s) = res \<and> failure = None \<and> j_helper s = H_exited 0"
    if r: "j_point s = Returned" "h_data (j_hp s) < 0"
  proof -
    have f: "from_end (j_conf s)" "j_from s = []" "from_bytes payload (sends as) (th = Exit 0) s"
      using i(1) r by (auto simp: from_inv_def from_open_def)
    then have "j_helper s = H_exited 0" using i(2) r by (auto simp: from_end_def linked_def)
    with f p(4) show ?thesis by (simp add: from_bytes_def Let_def)
  qed
  ultimately show ?thesis by blast
qed

text \<open>
  C6. Whatever the scheduler, the sizes of the channels, the way the kernel cuts reads and writes, the
  library's own error output, crashes, cancels and failing system calls of both processes do: a COPY TO that
  returns has been taken over completely. The helper has appended all the blocks in order, chDB has accepted the insert, and the helper has exited with
  status 0.
\<close>

theorem joint_copy_to:
  assumes "jreach env K P (\<lambda>_. True) (jstart noise payload (map OpWrite bss @ [OpFinish]) b) s" and "just_forked b"
    and "parse_setup (pr_alloc P) (pr_endian P) payload = Inr req" and "cmd (req_ctx req) = CHDB_CMD_INSERT"
    and "j_point s = Returned"
  shows "j_taken s = concat bss \<and> lib_done (pr_lib P) (concat bss) = None \<and> j_helper s = H_exited 0"
proof -
  have i: "to_inv (pr_lib P) payload (concat bss) s" "linked s"
    using to_run [OF assms(1,2) insert_plan_value [OF assms(3,4)]] by simp_all
  with assms(5) have f: "to_end (j_conf s)" "to_bytes (pr_lib P) payload (concat bss) s"
    by (auto simp: to_inv_def to_open_def)
  then have "j_helper s = H_exited 0" using i(2) assms(5) by (auto simp: to_end_def linked_def)
  with f show ?thesis by (simp add: to_bytes_def)
qed

section \<open>Two runs\<close>

definition ex_program :: program where
  "ex_program = \<lparr>pr_alloc = (\<lambda>_. True), pr_endian = Little, pr_lib = ex_lib\<rparr>"

definition ex_kernel :: kernel where
  "ex_kernel = \<lparr>data_cap = 2, err_cap = 1, setup_cap = 1000\<rparr>"

definition ex_forked :: backend where
  "ex_forked = ex_backend\<lparr>hp := (new_helper [])\<lparr>h_data := 5, h_err := 6, h_setup := 7\<rparr>\<rparr>"

lemma ex_just_forked: "just_forked ex_forked"
  by (simp add: just_forked_def ex_forked_def new_helper_def)

definition ex_insert_ctx :: chdbHelperContext where
  "ex_insert_ctx = \<lparr>cmd = CHDB_CMD_INSERT, max_memory = 0, max_threads = 2, max_parsers = 0\<rparr>"

lemma ex_request:
  assumes "ctx = ex_ctx \<or> ctx = ex_insert_ctx"
  obtains payload where "payload \<noteq> []" "length payload \<le> 1000"
    "parse_setup (pr_alloc ex_program) (pr_endian ex_program) payload
       = Inr \<lparr>req_ctx = ctx, req_timezone = ''UTC'', req_query = ''SELECT 1'', req_params = []\<rparr>"
proof -
  obtain payload where p: "build_setup Little ''UTC'' ctx ''SELECT 1'' [] = Inr payload" "payload \<noteq> []" "length payload \<le> 1000"
    using assms by (auto simp: build_setup_payload length_append_string CHDB_SETUP_MAX_def)
  then show thesis using that parse_of_build [OF p(1), of "\<lambda>_. True"] by (simp add: ex_program_def)
qed

definition from_schedule :: "nat \<Rightarrow> move list" where
  "from_schedule n =
     [Helper H_next, Backend (B_check False), Backend (B_put n), Backend B_tau, Helper (H_take n), Helper H_end,
      Backend B_tau, Backend (B_check False), Backend B_none, Backend B_none,
      Helper (H_put 1), Backend (B_check False), Backend (B_take 1), Helper H_next, Helper (H_put 0), Helper H_next,
      Helper H_next, Backend B_tau, Backend (B_check False), Backend (B_take 0), Backend B_tau,
      Backend (B_check False), Backend B_end, Backend (B_check False), Backend B_end, Backend B_tau, Backend B_tau,
      Backend B_wait]"

lemmas joint_eval = jdo_def bmove_step_def kernel_answer_def asks_def hmove_step_def exec_move_def setup_move_def setup_refused_def
  setup_room_def goes_on_def plan_move_def say_move_def send_move_def write_fails_def input_move_def alive_def pipe_to_def put_to_def
  cap_to_def some_data_def refuse_def bnext_def call_step_def check_step_def drain_step_def write_step_def read_step_def
  reap_step_def after_write_def after_end_def channel_fd_def reaped_with_def channel_accept_def close_setup_def
  close_data_def close_err_def new_helper_def Let_def

lemmas ex_joint_eval = joint_eval jstart_def bstart_def hstart_def ex_kernel_def ex_forked_def err_room_def
  CHDB_HELPER_ERR_MAX_def keep_err_def

lemma ex_lengths:
  assumes "payload \<noteq> []" "length payload \<le> 1000"
  shows "length payload - Suc 0 < length payload" "Suc (length payload - Suc 0) = length payload"
    "length payload - Suc 0 < 65536" "length payload \<noteq> 65536"
  using assms by (simp_all add: Suc_leI)

lemma ex_alloc: "pr_alloc ex_program n"
  by (simp add: ex_program_def)

lemma ex_from_run:
  assumes "payload \<noteq> []" "length payload \<le> 1000"
    "parse_setup (pr_alloc ex_program) (pr_endian ex_program) payload
       = Inr \<lparr>req_ctx = ex_ctx, req_timezone = ''UTC'', req_query = ''SELECT 1'', req_params = []\<rparr>"
  shows "\<exists>s. jrun ex_env ex_kernel ex_program (from_schedule (length payload - 1))
      (jstart [] payload (map OpRecv [9, 9, 9]) ex_forked) = Some s \<and> j_point s = Returned \<and> h_data (j_hp s) < 0
    \<and> j_helper s = H_exited 0 \<and> bc_got (j_conf s) @ j_from s = ''abc''"
proof -
  have p: "setup_plan ex_program payload = Some ([Send ''ab'', Send ''c''], Exit 0)"
    using assms(3) by (simp add: setup_plan_def request_plan_def session_settings_def select_plan_def ex_program_def
        ex_lib_def ex_ctx_def)
  show ?thesis by (simp add: assms(1,2) ex_lengths [OF assms(1,2)] p from_schedule_def ex_alloc ex_joint_eval)
qed

theorem joint_copy_from_witness:
  "\<exists>payload s. jreach ex_env ex_kernel ex_program (\<lambda>_. True) (jstart [] payload (map OpRecv [9, 9, 9]) ex_forked) s
     \<and> j_point s = Returned \<and> bc_got (j_conf s) = ''abc'' \<and> j_helper s = H_exited 0"
proof -
  obtain payload where p: "payload \<noteq> []" "length payload \<le> 1000"
    "parse_setup (pr_alloc ex_program) (pr_endian ex_program) payload
       = Inr \<lparr>req_ctx = ex_ctx, req_timezone = ''UTC'', req_query = ''SELECT 1'', req_params = []\<rparr>"
    using ex_request [of ex_ctx] by auto
  obtain s where s: "jrun ex_env ex_kernel ex_program (from_schedule (length payload - 1))
      (jstart [] payload (map OpRecv [9, 9, 9]) ex_forked) = Some s" "j_point s = Returned" "h_data (j_hp s) < 0"
    using ex_from_run [OF p] by blast
  have r: "jreach ex_env ex_kernel ex_program (\<lambda>_. True) (jstart [] payload (map OpRecv [9, 9, 9]) ex_forked) s"
    by (rule jrun_jreach [OF s(1) jrefl]) (simp add: list_all_iff)
  from joint_copy_from [OF r ex_just_forked p(3), of "''abc''" None] s(2,3) have "bc_got (j_conf s) = ''abc'' \<and> j_helper s = H_exited 0"
    by (simp add: ex_ctx_def ex_program_def ex_lib_def)
  with r s(2) show ?thesis by blast
qed

text \<open>A copy into chDB in which the library fills the error channel and the backend the data channel.\<close>

definition to_schedule :: "nat \<Rightarrow> move list" where
  "to_schedule n =
     [Helper H_next, Backend (B_check False), Backend (B_put n), Backend B_tau, Helper (H_take n), Helper H_end,
      Helper H_noise, Helper (H_put 0), Helper H_next,
      Backend B_tau, Backend (B_check False), Backend (B_put 1), Backend B_tau, Backend B_tau, Backend (B_check False),
      Backend B_full, Backend (B_take 0), Backend B_none, Backend (B_check False), Helper (H_take 1),
      Backend (B_put 0), Backend B_tau, Backend B_tau, Backend (B_check False), Backend B_none,
      Helper (H_take 0), Helper H_end, Helper H_next,
      Backend (B_check False), Backend B_end, Backend B_tau, Backend B_tau, Backend B_wait, Backend B_tau]"

lemma ex_to_run:
  assumes "payload \<noteq> []" "length payload \<le> 1000"
    "parse_setup (pr_alloc ex_program) (pr_endian ex_program) payload
       = Inr \<lparr>req_ctx = ex_insert_ctx, req_timezone = ''UTC'', req_query = ''SELECT 1'', req_params = []\<rparr>"
  shows "\<exists>s. jrun ex_env ex_kernel ex_program (to_schedule (length payload - 1))
      (jstart [''w''] payload (map OpWrite [''xy'', ''z''] @ [OpFinish]) ex_forked) = Some s
    \<and> j_point s = Returned \<and> h_err_buf (j_hp s) = ''w''"
proof -
  have l: "lib_append (pr_lib ex_program) x y = None" "lib_done (pr_lib ex_program) x = None" for x y
    by (simp_all add: ex_program_def ex_lib_def)
  have p: "setup_plan ex_program payload = Some ([], Input)"
    using assms(3) by (simp add: setup_plan_def request_plan_def session_settings_def insert_plan_def ex_program_def
        ex_lib_def ex_insert_ctx_def)
  show ?thesis by (simp add: assms(1,2) ex_lengths [OF assms(1,2)] p l to_schedule_def ex_alloc ex_joint_eval
        append_plan_def done_plan_def CHDB_HELPER_IO_BYTES_def)
qed

theorem joint_copy_to_witness:
  "\<exists>payload s. jreach ex_env ex_kernel ex_program (\<lambda>_. True)
       (jstart [''w''] payload (map OpWrite [''xy'', ''z''] @ [OpFinish]) ex_forked) s
     \<and> j_point s = Returned \<and> j_taken s = ''xyz'' \<and> j_helper s = H_exited 0"
proof -
  obtain payload where p: "payload \<noteq> []" "length payload \<le> 1000"
    "parse_setup (pr_alloc ex_program) (pr_endian ex_program) payload
       = Inr \<lparr>req_ctx = ex_insert_ctx, req_timezone = ''UTC'', req_query = ''SELECT 1'', req_params = []\<rparr>"
    using ex_request [of ex_insert_ctx] by auto
  obtain s where s: "jrun ex_env ex_kernel ex_program (to_schedule (length payload - 1))
      (jstart [''w''] payload (map OpWrite [''xy'', ''z''] @ [OpFinish]) ex_forked) = Some s" "j_point s = Returned"
    using ex_to_run [OF p] by blast
  have r: "jreach ex_env ex_kernel ex_program (\<lambda>_. True)
      (jstart [''w''] payload (map OpWrite [''xy'', ''z''] @ [OpFinish]) ex_forked) s"
    by (rule jrun_jreach [OF s(1) jrefl]) (simp add: list_all_iff)
  from joint_copy_to [OF r ex_just_forked p(3) _ s(2)] have "j_taken s = ''xyz'' \<and> j_helper s = H_exited 0"
    by (simp add: ex_insert_ctx_def)
  with r s(2) show ?thesis by blast
qed

end
