(* ===== verification/Joint_Progress.thy ===== *)
theory Joint_Progress
  imports Joint_Safety
begin

text \<open>
  That the two processes cannot wait for each other. A measure of the work that is left decreases with
  every step of either process that does anything, and polling, the backend's rounds of a check, a
  call that would block and an empty error channel, leaves it alone (\<open>joint_measure\<close>). In every state
  a copy can be in, some sequence of steps makes the measure smaller, so it can always end: the
  backend drains the error channel whenever the data channel would block.
\<close>

section \<open>The work that is left\<close>

definition cause_work :: "cause \<Rightarrow> nat" where
  "cause_work why = (case why of Reporting what \<Rightarrow> 3 | _ \<Rightarrow> 6)"

definition point_work :: "point \<Rightarrow> nat" where
  "point_work p =
     (case phase p of
        Next \<Rightarrow> 1
      | W_check ch bs \<Rightarrow> 3 * length bs + 12
      | R_check len \<Rightarrow> 12
      | E_check why \<Rightarrow> Suc (cause_work why)
      | E_reap why \<Rightarrow> cause_work why
      | _ \<Rightarrow> 0)"

lemma point_work_simps [simp]:
  "point_work Next = 1" "point_work (W_check ch bs) = 3 * length bs + 12" "point_work (W_write ch bs) = 3 * length bs + 12"
  "point_work (W_drain ch bs) = 3 * length bs + 12" "point_work (R_check len) = 12" "point_work (R_read len) = 12"
  "point_work (R_drain len) = 12" "point_work (E_check why) = Suc (cause_work why)"
  "point_work (E_drain why) = Suc (cause_work why)" "point_work (E_reap why) = cause_work why"
  "point_work Returned = 0" "point_work (Raised e) = 0"
  by (simp_all add: point_work_def)

definition op_work :: "op \<Rightarrow> nat" where
  "op_work op = 3 * length (op_bytes op) + 14"

definition conf_work :: "bconf \<Rightarrow> nat" where
  "conf_work c = point_work (bc_point c) + sum_list (map op_work (bc_ops c)) + (if 0 \<le> h_err (hp (bc_be c)) then 2 else 0)"

definition action_work :: "haction \<Rightarrow> nat" where
  "action_work a = (case a of Say x \<Rightarrow> 3 * length x + 1 | Send x \<Rightarrow> 3 * length x + 1)"

definition helper_work :: "hstate \<Rightarrow> nat" where
  "helper_work h = (case h of H_do as th \<Rightarrow> sum_list (map action_work as) | _ \<Rightarrow> 0)"

text \<open>The stages of the helper, and all the work within a stage.\<close>

definition stage :: "hstate \<Rightarrow> nat" where
  "stage h = (case h of H_exec \<Rightarrow> 4 | H_setup cap buf \<Rightarrow> 3 | H_do as th \<Rightarrow> (case th of Input \<Rightarrow> 2 | Exit st \<Rightarrow> 1) | H_exited w \<Rightarrow> 0)"

definition noise_work :: "string list \<Rightarrow> nat" where
  "noise_work xs = sum_list (map (\<lambda>x. 3 * length x + 2) xs)"

definition work :: "joint \<Rightarrow> nat" where
  "work s = conf_work (j_conf s) + helper_work (j_helper s) + noise_work (j_noise s)
     + 2 * (length (j_setup s) + length (j_to s) + length (j_from s) + length (j_err s))"

definition nearer :: "joint \<Rightarrow> joint \<Rightarrow> bool" where
  "nearer t s \<longleftrightarrow> stage (j_helper t) < stage (j_helper s)
     \<or> stage (j_helper t) = stage (j_helper s) \<and> work t < work s"

text \<open>Polling: only the round of the backend's loop changes.\<close>

definition stutter :: "joint \<Rightarrow> joint \<Rightarrow> bool" where
  "stutter s t \<longleftrightarrow> t = s\<lparr>j_conf := (j_conf s)\<lparr>bc_point := j_point t\<rparr>\<rparr> \<and> phase (j_point t) = phase (j_point s)"

lemma stutterD:
  assumes "stutter s t"
  shows "j_err t = j_err s" "j_from t = j_from s" "j_to t = j_to s" "j_setup t = j_setup s"
    "bc_be (j_conf t) = bc_be (j_conf s)" "phase (j_point t) = phase (j_point s)"
proof -
  from assms have t: "t = s\<lparr>j_conf := (j_conf s)\<lparr>bc_point := j_point t\<rparr>\<rparr>" by (simp add: stutter_def)
  show "j_err t = j_err s" "j_from t = j_from s" "j_to t = j_to s" "j_setup t = j_setup s"
    "bc_be (j_conf t) = bc_be (j_conf s)" by (subst t, simp)+
qed (use assms in \<open>simp add: stutter_def\<close>)

lemma drop_Suc_neq: "xs \<noteq> [] \<Longrightarrow> drop (Suc n) xs \<noteq> xs"
  by (metis diff_less length_drop length_greater_0_conv nat_neq_iff zero_less_Suc)

lemma phase_work: "phase p = phase q \<Longrightarrow> point_work p = point_work q"
  by (simp add: point_work_def)

lemma stutter_refl: "stutter s s"
  by (simp add: stutter_def)

lemma hmove_nearer:
  assumes "hmove_step K P m s = Some t" "\<not> (m = H_fault EINTR \<and> t = s)"
  shows "nearer t s"
  using assms(1)
proof (cases rule: hmove_cases)
  case (crash sig)
  then show ?thesis by (auto simp: nearer_def stage_def alive_def split: hstate.splits hthen.splits)
next
  case interrupted
  with assms(2) show ?thesis by simp
next
  case started
  then show ?thesis by (simp add: nearer_def stage_def hstart_def)
next
  case (unstarted st)
  then show ?thesis by (simp add: nearer_def stage_def)
next
  case (unread cap buf e)
  then show ?thesis by (simp add: nearer_def stage_def)
next
  case (unreceived e)
  then show ?thesis by (simp add: nearer_def stage_def)
next
  case (planned cap buf as th)
  then show ?thesis by (auto simp: nearer_def stage_def split: hthen.splits)
next
  case (lost x as th)
  then show ?thesis
    by (auto simp: nearer_def stage_def work_def helper_work_def action_work_def split: hthen.splits)
next
  case (finished as th)
  then show ?thesis by (auto simp: nearer_def stage_def done_plan_def split: hthen.splits option.splits)
qed (auto simp: nearer_def stage_def work_def helper_work_def action_work_def noise_work_def split: hthen.splits)

lemma nearer_trans: "nearer t s \<Longrightarrow> nearer u t \<Longrightarrow> nearer u s"
  by (auto simp: nearer_def)

lemma after_end_work: "point_work (bc_point (after_end env why st c)) < cause_work why"
  by (cases why) (simp_all add: after_end_def cause_work_def)

lemma bnext_work:
  assumes "bnext env a c = Some c'" "\<forall>ch n. a \<noteq> WriteAns ch (Accept n)"
  shows "c' = c\<lparr>bc_point := bc_point c'\<rparr> \<and> phase (bc_point c') = phase (bc_point c)
    \<or> conf_work c' < conf_work c \<or> (\<exists>x xs. a = ErrAns (Data x xs)) \<and> conf_work c' = conf_work c"
  using assms(1)
proof (cases rule: bnext_cases)
  case (loop p)
  note l = loop(1,10)
  from l(2) show ?thesis
  proof
    assume "phase p = phase (bc_point c)"
    with l(1) show ?thesis by simp
  next
    assume "\<exists>why. bc_point c = E_check why \<and> p = E_reap why"
    with l(1) have "conf_work c' < conf_work c" by (auto simp: conf_work_def)
    then show ?thesis by blast
  qed
next
  case called
  then show ?thesis
    by (auto simp: conf_work_def call_step_def op_work_def op_bytes_def cause_work_def split: list.splits op.splits)
next
  case (put ch bs n)
  with assms(2) show ?thesis by simp
next
  case (written ch)
  then show ?thesis by (cases ch) (simp_all add: conf_work_def after_write_def)
next
  case (unwritten ch bs e)
  then show ?thesis by (cases ch) (auto simp: conf_work_def after_write_def cause_work_def)
next
  case (over why)
  with after_end_work [of env why "h_status (hp (bc_be c))" c] show ?thesis by (simp add: conf_work_def)
next
  case (waited why st e)
  with after_end_work [of env why st "c\<lparr>bc_be := reaped_with st e (bc_be c)\<rparr>"] show ?thesis
    by (auto simp: conf_work_def)
next
  case cancel
  have "0 < point_work (bc_point c)" using cancel(2) by (cases "bc_point c") (simp_all add: cause_work_def split: cause.split)
  with cancel show ?thesis by (simp add: conf_work_def)
qed (auto simp: conf_work_def cause_work_def)

lemma conf_work_phase: "phase p = phase (bc_point c) \<Longrightarrow> conf_work (c\<lparr>bc_point := p\<rparr>) = conf_work c"
  using phase_work [of p "bc_point c"] by (simp add: conf_work_def)

lemma bnext_put_work:
  assumes "bnext env (WriteAns ch (Accept n)) c = Some c'" "bc_point c = W_write ch bs" "n < length bs"
  shows "conf_work c' + 3 * Suc n = conf_work c"
  using assms(1)
proof (cases rule: bnext_cases)
  case (put ch' bs' n')
  with assms(2,3) show ?thesis by (simp add: conf_work_def)
qed (use assms(2) in simp_all)

lemma bmove_nearer:
  assumes "bmove_step env K m s = Some t"
  shows "stutter s t \<or> nearer t s"
proof -
  obtain a u c where k: "kernel_answer K m s = Some (a, u)" "bnext env a (j_conf s) = Some c" "t = u\<lparr>j_conf := c\<rparr>"
    using assms by (rule bmove_cases)
  note f = kernel_frame [OF k(1)] and w = bnext_work [OF k(2)]
  have n: "nearer t s" if "conf_work c + 2 * (length (j_setup u) + length (j_to u) + length (j_from u) + length (j_err u))
      < conf_work (j_conf s) + 2 * (length (j_setup s) + length (j_to s) + length (j_from s) + length (j_err s))"
    using that f k(3) by (simp add: nearer_def work_def)
  have le: "conf_work c \<le> conf_work (j_conf s)" if "\<forall>ch n. a \<noteq> WriteAns ch (Accept n)"
    using w [OF that] conf_work_phase [of "bc_point c" "j_conf s"] by (metis le_refl less_imp_le)
  show ?thesis using k(1)
  proof (cases rule: kernel_cases)
    case same
    then consider "c = (j_conf s)\<lparr>bc_point := bc_point c\<rparr>" "phase (bc_point c) = phase (j_point s)" | "conf_work c < conf_work (j_conf s)"
      using w by blast
    then show ?thesis
    proof cases
      case 1
      then have "stutter s t" using same(1) k(3) unfolding stutter_def by (metis joint.select_convs(1) joint.surjective joint.update_convs(1))
      then show ?thesis ..
    next
      case 2
      with n same(1) show ?thesis by simp
    qed
  next
    case (put ch bs i)
    then have "conf_work c + 3 * Suc i = conf_work (j_conf s)" using bnext_put_work k(2) by blast
    then show ?thesis using put n by (cases ch) (auto simp: put_to_def)
  next
    case (data i x xs)
    with le n show ?thesis by auto
  next
    case (err i x xs)
    with le n show ?thesis by auto
  qed
qed

text \<open>
  C12. Every step of the two processes either only moves the backend to another round of the loop it
  is polling in, with nothing else changed, or brings the copy nearer to its end in a well-founded
  order: the helper reaches a later stage, or there is less work left. A copy therefore consists of
  finitely many steps that do anything, whatever the scheduler does.
\<close>

theorem joint_measure:
  assumes "jdo env K P m s = Some t"
  shows "stutter s t \<or> nearer t s"
proof (cases m)
  case (Backend h)
  with assms bmove_nearer show ?thesis by (simp add: jdo_def)
next
  case (Helper h)
  with assms have "hmove_step K P h s = Some t" by (simp add: jdo_def)
  from hmove_nearer [OF this] show ?thesis using stutter_refl by metis
qed

lemma wfP_nearer: "wfP nearer"
proof (rule wfp_if_convertible_to_wfp [of "\<lambda>x y. (x, y) \<in> less_than <*lex*> less_than" _ "\<lambda>s. (stage (j_helper s), work s)"])
  show "wfP (\<lambda>x y. (x, y) \<in> less_than <*lex*> less_than)" by (simp add: wfp_def wf_lex_prod)
qed (auto simp: nearer_def)

section \<open>Some step helps\<close>

lemma faultless_simps [simp]:
  "faultless (Backend B_tau)" "faultless (Backend (B_check False))" "faultless (Backend (B_put k))"
  "faultless (Backend B_full)" "faultless (Backend B_broken)" "faultless (Backend (B_take k))"
  "faultless (Backend B_none)" "faultless (Backend B_end)" "faultless (Backend B_wait)"
  "faultless (Helper (H_take k))" "faultless (Helper H_end)" "faultless (Helper (H_put k))"
  "faultless (Helper H_lost)" "faultless (Helper H_next)"
  by (simp_all add: faultless_def)

definition can_go_on :: "helper_env \<Rightarrow> kernel \<Rightarrow> program \<Rightarrow> joint \<Rightarrow> bool" where
  "can_go_on env K P s \<longleftrightarrow> (\<exists>t. jreach env K P faultless s t \<and> nearer t s)"

lemma jreach_front:
  assumes "jreach env K P ok t u" "jdo env K P m s = Some t" "ok m"
  shows "jreach env K P ok s u"
  using assms(1,2)
proof (induction rule: jreach.induct)
  case (jrefl t)
  with assms(3) show ?case by (auto intro: jreach.intros)
qed (auto intro: jreach.jstep)

lemma jreach_trans: "jreach env K P ok t u \<Longrightarrow> jreach env K P ok s t \<Longrightarrow> jreach env K P ok s u"
  by (induction rule: jreach.induct) (auto intro: jreach.jstep)

text \<open>The moves of a helper that is not disturbed, each of which is progress.\<close>

definition steady :: "hmove \<Rightarrow> bool" where
  "steady m \<longleftrightarrow> (case m of H_take k \<Rightarrow> True | H_end \<Rightarrow> True | H_put k \<Rightarrow> True | H_lost \<Rightarrow> True | H_next \<Rightarrow> True | _ \<Rightarrow> False)"

lemma steady_simps [simp]: "steady (H_take k)" "steady H_end" "steady (H_put k)" "steady H_lost" "steady H_next"
  by (simp_all add: steady_def)

lemma steady_faultless: "steady m \<Longrightarrow> faultless (Helper m) \<and> m \<noteq> H_fault e"
  by (cases m) (simp_all add: steady_def)

lemma go_on_helper:
  assumes "hmove_step K P m s = Some t" "steady m"
  shows "can_go_on env K P s"
proof -
  have "jdo env K P (Helper m) s = Some t" using assms(1) by (simp add: jdo_def)
  with steady_faultless [OF assms(2)] have "jreach env K P faultless s t" by (blast intro: jreach.intros)
  with hmove_nearer [OF assms(1)] steady_faultless [OF assms(2)] show ?thesis by (auto simp: can_go_on_def)
qed

lemma go_on_backend:
  assumes "bmove_step env K m s = Some t" "faultless (Backend m)" "\<not> stutter s t"
  shows "can_go_on env K P s"
proof -
  have "jdo env K P (Backend m) s = Some t" using assms(1) by (simp add: jdo_def)
  with assms(2) have "jreach env K P faultless s t" by (blast intro: jreach.intros)
  with bmove_nearer [OF assms(1)] assms(3) show ?thesis by (auto simp: can_go_on_def)
qed

text \<open>The same state at another round of the loop.\<close>

definition at :: "joint \<Rightarrow> point \<Rightarrow> joint" where
  "at s p = s\<lparr>j_conf := (j_conf s)\<lparr>bc_point := p\<rparr>\<rparr>"

lemma at_sel [simp]:
  "j_point (at s p) = p" "j_helper (at s p) = j_helper s" "j_from (at s p) = j_from s" "j_err (at s p) = j_err s"
  "j_to (at s p) = j_to s" "j_setup (at s p) = j_setup s" "bc_be (j_conf (at s p)) = bc_be (j_conf s)"
  "alive (at s p) = alive s" "pipe_to ch (at s p) = pipe_to ch s"
  by (simp_all add: at_def alive_def pipe_to_def split: channel.split)

lemma at_at [simp]: "at (at s p) q = at s q"
  by (simp add: at_def)

lemma at_point: "at s (j_point s) = s"
  by (simp add: at_def)

lemma go_on_poll:
  assumes "bmove_step env K m s = Some (at s p)" "faultless (Backend m)" "phase p = phase (j_point s)"
    "can_go_on env K P (at s p)"
  shows "can_go_on env K P s"
proof -
  obtain u where u: "jreach env K P faultless (at s p) u" "nearer u (at s p)" using assms(4) by (auto simp: can_go_on_def)
  have "jdo env K P (Backend m) s = Some (at s p)" using assms(1) by (simp add: jdo_def)
  from jreach_front [OF u(1) this assms(2)] have "jreach env K P faultless s u" .
  moreover have "work (at s p) = work s"
    using conf_work_phase [of p "j_conf s"] assms(3) by (simp add: work_def at_def)
  then have "nearer u s" using u(2) by (simp add: nearer_def)
  ultimately show ?thesis by (auto simp: can_go_on_def)
qed

lemmas move_eval = bmove_step_def kernel_answer_def asks_def bnext_def check_step_def drain_step_def write_step_def
  read_step_def reap_step_def Let_def some_data_def faultless_def stutter_def at_def

text \<open>Draining takes what is there, or sees the end.\<close>

definition drain_back :: "point \<Rightarrow> point option" where
  "drain_back p = (case p of W_drain ch bs \<Rightarrow> Some (W_check ch bs) | R_drain len \<Rightarrow> Some (R_check len)
     | E_drain why \<Rightarrow> Some (E_check why) | _ \<Rightarrow> None)"

lemma drain_asks:
  assumes "drain_back (j_point s) = Some p"
  shows "asks (j_conf s) = (if h_err (j_hp s) < 0 then AskTau else AskErr (err_room (bc_be (j_conf s))))"
    "bnext env a (j_conf s) = drain_step p a (j_conf s)" "phase p = phase (j_point s)"
  using assms by (auto simp: drain_back_def asks_def bnext_def Let_def split: point.splits)

lemma drain_takes:
  assumes "drain_back (j_point s) = Some p" "0 \<le> h_err (j_hp s)" "j_err s \<noteq> [] \<or> \<not> alive s"
  shows "can_go_on env K P s"
proof (cases "j_err s = []")
  case False
  let ?t = "s\<lparr>j_err := drop (Suc 0) (j_err s), j_conf := (j_conf s)\<lparr>bc_be := keep_err [hd (j_err s)] (bc_be (j_conf s))\<rparr>\<rparr>"
  have "bmove_step env K (B_take 0) s = Some ?t"
    using drain_asks [OF assms(1)] assms(2) False
    by (simp add: bmove_step_def kernel_answer_def some_data_def drain_step_def)
  then show ?thesis by (rule go_on_backend) (use False in \<open>auto simp: drop_Suc_neq dest: stutterD\<close>)
next
  case True
  let ?t = "s\<lparr>j_conf := (j_conf s)\<lparr>bc_be := close_err (bc_be (j_conf s))\<rparr>\<rparr>"
  have b: "bmove_step env K B_end s = Some ?t"
    using drain_asks [OF assms(1)] assms(2,3) True by (simp add: bmove_step_def kernel_answer_def drain_step_def)
  have n: "\<not> stutter s ?t"
  proof
    assume "stutter s ?t"
    then have "close_err (bc_be (j_conf s)) = bc_be (j_conf s)" using stutterD(5) by fastforce
    then have "h_err (j_hp s) = -1" by (metis hp_simps(7))
    with assms(2) show False by simp
  qed
  show ?thesis by (rule go_on_backend [OF b _ n]) simp
qed

lemma drain_returns:
  assumes "drain_back (j_point s) = Some p" "h_err (j_hp s) < 0 \<or> alive s \<and> j_err s = []" "can_go_on env K P (at s p)"
  shows "can_go_on env K P s"
proof (cases "h_err (j_hp s) < 0")
  case True
  have "bmove_step env K B_tau s = Some (at s p)"
    using drain_asks [OF assms(1)] True by (simp add: bmove_step_def kernel_answer_def drain_step_def at_def)
  then show ?thesis by (rule go_on_poll) (use assms(3) drain_asks(3) [OF assms(1)] in \<open>simp_all\<close>)
next
  case False
  have "bmove_step env K B_none s = Some (at s p)"
    using drain_asks [OF assms(1)] False assms(2) by (simp add: bmove_step_def kernel_answer_def drain_step_def at_def)
  then show ?thesis by (rule go_on_poll) (use assms(3) drain_asks(3) [OF assms(1)] in \<open>simp_all\<close>)
qed

lemma drain_goes_on:
  assumes "drain_back (j_point s) = Some p" "can_go_on env K P (at s p)"
  shows "can_go_on env K P s"
proof (cases "0 \<le> h_err (j_hp s) \<and> (j_err s \<noteq> [] \<or> \<not> alive s)")
  case True
  then show ?thesis by (simp add: drain_takes [OF assms(1)])
next
  case False
  then have "h_err (j_hp s) < 0 \<or> alive s \<and> j_err s = []" by linarith
  then show ?thesis by (rule drain_returns [OF assms(1) _ assms(2)])
qed

text \<open>Writing: the helper is gone, there is room, or its error output can be drained.\<close>

lemma write_goes_on:
  assumes "in_write (j_point s) = Some (ch, bs)" "bs \<noteq> []" "0 \<le> channel_fd ch (bc_be (j_conf s))" "0 < cap_to K ch"
    "alive s \<Longrightarrow> 0 \<le> h_err (j_hp s)" "\<not> alive s \<or> pipe_to ch s = [] \<or> j_err s \<noteq> []"
  shows "can_go_on env K P s"
proof -
  have w: "can_go_on env K P (at s (W_write ch bs))"
  proof -
    let ?s = "at s (W_write ch bs)"
    consider "\<not> alive s" | "alive s" "pipe_to ch s = []" | "alive s" "pipe_to ch s \<noteq> []" "j_err s \<noteq> []"
      using assms(6) by blast
    then show ?thesis
    proof cases
      case 1
      have "bmove_step env K B_broken ?s = Some (?s\<lparr>j_conf := after_write env ch (Some EPIPE) (j_conf ?s)\<rparr>)"
        using 1 assms(3) by (simp add: bmove_step_def kernel_answer_def asks_def bnext_def write_step_def)
      then show ?thesis
        by (rule go_on_backend) (auto simp: after_write_def dest!: stutterD(6) split: channel.splits)
    next
      case 2
      let ?c = "(j_conf ?s)\<lparr>bc_point := W_check ch (drop (min (Suc 0) (length bs)) bs),
        bc_be := channel_accept ch (channel_wr ch (bc_be (j_conf ?s))) (take (min (Suc 0) (length bs)) bs) (bc_be (j_conf ?s))\<rparr>"
      have "bmove_step env K (B_put 0) ?s = Some ((put_to ch (take (Suc 0) bs) ?s)\<lparr>j_conf := ?c\<rparr>)"
        using 2 assms(2-4) by (simp add: bmove_step_def kernel_answer_def asks_def bnext_def write_step_def)
      then show ?thesis
        by (rule go_on_backend) (use assms(2) in \<open>auto simp: put_to_def dest: stutterD(3,4) split: channel.splits\<close>)
    next
      case 3
      have "bmove_step env K B_full ?s = Some (at ?s (W_drain ch bs))"
        using 3 assms(3) by (simp add: bmove_step_def kernel_answer_def asks_def bnext_def write_step_def, simp add: at_def)
      then show ?thesis
        by (rule go_on_poll) (use 3 assms(5) in \<open>auto simp: drain_back_def intro!: drain_takes [of _ "W_check ch bs"]\<close>)
    qed
  qed
  have "bmove_step env K (B_check False) (at s (W_check ch bs)) = Some (at (at s (W_check ch bs)) (W_write ch bs))"
    using assms(2) by (simp add: bmove_step_def kernel_answer_def asks_def bnext_def check_step_def, simp add: at_def)
  then have c: "can_go_on env K P (at s (W_check ch bs))" by (rule go_on_poll) (use w in simp_all)
  have d: "can_go_on env K P (at s (W_drain ch bs))"
    by (rule drain_goes_on [of _ "W_check ch bs"]) (use c in \<open>simp_all add: drain_back_def\<close>)
  have "j_point s = W_check ch bs \<or> j_point s = W_write ch bs \<or> j_point s = W_drain ch bs"
    using assms(1) by (cases "j_point s") auto
  then have "can_go_on env K P (at s (j_point s))" using w c d by metis
  then show ?thesis by (simp add: at_point)
qed

text \<open>Receiving: there are bytes, the stream has ended, or the error output can be drained.\<close>

lemma read_goes_on:
  assumes "in_read (j_point s)" "sound_point (j_conf s)" "0 \<le> h_data (j_hp s)"
    "alive s \<Longrightarrow> 0 \<le> h_err (j_hp s)" "\<not> alive s \<or> j_from s \<noteq> [] \<or> j_err s \<noteq> []"
  shows "can_go_on env K P s"
proof -
  obtain len where l: "j_point s = R_check len \<or> j_point s = R_read len \<or> j_point s = R_drain len" "0 < len"
    using assms(1,2) by (cases "j_point s") (auto simp: sound_point_def)
  have r: "can_go_on env K P (at s (R_read len))"
  proof -
    let ?s = "at s (R_read len)"
    consider "j_from s \<noteq> []" | "\<not> alive s" "j_from s = []" | "alive s" "j_from s = []" "j_err s \<noteq> []"
      using assms(5) by blast
    then show ?thesis
    proof cases
      case 1
      have "bmove_step env K (B_take 0) ?s = Some (?s\<lparr>j_from := drop (Suc 0) (j_from s),
          j_conf := (j_conf ?s)\<lparr>bc_point := Next, bc_got := bc_got (j_conf ?s) @ [hd (j_from s)]\<rparr>\<rparr>)"
        using 1 assms(3) l(2) by (simp add: bmove_step_def kernel_answer_def asks_def bnext_def read_step_def some_data_def Let_def)
      then show ?thesis by (rule go_on_backend) (auto dest!: stutterD(6))
    next
      case 2
      have "bmove_step env K B_end ?s = Some (?s\<lparr>j_conf := (j_conf ?s)\<lparr>bc_point := E_check EndOfStream,
          bc_be := close_data (bc_be (j_conf ?s))\<rparr>\<rparr>)"
        using 2 assms(3) by (simp add: bmove_step_def kernel_answer_def asks_def bnext_def read_step_def Let_def)
      then show ?thesis by (rule go_on_backend) (auto dest!: stutterD(6))
    next
      case 3
      have "bmove_step env K B_none ?s = Some (at ?s (R_drain len))"
        using 3 assms(3) by (simp add: bmove_step_def kernel_answer_def asks_def bnext_def read_step_def Let_def, simp add: at_def)
      then show ?thesis
        by (rule go_on_poll) (use 3 assms(4) in \<open>auto simp: drain_back_def intro!: drain_takes [of _ "R_check len"]\<close>)
    qed
  qed
  have "bmove_step env K (B_check False) (at s (R_check len)) = Some (at (at s (R_check len)) (R_read len))"
    by (simp add: bmove_step_def kernel_answer_def asks_def bnext_def check_step_def, simp add: at_def)
  then have c: "can_go_on env K P (at s (R_check len))" by (rule go_on_poll) (use r in simp_all)
  have d: "can_go_on env K P (at s (R_drain len))"
    by (rule drain_goes_on [of _ "R_check len"]) (use c in \<open>simp_all add: drain_back_def\<close>)
  have "can_go_on env K P (at s (j_point s))" using l(1) r c d by metis
  then show ?thesis by (simp add: at_point)
qed

text \<open>Ending: the error output has ended or can be drained, and a helper that is gone is collected.\<close>

lemma end_goes_on:
  assumes "in_end (j_point s) = Some why" "h_err (j_hp s) < 0 \<or> \<not> alive s \<or> j_err s \<noteq> []" "linked s"
  shows "can_go_on env K P s"
proof -
  have c: "can_go_on env K P (at s (E_check why))"
  proof (cases "h_err (j_hp s) < 0")
    case True
    have "bmove_step env K B_tau (at s (E_check why)) = Some (at s (E_reap why))"
      using True by (simp add: bmove_step_def kernel_answer_def asks_def bnext_def, simp add: at_def)
    then show ?thesis by (rule go_on_backend) (auto dest!: stutterD(6))
  next
    case False
    have "bmove_step env K (B_check False) (at s (E_check why)) = Some (at (at s (E_check why)) (E_drain why))"
      using False by (simp add: bmove_step_def kernel_answer_def asks_def bnext_def check_step_def, simp add: at_def)
    then show ?thesis
      by (rule go_on_poll) (use False assms(2) in \<open>auto simp: drain_back_def intro!: drain_takes [of _ "E_check why"]\<close>)
  qed
  have d: "can_go_on env K P (at s (E_drain why))"
    by (rule drain_goes_on [of _ "E_check why"]) (use c in \<open>simp_all add: drain_back_def\<close>)
  have r: "can_go_on env K P s" if e: "j_point s = E_reap why"
  proof -
    have p: "phase (bc_point (after_end env why st c)) \<noteq> E_reap w" for st c w
      by (simp add: after_end_def split: cause.split)
    show ?thesis
    proof (cases "h_reaped (j_hp s)")
      case True
      have "bmove_step env K B_tau s = Some (s\<lparr>j_conf := after_end env why (h_status (j_hp s)) (j_conf s)\<rparr>)"
        using True e by (simp add: bmove_step_def kernel_answer_def asks_def bnext_def reap_step_def)
      then show ?thesis by (rule go_on_backend) (use e p in \<open>auto dest!: stutterD(6)\<close>)
    next
      case False
      have "\<not> alive s" using assms(3) e by (simp add: linked_def)
      then obtain w where w: "j_helper s = H_exited w" by (auto simp: alive_def split: hstate.splits)
      have "bmove_step env K B_wait s = Some (s\<lparr>j_conf := after_end env why w
          ((j_conf s)\<lparr>bc_be := reaped_with w None (bc_be (j_conf s))\<rparr>)\<rparr>)"
        using False e w by (simp add: bmove_step_def kernel_answer_def asks_def bnext_def reap_step_def)
      then show ?thesis by (rule go_on_backend) (use e p in \<open>auto dest!: stutterD(6)\<close>)
    qed
  qed
  have "j_point s = E_check why \<or> j_point s = E_drain why \<or> j_point s = E_reap why"
    using assms(1) by (cases "j_point s") auto
  then have "can_go_on env K P (at s (j_point s))" using c d r by (metis at_point)
  then show ?thesis by (simp add: at_point)
qed

section \<open>When the helper has no step\<close>

text \<open>
  The helper waits for its setup, for room in the error or the data channel, or for input. Its
  buffer for the setup has room whenever it reads.
\<close>

definition buffer_ok :: "hstate \<Rightarrow> bool" where
  "buffer_ok h \<longleftrightarrow> (case h of H_setup cap buf \<Rightarrow> 0 < cap \<and> length buf \<le> cap | _ \<Rightarrow> True)"

definition caps_ok :: "kernel \<Rightarrow> bool" where
  "caps_ok K \<longleftrightarrow> 0 < data_cap K \<and> 0 < err_cap K \<and> 0 < setup_cap K"

lemma setup_waits:
  assumes "j_helper s = H_setup cap buf" "buffer_ok (j_helper s)" "\<not> can_go_on env K P s"
  shows "j_setup s = [] \<and> (0 \<le> h_setup (j_hp s) \<or> setup_plan P buf = None)"
proof (cases "setup_refused P cap buf")
  case (Some msg)
  have "hmove_step K P H_next s = Some (s\<lparr>j_helper := H_do [Say (line msg)] (Exit 1)\<rparr>)"
    using assms(1) Some by (simp add: hmove_step_def setup_move_def)
  with assms(3) go_on_helper show ?thesis by fastforce
next
  case None
  have room: "0 < setup_room cap buf - length buf" using assms(1,2) by (auto simp: buffer_ok_def setup_room_def)
  show ?thesis
  proof (cases "j_setup s = []")
    case True
    have "hmove_step K P H_end s = Some (s\<lparr>j_helper := goes_on p\<rparr>)" if "h_setup (j_hp s) < 0" "setup_plan P buf = Some p" for p
      using that assms(1) None True by (simp add: hmove_step_def setup_move_def)
    with True assms(3) go_on_helper show ?thesis by fastforce
  next
    case False
    then have "hmove_step K P (H_take 0) s \<noteq> None"
      using assms(1) None room by (simp add: hmove_step_def setup_move_def)
    with assms(3) go_on_helper show ?thesis by fastforce
  qed
qed

lemma say_waits:
  assumes "j_helper s = H_do (Say x # as) th" "caps_ok K" "\<not> can_go_on env K P s"
  shows "j_err s \<noteq> []"
proof
  assume e: "j_err s = []"
  consider "x = []" | "x \<noteq> []" "h_err (j_hp s) < 0" | "x \<noteq> []" "0 \<le> h_err (j_hp s)" by linarith
  then have "\<exists>m. hmove_step K P m s \<noteq> None \<and> steady m"
  proof cases
    case 1
    with assms(1) show ?thesis by (intro exI [of _ H_next]) (simp add: hmove_step_def plan_move_def say_move_def write_fails_def)
  next
    case 2
    with assms(1) show ?thesis by (intro exI [of _ H_lost]) (simp add: hmove_step_def plan_move_def say_move_def write_fails_def)
  next
    case 3
    with assms(1,2) e show ?thesis
      by (intro exI [of _ "H_put 0"]) (simp add: hmove_step_def plan_move_def say_move_def caps_ok_def Suc_leI)
  qed
  with assms(3) go_on_helper show False by fastforce
qed

lemma send_waits:
  assumes "j_helper s = H_do (Send x # as) th" "caps_ok K" "\<not> can_go_on env K P s"
  shows "x \<noteq> [] \<and> j_from s \<noteq> [] \<and> 0 \<le> h_data (j_hp s)"
proof (rule ccontr)
  assume n: "\<not> ?thesis"
  then consider "x = []" | "x \<noteq> []" "h_data (j_hp s) < 0" | "x \<noteq> []" "0 \<le> h_data (j_hp s)" "j_from s = []" by linarith
  then have "\<exists>m. hmove_step K P m s \<noteq> None \<and> steady m"
  proof cases
    case 1
    with assms(1) show ?thesis by (intro exI [of _ H_next]) (simp add: hmove_step_def plan_move_def send_move_def write_fails_def)
  next
    case 2
    with assms(1) show ?thesis by (intro exI [of _ H_lost]) (simp add: hmove_step_def plan_move_def send_move_def write_fails_def)
  next
    case 3
    with assms(1,2) show ?thesis
      by (intro exI [of _ "H_put 0"]) (simp add: hmove_step_def plan_move_def send_move_def caps_ok_def Suc_leI)
  qed
  with assms(3) go_on_helper show False by fastforce
qed

lemma input_waits:
  assumes "j_helper s = H_do [] Input" "\<not> can_go_on env K P s"
  shows "j_to s = [] \<and> 0 \<le> h_data (j_hp s)"
proof (rule ccontr)
  assume n: "\<not> ?thesis"
  then consider "j_to s \<noteq> []" | "j_to s = []" "h_data (j_hp s) < 0" by linarith
  then have "\<exists>m. hmove_step K P m s \<noteq> None \<and> steady m"
  proof cases
    case 1
    with assms(1) show ?thesis
      by (intro exI [of _ "H_take 0"]) (simp add: hmove_step_def plan_move_def input_move_def CHDB_HELPER_IO_BYTES_def Let_def)
  next
    case 2
    with assms(1) show ?thesis by (intro exI [of _ H_end]) (simp add: hmove_step_def plan_move_def input_move_def)
  qed
  with assms(2) go_on_helper show False by fastforce
qed

lemma exit_goes_on: "j_helper s = H_do [] (Exit st) \<Longrightarrow> can_go_on env K P s"
  by (rule go_on_helper [of _ _ H_next]) (simp_all add: hmove_step_def plan_move_def)

lemma exec_goes_on: "j_helper s = H_exec \<Longrightarrow> can_go_on env K P s"
  by (rule go_on_helper [of _ _ H_next]) (simp_all add: hmove_step_def exec_move_def)

lemma helper_waits:
  assumes "alive s" "buffer_ok (j_helper s)" "caps_ok K" "\<not> can_go_on env K P s" "j_err s = []"
  obtains (setup_pipe) cap buf where "j_helper s = H_setup cap buf" "j_setup s = []" "0 \<le> h_setup (j_hp s) \<or> setup_plan P buf = None"
  | (out_full) x as th where "j_helper s = H_do (Send x # as) th" "x \<noteq> []" "j_from s \<noteq> []" "0 \<le> h_data (j_hp s)"
  | (no_input) "j_helper s = H_do [] Input" "j_to s = []" "0 \<le> h_data (j_hp s)"
proof (cases "j_helper s")
  case H_exec
  with exec_goes_on assms(4) show thesis by blast
next
  case (H_setup cap buf)
  with setup_waits [OF this assms(2,4)] setup_pipe show thesis by blast
next
  case (H_do as th)
  show thesis
  proof (cases as)
    case Nil
    then show thesis using H_do exit_goes_on [of s] input_waits [OF _ assms(4)] assms(4) no_input by (cases th) auto
  next
    case (Cons x r)
    then show thesis using H_do say_waits [OF _ assms(3,4)] send_waits [OF _ assms(3,4)] assms(5) out_full by (cases x) auto
  qed
next
  case (H_exited w)
  with assms(1) show thesis by (simp add: alive_def)
qed

section \<open>Runs without a failing system call of the backend\<close>

text \<open>
  A report then means that the helper has gone; and a helper that has been refused its setup, before
  the backend has closed the pipe, neither sends nor waits for input.
\<close>

definition quiet :: "joint \<Rightarrow> bool" where
  "quiet s \<longleftrightarrow>
     sound_point (j_conf s) \<and> buffer_ok (j_helper s)
     \<and> (\<forall>what. in_end (j_point s) = Some (Reporting what) \<longrightarrow> \<not> alive s)
     \<and> (\<forall>as th. j_helper s = H_do as th \<and> 0 \<le> h_setup (j_hp s) \<longrightarrow> sends as = [] \<and> th \<noteq> Input)"

lemma buffer_ok_simps [simp]: "buffer_ok (H_do as th)" "buffer_ok (H_exited w)"
  by (simp_all add: buffer_ok_def)

lemma quiet_hmove:
  assumes "hmove_step K P m s = Some t" "quiet s"
  shows "quiet t"
proof -
  have c: "alive s" "j_conf t = j_conf s" using hmove_alive [OF assms(1)] by simp_all
  with assms(2) have "\<forall>what. in_end (j_point t) \<noteq> Some (Reporting what)" "sound_point (j_conf t)" by (auto simp: quiet_def)
  moreover have "buffer_ok (j_helper t) \<and>
      (\<forall>as th. j_helper t = H_do as th \<and> 0 \<le> h_setup (j_hp t) \<longrightarrow> sends as = [] \<and> th \<noteq> Input)"
    using assms(1)
  proof (cases rule: hmove_cases)
    case started
    then show ?thesis using assms(2) by (auto simp: hstart_def buffer_ok_def)
  next
    case (payload cap buf k)
    then have "0 < setup_room cap buf" "length (buf @ take (Suc k) (j_setup s)) \<le> setup_room cap buf" by auto
    with payload show ?thesis by (simp add: buffer_ok_def)
  next
    case (finished as th)
    with assms(2) show ?thesis by (auto simp: quiet_def)
  qed (use assms(2) in \<open>auto simp: quiet_def\<close>)
  ultimately show ?thesis by (auto simp: quiet_def)
qed

lemma bnext_setup_closed:
  assumes "bnext env a c = Some c'" "h_setup (hp (bc_be c)) < 0"
  shows "h_setup (hp (bc_be c')) < 0"
  using assms(1)
proof (cases rule: bnext_cases)
  case (written ch)
  with assms(2) show ?thesis by (cases ch) (simp_all add: after_write_def)
next
  case (unwritten ch bs e)
  with assms(2) show ?thesis by (cases ch) (simp_all add: after_write_def)
qed (use assms(2) in simp_all)

text \<open>The descriptors an operation uses are open.\<close>

definition fds_open :: "bconf \<Rightarrow> bool" where
  "fds_open c \<longleftrightarrow>
     (\<forall>ch bs. in_write (bc_point c) = Some (ch, bs) \<longrightarrow> 0 \<le> channel_fd ch (bc_be c))
     \<and> (in_read (bc_point c) \<longrightarrow> 0 \<le> h_data (hp (bc_be c)))"

lemma to_open_fds: "to_open c \<or> to_end c \<Longrightarrow> fds_open c"
  by (auto simp: to_open_def to_end_def fds_open_def channel_fd_def in_write_def in_read_def in_end_def
      split: point.splits channel.splits)

lemma from_open_fds: "from_open c \<or> from_end c \<Longrightarrow> fds_open c"
  by (auto simp: from_open_def from_end_def fds_open_def channel_fd_def in_write_def in_read_def in_end_def
      split: point.splits channel.splits)

lemma write_refused:
  assumes "kernel_answer K m s = Some (WriteAns ch (WriteErr e), u)" "\<forall>x. m \<noteq> B_fault x"
  shows "e \<in> {EAGAIN, EINTR} \<or> \<not> alive s"
  using assms by (cases m) (auto simp: kernel_answer_def Let_def refuse_def split: ask.splits if_splits option.splits hstate.splits)

lemma read_refused:
  assumes "kernel_answer K m s = Some (DataAns (ReadErr e), u)" "\<forall>x. m \<noteq> B_fault x"
  shows "e \<in> {EAGAIN, EINTR}"
  using assms by (cases m) (auto simp: kernel_answer_def Let_def refuse_def some_data_def split: ask.splits if_splits option.splits hstate.splits)

lemma quiet_reports:
  assumes "kernel_answer K m s = Some (a, u)" "bnext env a (j_conf s) = Some c" "\<forall>x. m \<noteq> B_fault x"
    and "quiet s" "linked s" "raising (j_point s) \<or> fds_open (j_conf s)" "in_end (bc_point c) = Some (Reporting what)"
  shows "\<not> alive s"
proof -
  have old: ?thesis if "in_end (j_point s) = Some (Reporting what)" using that assms(4) by (auto simp: quiet_def)
  have reap: ?thesis if "j_point s = E_reap why" for why using that assms(5) by (simp add: linked_def)
  from assms(2) show ?thesis
  proof (cases rule: bnext_cases)
    case (loop p)
    with assms(7) old show ?thesis by simp
  next
    case called
    then show ?thesis using assms(7) by (auto simp: call_step_def split: list.splits op.splits)
  next
    case (written ch)
    then show ?thesis using assms(7) by (cases ch) (auto simp: after_write_def)
  next
    case (unwritten ch bs e)
    then have "0 \<le> channel_fd ch (bc_be (j_conf s))" using assms(6) by (auto simp: fds_open_def)
    with unwritten have "a = WriteAns ch (WriteErr e)" "e \<notin> {EAGAIN, EINTR}" by auto
    with write_refused assms(1,3) show ?thesis by blast
  next
    case (unread len e)
    then have "0 \<le> h_data (j_hp s)" using assms(6) by (auto simp: fds_open_def)
    with unread have "a = DataAns (ReadErr e)" "e \<notin> {EAGAIN, EINTR}" by auto
    with read_refused assms(1,3) show ?thesis by blast
  qed (use assms(7) old reap in auto)
qed

lemma quiet_bmove:
  assumes "bmove_step env K m s = Some t" "\<forall>x. m \<noteq> B_fault x" "quiet s" "linked s"
    and "raising (j_point s) \<or> fds_open (j_conf s)"
  shows "quiet t"
proof -
  obtain a u c where k: "kernel_answer K m s = Some (a, u)" "bnext env a (j_conf s) = Some c" "t = u\<lparr>j_conf := c\<rparr>"
    using assms(1) by (rule bmove_cases)
  note f = kernel_frame [OF k(1)]
  have "\<forall>what. in_end (bc_point c) = Some (Reporting what) \<longrightarrow> \<not> alive s"
    using quiet_reports [OF k(1,2) assms(2-5)] by blast
  moreover have "sound_point c" using bnext_sound [OF k(2)] assms(3) by (simp add: quiet_def)
  moreover have "0 \<le> h_setup (hp (bc_be c)) \<Longrightarrow> 0 \<le> h_setup (j_hp s)" using bnext_setup_closed [OF k(2)] by linarith
  ultimately show ?thesis using assms(3) f k(3) by (auto simp: quiet_def)
qed

lemma quiet_start: "list_all op_sound ops \<Longrightarrow> quiet (jstart noise payload ops b)"
  by (auto simp: quiet_def jstart_def bstart_def sound_point_def buffer_ok_def)

section \<open>A copy can always end\<close>

definition jdone :: "joint \<Rightarrow> bool" where
  "jdone s \<longleftrightarrow> (case j_point s of Returned \<Rightarrow> True | Raised e \<Rightarrow> True | _ \<Rightarrow> False)"

text \<open>
  What makes a copy live: an invariant of the moves under which some sequence of steps always
  brings the copy nearer to its end.
\<close>

locale live_copy =
  fixes env :: helper_env and K :: kernel and P :: program and I :: "joint \<Rightarrow> bool"
  assumes goes_on: "I s \<Longrightarrow> \<not> jdone s \<Longrightarrow> can_go_on env K P s"
    and backend_keeps: "I s \<Longrightarrow> no_io_fault (Backend m) \<Longrightarrow> bmove_step env K m s = Some t \<Longrightarrow> I t"
    and helper_keeps: "I s \<Longrightarrow> hmove_step K P h s = Some t \<Longrightarrow> I t"
begin

lemma keeps: "jreach env K P no_io_fault s t \<Longrightarrow> I s \<Longrightarrow> I t"
  by (erule jreach_rule) (auto intro: backend_keeps helper_keeps)

lemma keeps_faultless: "jreach env K P faultless s t \<Longrightarrow> I s \<Longrightarrow> I t"
  by (erule jreach_rule) (auto intro: backend_keeps helper_keeps simp: faultless_def no_io_fault_def split: bmove.splits)

lemma can_end: "I s \<Longrightarrow> \<exists>t. jreach env K P faultless s t \<and> I t \<and> jdone t"
proof (induction s rule: wfp_induct_rule [OF wfP_nearer])
  case (1 s)
  show ?case
  proof (cases "jdone s")
    case True
    with 1 show ?thesis by (blast intro: jrefl)
  next
    case False
    with goes_on [OF "1.prems"] obtain t where t: "jreach env K P faultless s t" "nearer t s" by (auto simp: can_go_on_def)
    with "1.IH" [OF t(2) keeps_faultless [OF t(1) "1.prems"]] show ?thesis by (blast intro: jreach_trans)
  qed
qed

end

lemma next_goes_on: "j_point s = Next \<Longrightarrow> can_go_on env K P s"
proof -
  assume n: "j_point s = Next"
  then have b: "bmove_step env K B_tau s = Some (s\<lparr>j_conf := call_step (j_conf s)\<rparr>)"
    by (simp add: bmove_step_def kernel_answer_def asks_def bnext_def)
  have "phase (bc_point (call_step (j_conf s))) \<noteq> Next" by (simp add: call_step_def split: list.split op.split)
  with n have "\<not> stutter s (s\<lparr>j_conf := call_step (j_conf s)\<rparr>)" by (auto dest!: stutterD(6))
  then show ?thesis by (rule go_on_backend [OF b, rotated]) simp
qed

lemma written_goes_on: "j_point s = W_check ch [] \<Longrightarrow> can_go_on env K P s"
proof -
  assume n: "j_point s = W_check ch []"
  then have b: "bmove_step env K B_tau s = Some (s\<lparr>j_conf := after_write env ch None (j_conf s)\<rparr>)"
    by (simp add: bmove_step_def kernel_answer_def asks_def bnext_def)
  have "phase (bc_point (after_write env ch None (j_conf s))) = Next" by (cases ch) (simp_all add: after_write_def)
  with n have "\<not> stutter s (s\<lparr>j_conf := after_write env ch None (j_conf s)\<rparr>)" by (auto dest!: stutterD(6))
  then show ?thesis by (rule go_on_backend [OF b, rotated]) simp
qed

lemma raising_goes_on:
  assumes "raising (j_point s)" "\<not> jdone s" "quiet s" "linked s"
  shows "can_go_on env K P s"
proof -
  obtain what where w: "in_end (j_point s) = Some (Reporting what)"
    using assms(1,2) by (auto simp: raising_def jdone_def split: point.splits option.splits cause.splits)
  then show ?thesis using assms(3,4) by (intro end_goes_on [OF w]) (auto simp: quiet_def)
qed

lemma linked_err: "linked s \<Longrightarrow> alive s \<Longrightarrow> 0 \<le> h_err (j_hp s)"
  by (auto simp: linked_def)

text \<open>The payload gets through: the helper reads it, or says why not and goes.\<close>

lemma setup_goes_on:
  assumes "in_write (j_point s) = Some (SetupChannel, bs)" "0 \<le> h_setup (j_hp s)" "quiet s" "linked s" "caps_ok K"
  shows "can_go_on env K P s"
proof (rule ccontr)
  assume n: "\<not> can_go_on env K P s"
  have bs: "bs \<noteq> []" using assms(1,3) written_goes_on [of s SetupChannel] n
    by (cases "j_point s") (auto simp: quiet_def sound_point_def)
  have "alive s \<and> j_setup s \<noteq> [] \<and> j_err s = []"
    using write_goes_on [OF assms(1) bs, of K] n assms(2,5) linked_err [OF assms(4)]
    by (auto simp: channel_fd_def cap_to_def caps_ok_def pipe_to_def)
  then have a: "alive s" "j_setup s \<noteq> []" "j_err s = []" by simp_all
  have q: "buffer_ok (j_helper s)" "\<And>as th. j_helper s = H_do as th \<Longrightarrow> sends as = [] \<and> th \<noteq> Input"
    using assms(2,3) by (auto simp: quiet_def)
  from helper_waits [OF a(1) q(1) assms(5) n a(3)] show False
    by cases (use a(2) q(2) in auto)
qed

lemma no_faultD: "no_io_fault (Backend m) \<Longrightarrow> \<forall>x. m \<noteq> B_fault x"
  by (auto simp: no_io_fault_def)

text \<open>COPY TO: the helper sends nothing, and takes blocks until the channel is closed.\<close>

definition to_live :: "kernel \<Rightarrow> program \<Rightarrow> string \<Rightarrow> string \<Rightarrow> joint \<Rightarrow> bool" where
  "to_live K P payload blocks s \<longleftrightarrow>
     caps_ok K \<and> (\<exists>as th. setup_plan P payload = Some (as, th) \<and> th \<noteq> Exit 0 \<and> sends as = [])
     \<and> to_inv (pr_lib P) payload blocks s \<and> linked s \<and> quiet s
     \<and> (raising (j_point s) \<or> (\<forall>as th. j_helper s = H_do as th \<longrightarrow> sends as = []))"

lemma to_live_goes_on:
  assumes "to_live K P payload blocks s" "\<not> jdone s"
  shows "can_go_on env K P s"
proof (rule ccontr)
  assume n: "\<not> can_go_on env K P s"
  have l: "caps_ok K" "linked s" "quiet s" "setup_plan P payload \<noteq> None" using assms(1) by (auto simp: to_live_def)
  have r: "\<not> raising (j_point s)" using raising_goes_on assms(2) l n by blast
  with assms(1) have o: "to_open (j_conf s) \<or> to_end (j_conf s)" "to_bytes (pr_lib P) payload blocks s"
    and p: "\<And>as th. j_helper s = H_do as th \<Longrightarrow> sends as = []" by (auto simp: to_live_def to_inv_def)
  have q: "buffer_ok (j_helper s)" using l by (simp add: quiet_def)
  have no_setup: False if h: "h_setup (j_hp s) < 0" "j_helper s = H_setup cap buf" for cap buf
    using setup_waits [OF h(2) q n] to_planned [OF o h(2) _ h(1)] l(4) h(1) by auto
  from o(1) show False
  proof
    assume t: "to_open (j_conf s)"
    with next_goes_on n obtain ch bs where w: "in_write (j_point s) = Some (ch, bs)" by (fastforce simp: to_open_def)
    have "ch = DataChannel"
    proof (rule channel.exhaust [of ch])
      assume "ch = SetupChannel"
      with t w setup_goes_on [OF _ _ l(3,2,1)] n show ?thesis by (auto simp: to_open_def)
    qed
    with t w have ch: "ch = DataChannel" "h_setup (j_hp s) < 0" "0 \<le> h_data (j_hp s)" by (auto simp: to_open_def)
    have bs: "bs \<noteq> []" using w l(3) written_goes_on [of s ch] n
      by (cases "j_point s") (auto simp: quiet_def sound_point_def)
    have "alive s \<and> j_to s \<noteq> [] \<and> j_err s = []"
      using write_goes_on [OF w bs, of K] n l(1) ch linked_err [OF l(2)]
      by (auto simp: channel_fd_def cap_to_def caps_ok_def pipe_to_def)
    then have a: "alive s" "j_to s \<noteq> []" "j_err s = []" by simp_all
    from helper_waits [OF a(1) q l(1) n a(3)] show False
      by cases (use a(2) p ch(2) no_setup in auto)
  next
    assume t: "to_end (j_conf s)"
    with next_goes_on n assms(2) have w: "in_end (j_point s) = Some Finishing" by (auto simp: to_end_def jdone_def)
    then have a: "alive s" "j_err s = []" using end_goes_on [OF w _ l(2)] n by blast+
    from helper_waits [OF a(1) q l(1) n a(2)] show False
      by cases (use t no_setup in \<open>auto simp: to_end_def\<close>)
  qed
qed

lemma to_live_helper:
  assumes "to_live K P payload blocks s" "hmove_step K P h s = Some t"
  shows "to_live K P payload blocks t"
proof -
  obtain pas pth where p: "setup_plan P payload = Some (pas, pth)" "pth \<noteq> Exit 0" "sends pas = []"
    using assms(1) by (auto simp: to_live_def)
  have i: "to_inv (pr_lib P) payload blocks s" using assms(1) by (simp add: to_live_def)
  have c: "j_conf t = j_conf s" using hmove_alive [OF assms(2)] by simp
  have "sends as = []" if "\<not> raising (j_point s)" "j_helper t = H_do as th" for as th
    using assms(2)
  proof (cases rule: hmove_cases)
    case (planned cap buf as' th')
    from i that(1) have "to_open (j_conf s) \<or> to_end (j_conf s)" "to_bytes (pr_lib P) payload blocks s"
      by (simp_all add: to_inv_def)
    from to_planned [OF this planned(1-3)] have "buf = payload" .
    with planned p that(2) show ?thesis by simp
  next
    case started
    with that(2) show ?thesis by (auto simp: hstart_def split: if_splits)
  next
    case (finished as' th')
    with that(2) show ?thesis by (auto simp: done_plan_def split: option.splits)
  qed (use assms(1) that in \<open>auto simp: to_live_def\<close>)
  moreover have "to_inv (pr_lib P) payload blocks t" by (rule to_inv_hmove [OF assms(2) i]) (use p in auto)
  ultimately show ?thesis
    using assms(1) c quiet_hmove [OF assms(2)] linked_hmove [OF assms(2)] by (auto simp: to_live_def)
qed

lemma to_live_backend:
  assumes "to_live K P payload blocks s" "no_io_fault (Backend m)" "bmove_step env K m s = Some t"
  shows "to_live K P payload blocks t"
proof -
  have i: "to_inv (pr_lib P) payload blocks s" "linked s" "quiet s" using assms(1) by (simp_all add: to_live_def)
  have "raising (j_point s) \<or> fds_open (j_conf s)" using i(1) to_open_fds by (auto simp: to_inv_def)
  then have "quiet t" using quiet_bmove [OF assms(3) no_faultD [OF assms(2)] i(3,2)] by simp
  moreover have "raising (j_point s) \<Longrightarrow> raising (j_point t)" using bmove_conf [OF assms(3)] bnext_raising by metis
  ultimately show ?thesis
    using assms(1) to_inv_bmove [OF assms(3)] linked_bmove [OF assms(3)] bmove_frame(1) [OF assms(3)] by (auto simp: to_live_def)
qed

interpretation to_copy: live_copy env K P "to_live K P payload blocks"
  for env K P payload blocks
  by unfold_locales (auto intro: to_live_goes_on to_live_helper to_live_backend)

text \<open>
  COPY FROM: the helper takes nothing. Each receive that returns brings a byte, so more receives than
  the result has bytes are enough for its end.
\<close>

definition receives_left :: "nat \<Rightarrow> bconf \<Rightarrow> bool" where
  "receives_left n c \<longleftrightarrow>
     (from_open c \<longrightarrow> (bc_point c = Returned \<longrightarrow> bc_ops c = [])
        \<and> n \<le> length (bc_got c) + length (bc_ops c) + (if in_read (bc_point c) then 1 else 0))"

lemma from_opens: "from_open c \<Longrightarrow> 0 \<le> h_data (hp (bc_be c))"
  by (simp add: from_open_def)

lemma bnext_receives:
  assumes "bnext env a c = Some c'" "receives_left n c" "from_open c \<or> from_end c"
  shows "receives_left n c'"
proof (cases "from_open c'")
  case True
  have o: "from_open c"
  proof (rule ccontr)
    assume "\<not> from_open c"
    with assms(3) bnext_closed(2) [OF assms(1)] have "h_data (hp (bc_be c')) < 0" by (simp add: from_end_def)
    with from_opens [OF True] show False by simp
  qed
  with assms(2) have r: "n \<le> length (bc_got c) + length (bc_ops c) + (if in_read (bc_point c) then 1 else 0)"
    by (simp add: receives_left_def)
  from assms(1) show ?thesis
  proof (cases rule: bnext_cases)
    case (loop p)
    with r show ?thesis by (simp add: receives_left_def)
  next
    case called
    obtain lens where "bc_ops c = map OpRecv lens" using o by (auto simp: from_open_def)
    with called r show ?thesis by (cases lens) (simp_all add: receives_left_def call_step_def)
  next
    case (written ch)
    with r show ?thesis by (cases ch) (simp_all add: receives_left_def after_write_def)
  next
    case (unwritten ch bs e)
    with True show ?thesis by (cases ch) (auto simp: from_open_def after_write_def split: if_splits)
  next
    case (over why)
    with o show ?thesis by (simp add: from_open_def)
  next
    case (waited why st e)
    with o show ?thesis by (simp add: from_open_def)
  next
    case keep
    with o assms(2) show ?thesis by (simp add: receives_left_def)
  next
    case closed
    with o assms(2) show ?thesis by (simp add: receives_left_def)
  qed (use r True in \<open>auto simp: receives_left_def from_open_def\<close>)
qed (simp add: receives_left_def)

definition from_live :: "kernel \<Rightarrow> program \<Rightarrow> string \<Rightarrow> string \<Rightarrow> nat \<Rightarrow> joint \<Rightarrow> bool" where
  "from_live K P payload res n s \<longleftrightarrow>
     caps_ok K
     \<and> (\<exists>as th. setup_plan P payload = Some (as, th) \<and> th \<noteq> Input \<and> res = sends as
          \<and> from_inv payload res (th = Exit 0) s)
     \<and> linked s \<and> quiet s \<and> (raising (j_point s) \<or> receives_left n (j_conf s))"

lemma from_live_goes_on:
  assumes "from_live K P payload res n s" "\<not> jdone s"
  shows "can_go_on env K P s"
proof (rule ccontr)
  assume n: "\<not> can_go_on env K P s"
  have l: "caps_ok K" "linked s" "quiet s" "setup_plan P payload \<noteq> None" using assms(1) by (auto simp: from_live_def)
  have r: "\<not> raising (j_point s)" using raising_goes_on assms(2) l n by blast
  with assms(1) obtain ok where o: "from_open (j_conf s) \<or> from_end (j_conf s)" "from_bytes payload res ok s"
    and e: "from_end (j_conf s) \<Longrightarrow> \<not> from_open (j_conf s) \<Longrightarrow> \<not> alive s" by (auto simp: from_live_def from_inv_def)
  have q: "buffer_ok (j_helper s)" using l by (simp add: quiet_def)
  have no_setup: False if h: "h_setup (j_hp s) < 0" "j_helper s = H_setup cap buf" for cap buf
    using setup_waits [OF h(2) q n] from_planned [OF o h(2) _ h(1)] l(4) h(1) by auto
  show False
  proof (cases "from_open (j_conf s)")
    case t: True
    then have "in_write (j_point s) \<noteq> None \<or> j_point s = Next \<or> in_read (j_point s) \<or> j_point s = Returned"
      by (auto simp: from_open_def split: option.splits)
    moreover have "in_write (j_point s) = None"
      using t setup_goes_on [OF _ _ l(3,2,1)] n by (auto simp: from_open_def split: option.splits)
    ultimately have w: "in_read (j_point s)" using next_goes_on n assms(2) by (auto simp: jdone_def)
    have f: "h_setup (j_hp s) < 0" "0 \<le> h_data (j_hp s)" using t w by (auto simp: from_open_def in_read_def split: point.splits)
    have "alive s \<and> j_from s = [] \<and> j_err s = []"
      using read_goes_on [OF w _ f(2)] l(3) linked_err [OF l(2)] n by (auto simp: quiet_def)
    then have a: "alive s" "j_from s = []" "j_err s = []" by simp_all
    from helper_waits [OF a(1) q l(1) n a(3)] show False
      by cases (use a(2) f(1) no_setup o(2) in \<open>auto simp: from_bytes_def\<close>)
  next
    case False
    with o(1) assms(2) have "in_end (j_point s) = Some EndOfStream" by (auto simp: from_end_def jdone_def)
    from end_goes_on [OF this _ l(2)] e False o(1) n show False by blast
  qed
qed

lemma from_live_helper:
  assumes "from_live K P payload res n s" "hmove_step K P h s = Some t"
  shows "from_live K P payload res n t"
proof -
  obtain as th where p: "setup_plan P payload = Some (as, th)" "th \<noteq> Input" "res = sends as"
    "from_inv payload res (th = Exit 0) s" using assms(1) by (auto simp: from_live_def)
  have "j_conf t = j_conf s" using hmove_alive [OF assms(2)] by simp
  moreover have "from_inv payload res (th = Exit 0) t" by (rule from_inv_hmove [OF assms(2) p(4,1-3) refl])
  ultimately show ?thesis
    using assms(1) p(1-3) quiet_hmove [OF assms(2)] linked_hmove [OF assms(2)] by (auto simp: from_live_def)
qed

lemma from_live_backend:
  assumes "from_live K P payload res n s" "no_io_fault (Backend m)" "bmove_step env K m s = Some t"
  shows "from_live K P payload res n t"
proof -
  obtain as th where p: "setup_plan P payload = Some (as, th)" "th \<noteq> Input" "res = sends as"
    "from_inv payload res (th = Exit 0) s" using assms(1) by (auto simp: from_live_def)
  have i: "linked s" "quiet s" "raising (j_point s) \<or> receives_left n (j_conf s)" using assms(1) by (simp_all add: from_live_def)
  have o: "raising (j_point s) \<or> from_open (j_conf s) \<or> from_end (j_conf s)" using p(4) by (auto simp: from_inv_def)
  then have "quiet t" using quiet_bmove [OF assms(3) no_faultD [OF assms(2)] i(2,1)] from_open_fds by blast
  moreover have "raising (j_point t) \<or> receives_left n (j_conf t)"
    using bmove_conf [OF assms(3)] bnext_raising bnext_receives o i(3) by metis
  ultimately show ?thesis
    using assms(1) p(1-3) from_inv_bmove [OF assms(3) p(4)] linked_bmove [OF assms(3) i(1)] by (auto simp: from_live_def)
qed

interpretation from_copy: live_copy env K P "from_live K P payload res n"
  for env K P payload res n
  by unfold_locales (auto intro: from_live_goes_on from_live_helper from_live_backend)

end
