(* ===== verification/Joint_Success.thy ===== *)
theory Joint_Success
  imports Joint_Progress
begin

text \<open>
  How a copy ends. After any run without a failing system call of the backend, cancels and crashes included, the
  copy can be brought to its end without further faults (\<open>copy_to_can_end\<close>, \<open>copy_from_can_end\<close>). When
  there was no fault and chDB accepts what it is asked, nothing is raised on any schedule, and the
  end is the success (\<open>copy_to_completes\<close>, \<open>copy_from_completes\<close>). A failing write of the backend is different:
  the report waits for a helper that still waits for the backend (\<open>failed_write_hangs\<close>).
\<close>

section \<open>The start\<close>

lemma insert_plan_sends:
  assumes "parse_setup (pr_alloc P) (pr_endian P) payload = Inr req" "length (req_timezone req) < 2 ^ 31"
    "cmd (req_ctx req) = CHDB_CMD_INSERT"
  obtains as th where "setup_plan P payload = Some (as, th)" "th \<noteq> Exit 0" "sends as = []"
proof -
  have "\<exists>as th. setup_plan P payload = Some (as, th) \<and> th \<noteq> Exit 0 \<and> sends as = []"
    using assms
    by (auto simp: setup_plan_def request_plan_def Let_def session_settings_def insert_plan_def split: option.splits)
  with that show thesis by blast
qed

lemma to_live_start:
  assumes "just_forked b" "caps_ok K" "setup_plan P payload = Some (as, th)" "th \<noteq> Exit 0" "sends as = []"
  shows "to_live K P payload (concat bss) (jstart noise payload (map OpWrite bss @ [OpFinish]) b)"
proof -
  have "to_inv (pr_lib P) payload (concat bss) (jstart noise payload (map OpWrite bss @ [OpFinish]) b)
      \<and> linked (jstart noise payload (map OpWrite bss @ [OpFinish]) b)"
    by (rule to_run [OF jrefl assms(1)]) (use assms(3,4) in auto)
  moreover have "quiet (jstart noise payload (map OpWrite bss @ [OpFinish]) b)"
    by (rule quiet_start) (simp add: op_sound_def list_all_iff)
  ultimately show ?thesis using assms by (auto simp: to_live_def jstart_def)
qed

lemma from_live_start:
  assumes "just_forked b" "caps_ok K" "setup_plan P payload = Some (as, th)" "th \<noteq> Input" "list_all (\<lambda>n. 0 < n) lens"
  shows "from_live K P payload (sends as) (length lens) (jstart noise payload (map OpRecv lens) b)"
proof -
  have "from_inv payload (sends as) (th = Exit 0) (jstart noise payload (map OpRecv lens) b)
      \<and> linked (jstart noise payload (map OpRecv lens) b)"
    by (rule from_run [OF jrefl assms(1,3,4)])
  moreover have "quiet (jstart noise payload (map OpRecv lens) b)"
    by (rule quiet_start) (use assms(5) in \<open>auto simp: op_sound_def list_all_iff\<close>)
  moreover have "receives_left (length lens) (j_conf (jstart noise payload (map OpRecv lens) b))"
    by (simp add: receives_left_def jstart_def bstart_def)
  ultimately show ?thesis using assms(2-4) by (auto simp: from_live_def)
qed

text \<open>Enough receives are not used up before the stream has ended.\<close>

lemma from_live_returned:
  assumes "from_live K P payload res n s" "length res < n" "j_point s = Returned"
  shows "from_end (j_conf s) \<and> j_from s = [] \<and> \<not> alive s"
proof (rule ccontr)
  assume x: "\<not> ?thesis"
  obtain ok where i: "from_inv payload res ok s" using assms(1) by (auto simp: from_live_def)
  with x assms(3) have o: "from_open (j_conf s)" "from_bytes payload res ok s" by (auto simp: from_inv_def)
  have l: "n \<le> length (bc_got (j_conf s))"
    using assms(1,3) o(1) by (auto simp: from_live_def receives_left_def)
  have "length (bc_got (j_conf s)) \<le> length res"
    using o(2) prefix_length_le [of _ res] by (fastforce simp: from_bytes_def Let_def split: hstate.splits)
  with l assms(2) show False by simp
qed

lemma jdone_cases: "jdone s \<Longrightarrow> j_point s = Returned \<or> (\<exists>e. j_point s = Raised e)"
  by (auto simp: jdone_def split: point.splits)

section \<open>The end is in reach\<close>

text \<open>
  C10. COPY TO cannot hang: from every state it gets into, by whatever schedule, channel sizes, error
  output of the library, crash of the helper or cancel, as long as no system call of the backend fails, steps of the
  two processes without further faults lead to its end: it raises, or it returns with all blocks taken.
\<close>

theorem copy_to_can_end:
  assumes "jreach env K P no_io_fault (jstart noise payload (map OpWrite bss @ [OpFinish]) b) s" and "just_forked b"
    and "caps_ok K" and "parse_setup (pr_alloc P) (pr_endian P) payload = Inr req"
    and "length (req_timezone req) < 2 ^ 31" and "cmd (req_ctx req) = CHDB_CMD_INSERT"
  shows "\<exists>t. jreach env K P faultless s t
    \<and> (j_point t = Returned \<and> j_taken t = concat bss \<and> lib_done (pr_lib P) (concat bss) = None \<or> (\<exists>e. j_point t = Raised e))"
proof -
  obtain as th where p: "setup_plan P payload = Some (as, th)" "th \<noteq> Exit 0" "sends as = []"
    using insert_plan_sends [OF assms(4-6)] by blast
  have "to_live K P payload (concat bss) s"
    by (rule to_copy.keeps [OF assms(1) to_live_start [OF assms(2,3) p]])
  from to_copy.can_end [OF this] obtain t where
    t: "jreach env K P faultless s t" "to_live K P payload (concat bss) t" "jdone t" by blast
  have "j_taken t = concat bss \<and> lib_done (pr_lib P) (concat bss) = None" if r: "j_point t = Returned"
  proof -
    have i: "to_end (j_conf t)" "to_bytes (pr_lib P) payload (concat bss) t" "linked t"
      using t(2) r by (auto simp: to_live_def to_inv_def to_open_def)
    then have "j_helper t = H_exited 0" using r by (auto simp: to_end_def linked_def)
    with i(2) show ?thesis by (simp add: to_bytes_def)
  qed
  with t jdone_cases show ?thesis by blast
qed

text \<open>
  C11. COPY FROM cannot hang either, whatever the query's result, an error in the middle of it
  included: the end of the stream or an error is in reach, provided the backend goes on receiving.
\<close>

theorem copy_from_can_end:
  assumes "jreach env K P no_io_fault (jstart noise payload (map OpRecv lens) b) s" and "just_forked b"
    and "caps_ok K" and "parse_setup (pr_alloc P) (pr_endian P) payload = Inr req"
    and "length (req_timezone req) < 2 ^ 31" and "cmd (req_ctx req) = CHDB_CMD_SELECT"
    and "chunks_value (lib_fetch (pr_lib P) (req_query req) (req_params req)) = (res, failure)"
    and "list_all (\<lambda>n. 0 < n) lens" and "length res < length lens"
  shows "\<exists>t. jreach env K P faultless s t
    \<and> (j_point t = Returned \<and> bc_got (j_conf t) = res \<and> failure = None \<or> (\<exists>e. j_point t = Raised e))"
proof -
  obtain as th where p: "setup_plan P payload = Some (as, th)" "th \<noteq> Input" "prefix (sends as) res"
    "th = Exit 0 \<longrightarrow> sends as = res \<and> failure = None"
    using select_plan_value [OF assms(4-7)] by blast
  have "from_live K P payload (sends as) (length lens) s"
    by (rule from_copy.keeps [OF assms(1) from_live_start [OF assms(2,3) p(1,2) assms(8)]])
  from from_copy.can_end [OF this] obtain t where
    t: "jreach env K P faultless s t" "from_live K P payload (sends as) (length lens) t" "jdone t" by blast
  have "bc_got (j_conf t) = res \<and> failure = None" if r: "j_point t = Returned"
  proof -
    have "length (sends as) < length lens" using p(3) assms(9) prefix_length_le by fastforce
    from from_live_returned [OF t(2) this r] have e: "from_end (j_conf t)" "j_from t = []" by auto
    have i: "from_bytes payload (sends as) (th = Exit 0) t" "linked t"
      using t(2) r p(1) by (auto simp: from_live_def from_inv_def)
    then have "j_helper t = H_exited 0" using e r by (auto simp: from_end_def linked_def)
    with i(1) e(2) p(4) show ?thesis by (simp add: from_bytes_def Let_def)
  qed
  with t jdone_cases show ?thesis by blast
qed

section \<open>Nothing is raised without a reason\<close>

text \<open>
  A copy is going well: nothing is being raised, the child was collected with status 0 if at all, the
  helper is on its way to status 0, and it leaves only when the backend does not write any more.
\<close>

definition going_well :: "joint \<Rightarrow> bool" where
  "going_well s \<longleftrightarrow>
     \<not> raising (j_point s) \<and> (h_reaped (j_hp s) \<longrightarrow> h_status (j_hp s) = 0)
     \<and> (case j_helper s of
          H_exec \<Rightarrow> True
        | H_setup cap buf \<Rightarrow> \<exists>k\<le>8. cap = 65536 * 2 ^ k
        | H_do as th \<Rightarrow> h_setup (j_hp s) < 0 \<and> (th = Input \<or> th = Exit 0)
        | H_exited w \<Rightarrow> h_setup (j_hp s) < 0 \<and> w = 0)"

lemma wait_answer:
  assumes "kernel_answer K m s = Some (WaitAns r, u)" "\<forall>x. m \<noteq> B_fault x"
  shows "r = WaitErr EINTR \<or> (\<exists>w. r = Ended w \<and> j_helper s = H_exited w)"
  using assms by (cases m) (auto simp: kernel_answer_def Let_def refuse_def split: ask.splits if_splits option.splits hstate.splits)

lemma check_answer: "kernel_answer K m s = Some (Intr b, u) \<Longrightarrow> faultless (Backend m) \<Longrightarrow> \<not> b"
  by (cases m) (auto simp: faultless_def kernel_answer_def Let_def refuse_def split: ask.splits if_splits option.splits hstate.splits)

lemma going_well_backend:
  assumes "bmove_step env K m s = Some t" "faultless (Backend m)" "going_well s" "fds_open (j_conf s)" "linked s"
    and "\<And>ch bs. in_write (j_point s) = Some (ch, bs) \<Longrightarrow> alive s"
  shows "going_well t"
proof -
  obtain a u c where k: "kernel_answer K m s = Some (a, u)" "bnext env a (j_conf s) = Some c" "t = u\<lparr>j_conf := c\<rparr>"
    using assms(1) by (rule bmove_cases)
  note f = kernel_frame [OF k(1)]
  have n: "\<forall>x. m \<noteq> B_fault x" using assms(2) by (auto simp: faultless_def)
  have g: "\<not> raising (j_point s)" "h_reaped (j_hp s) \<Longrightarrow> h_status (j_hp s) = 0" using assms(3) by (simp_all add: going_well_def)
  have "\<not> raising (bc_point c) \<and> (h_reaped (hp (bc_be c)) \<longrightarrow> h_status (hp (bc_be c)) = 0)"
    using k(2)
  proof (cases rule: bnext_cases)
    case cancel
    with check_answer [of K m s] k(1) assms(2) show ?thesis by auto
  next
    case (loop p)
    with g show ?thesis by simp
  next
    case called
    with g show ?thesis by (auto simp: call_step_def split: list.split op.split)
  next
    case (written ch)
    with g show ?thesis by (cases ch) (simp_all add: after_write_def)
  next
    case (unwritten ch bs e)
    then have "0 \<le> channel_fd ch (bc_be (j_conf s))" using assms(4) by (auto simp: fds_open_def)
    with unwritten have "a = WriteAns ch (WriteErr e)" "e \<notin> {EAGAIN, EINTR}" by auto
    with write_refused k(1) n have "\<not> alive s" by blast
    with assms(6) unwritten(2) show ?thesis by simp
  next
    case (unread len e)
    then have "0 \<le> h_data (j_hp s)" using assms(4) by (auto simp: fds_open_def)
    with unread have "a = DataAns (ReadErr e)" "e \<notin> {EAGAIN, EINTR}" by auto
    with read_refused k(1) n show ?thesis by blast
  next
    case (over why)
    with g show ?thesis by (cases why) (simp_all add: after_end_def)
  next
    case (waited why st e)
    with wait_answer [of K m s] k(1) n have "j_helper s = H_exited st" by auto
    then have "st = 0" using assms(3) by (simp add: going_well_def)
    with waited g show ?thesis by (cases why) (auto simp: after_end_def)
  qed (use g in simp_all)
  then show ?thesis
    using assms(3) f(1) k(3) bnext_setup_closed [OF k(2)] by (auto simp: going_well_def split: hstate.splits)
qed

lemma grown_cap:
  assumes "k \<le> 8" "setup_refused P (65536 * 2 ^ k) buf = None"
  shows "\<exists>i\<le>8. setup_room (65536 * 2 ^ k) buf = 65536 * 2 ^ i"
proof (cases "length buf = 65536 * 2 ^ k")
  case True
  then have "2 * (65536 * 2 ^ k) \<le> CHDB_SETUP_MAX" using assms(2) by (auto simp: setup_refused_def split: if_splits)
  then have "(2::nat) ^ Suc k \<le> 2 ^ 8" by (simp add: CHDB_SETUP_MAX_def)
  then have "Suc k \<le> 8" by (meson one_less_numeral_iff power_le_imp_le_exp semiring_norm(76))
  with True show ?thesis by (intro exI [of _ "Suc k"]) (simp add: setup_room_def)
qed (use assms(1) in \<open>auto simp: setup_room_def\<close>)

lemma not_refused:
  assumes "k \<le> 8" "length buf < CHDB_SETUP_MAX" "\<forall>n. pr_alloc P n"
  shows "setup_refused P (65536 * 2 ^ k) buf = None"
proof -
  have "2 * (65536 * 2 ^ k) \<le> CHDB_SETUP_MAX" if "length buf = 65536 * 2 ^ k"
  proof -
    have "(2::nat) ^ k < 2 ^ 8" using assms(2) that by (simp add: CHDB_SETUP_MAX_def)
    from power_less_imp_less_exp [OF _ this] have "Suc k \<le> 8" by simp
    then have "(2::nat) ^ Suc k \<le> 2 ^ 8" by (rule power_increasing) simp
    then show ?thesis by (simp add: CHDB_SETUP_MAX_def)
  qed
  with assms(3) show ?thesis by (auto simp: setup_refused_def)
qed

lemma going_well_helper:
  assumes "hmove_step K P m s = Some t" "faultless (Helper m)" "going_well s" "\<forall>n. pr_alloc P n"
    and "\<And>cap buf. j_helper s = H_setup cap buf \<Longrightarrow> length buf < CHDB_SETUP_MAX"
    and "\<And>cap buf as th. j_helper s = H_setup cap buf \<Longrightarrow> j_setup s = [] \<Longrightarrow> h_setup (j_hp s) < 0
      \<Longrightarrow> setup_plan P buf = Some (as, th) \<Longrightarrow> th = Input \<or> th = Exit 0"
    and "\<And>x as th. j_helper s = H_do (Send x # as) th \<Longrightarrow> x \<noteq> [] \<Longrightarrow> 0 \<le> h_data (j_hp s)"
    and "\<And>b. j_helper s = H_do [] Input \<Longrightarrow> lib_append (pr_lib P) (j_taken s) b = None"
    and "j_helper s = H_do [] Input \<Longrightarrow> j_to s = [] \<Longrightarrow> h_data (j_hp s) < 0 \<Longrightarrow> lib_done (pr_lib P) (j_taken s) = None"
  shows "going_well t"
  using assms(1)
proof (cases rule: hmove_cases)
  case (crash sig)
  with assms(2) show ?thesis by (simp add: faultless_def)
next
  case started
  have "\<exists>k\<le>8. (65536::nat) = 65536 * 2 ^ k" by (intro exI [of _ "0::nat"]) simp
  with started assms(3,4) show ?thesis by (simp add: going_well_def hstart_def)
next
  case (unstarted st)
  with assms(2) show ?thesis by (auto simp: faultless_def)
next
  case (unread cap buf e)
  with assms(2) show ?thesis by (simp add: faultless_def)
next
  case (unreceived e)
  with assms(2) show ?thesis by (simp add: faultless_def)
next
  case (refused cap buf msg)
  with assms(3) obtain k where "k \<le> 8" "cap = 65536 * 2 ^ k" by (auto simp: going_well_def)
  with not_refused [of k buf P] assms(4,5) refused(1,2) show ?thesis by auto
next
  case (payload cap buf k)
  with assms(3) obtain i where i: "i \<le> 8" "cap = 65536 * 2 ^ i" by (auto simp: going_well_def)
  with grown_cap [of i P buf] payload(2) have "\<exists>j\<le>8. setup_room cap buf = 65536 * 2 ^ j" by simp
  with payload assms(3) show ?thesis by (simp add: going_well_def)
next
  case (planned cap buf as th)
  with assms(3,6) show ?thesis by (simp add: going_well_def)
next
  case (lost x as th)
  with assms(2,7) show ?thesis by (fastforce simp: faultless_def)
next
  case (unappended k msg)
  with assms(8) show ?thesis by simp
next
  case (finished as th)
  with assms(9) have "th = Exit 0" by (simp add: done_plan_def)
  with finished assms(3) show ?thesis by (simp add: going_well_def)
qed (use assms(3) in \<open>auto simp: going_well_def\<close>)

text \<open>COPY TO, when chDB takes every block; the helper leaves only after the data channel is closed.\<close>

definition accepts :: "chdb_lib \<Rightarrow> string \<Rightarrow> bool" where
  "accepts lib blocks \<longleftrightarrow> (\<forall>taken b. lib_append lib taken b = None) \<and> lib_done lib blocks = None"

definition helper_takes :: "program \<Rightarrow> string \<Rightarrow> bool" where
  "helper_takes P payload \<longleftrightarrow> (\<forall>n. pr_alloc P n) \<and> length payload < CHDB_SETUP_MAX"

definition to_well :: "kernel \<Rightarrow> program \<Rightarrow> string \<Rightarrow> string \<Rightarrow> joint \<Rightarrow> bool" where
  "to_well K P payload blocks s \<longleftrightarrow>
     to_live K P payload blocks s \<and> going_well s \<and> helper_takes P payload
     \<and> setup_plan P payload = Some ([], Input) \<and> accepts (pr_lib P) blocks
     \<and> (\<not> alive s \<or> (\<exists>as. j_helper s = H_do as (Exit 0)) \<longrightarrow> h_data (j_hp s) < 0)"

lemma to_well_helper:
  assumes "to_well K P payload blocks s" "hmove_step K P h s = Some t" "faultless (Helper h)"
  shows "to_well K P payload blocks t"
proof -
  have l: "to_live K P payload blocks s" "going_well s" "\<forall>n. pr_alloc P n" "length payload < CHDB_SETUP_MAX"
    "setup_plan P payload = Some ([], Input)" "accepts (pr_lib P) blocks" using assms(1) by (simp_all add: to_well_def helper_takes_def)
  have r: "\<not> raising (j_point s)" using l(2) by (simp add: going_well_def)
  with l(1) have o: "to_open (j_conf s) \<or> to_end (j_conf s)" and b: "to_bytes (pr_lib P) payload blocks s"
    and ns: "\<And>as th. j_helper s = H_do as th \<Longrightarrow> sends as = []" by (auto simp: to_live_def to_inv_def)
  have buf: "length buf < CHDB_SETUP_MAX" if "j_helper s = H_setup cap buf" for cap buf
  proof -
    have "length buf \<le> length payload" using b that by (auto simp: to_bytes_def)
    with l(4) show ?thesis by simp
  qed
  have "going_well t"
  proof (rule going_well_helper [OF assms(2,3) l(2,3) buf])
    show "th = Input \<or> th = Exit 0" if "j_helper s = H_setup cap buf" "j_setup s = []" "h_setup (j_hp s) < 0"
      "setup_plan P buf = Some (as, th)" for cap buf as th
      using that to_planned [OF o b that(1-3)] l(5) by simp
    show "0 \<le> h_data (j_hp s)" if "j_helper s = H_do (Send x # as) th" "x \<noteq> []" for x as th
      using ns [OF that(1)] that(2) by simp
    show "lib_append (pr_lib P) (j_taken s) b = None" for b using l(6) by (simp add: accepts_def)
    show "lib_done (pr_lib P) (j_taken s) = None" if "j_helper s = H_do [] Input" "j_to s = []" "h_data (j_hp s) < 0"
      using to_finished [OF o b that] l(6) by (simp add: accepts_def)
  qed
  moreover have "\<not> alive t \<or> (\<exists>as. j_helper t = H_do as (Exit 0)) \<longrightarrow> h_data (j_hp t) < 0"
    using assms(2)
  proof (cases rule: hmove_cases)
    case (crash sig)
    with assms(3) show ?thesis by (simp add: faultless_def)
  next
    case (planned cap buf as th)
    with to_planned [OF o b planned(1-3)] l(5) show ?thesis by (simp add: alive_def)
  next
    case started
    then show ?thesis by (simp add: hstart_def alive_def)
  next
    case (unstarted st)
    with assms(3) show ?thesis by (auto simp: faultless_def)
  next
    case (unreceived e)
    with assms(3) show ?thesis by (simp add: faultless_def)
  next
    case (lost x as th)
    with ns show ?thesis by fastforce
  next
    case (exits st)
    moreover have "st = 0" using l(2) exits(1) by (simp add: going_well_def)
    ultimately show ?thesis using assms(1) by (auto simp: to_well_def)
  qed (use assms(1) in \<open>auto simp: to_well_def alive_def\<close>)
  ultimately show ?thesis using assms(1) to_live_helper [OF l(1) assms(2)] by (simp add: to_well_def)
qed

lemma faultless_io: "faultless m \<Longrightarrow> no_io_fault m"
  by (auto simp: faultless_def no_io_fault_def split: move.splits bmove.splits)

text \<open>A helper that has its setup pipe still open is there.\<close>

lemma going_well_alive: "going_well s \<Longrightarrow> 0 \<le> h_setup (j_hp s) \<Longrightarrow> alive s"
  by (auto simp: going_well_def alive_def split: hstate.splits)

lemma to_well_backend:
  assumes "to_well K P payload blocks s" "faultless (Backend m)" "bmove_step env K m s = Some t"
  shows "to_well K P payload blocks t"
proof -
  have l: "to_live K P payload blocks s" "going_well s" "linked s" using assms(1) by (simp_all add: to_well_def to_live_def)
  have o: "to_open (j_conf s) \<or> to_end (j_conf s)" using l(1,2) by (auto simp: to_live_def to_inv_def going_well_def)
  have "alive s" if w: "in_write (j_point s) = Some (ch, bs)" for ch bs
  proof -
    have t: "to_open (j_conf s)" using o w by (auto simp: to_end_def dest: in_end_write)
    then have "0 \<le> h_data (j_hp s)" by (simp add: to_open_def)
    with assms(1) show ?thesis by (auto simp: to_well_def)
  qed
  from going_well_backend [OF assms(3,2) l(2) to_open_fds [OF o] l(3) this] have "going_well t" .
  moreover have "h_data (j_hp s) < 0 \<Longrightarrow> h_data (j_hp t) < 0"
    using bmove_conf [OF assms(3)] bnext_closed(2) by metis
  ultimately show ?thesis
    using assms(1) to_live_backend [OF l(1) faultless_io [OF assms(2)] assms(3)] bmove_frame(1,4) [OF assms(3)]
    by (auto simp: to_well_def)
qed

text \<open>COPY FROM, when the query has a result without an error.\<close>

definition from_well :: "kernel \<Rightarrow> program \<Rightarrow> string \<Rightarrow> string \<Rightarrow> nat \<Rightarrow> joint \<Rightarrow> bool" where
  "from_well K P payload res n s \<longleftrightarrow>
     from_live K P payload res n s \<and> going_well s \<and> helper_takes P payload
     \<and> (\<exists>as. setup_plan P payload = Some (as, Exit 0))"

lemma from_well_helper:
  assumes "from_well K P payload res n s" "hmove_step K P h s = Some t" "faultless (Helper h)"
  shows "from_well K P payload res n t"
proof -
  have l: "from_live K P payload res n s" "going_well s" "\<forall>n. pr_alloc P n" "length payload < CHDB_SETUP_MAX"
    using assms(1) by (simp_all add: from_well_def helper_takes_def)
  obtain pas where p: "setup_plan P payload = Some (pas, Exit 0)" using assms(1) by (auto simp: from_well_def)
  have r: "\<not> raising (j_point s)" using l(2) by (simp add: going_well_def)
  have a: "alive s" using hmove_alive [OF assms(2)] by simp
  with l(1) r obtain ok where o: "from_open (j_conf s)" and b: "from_bytes payload res ok s"
    by (auto simp: from_live_def from_inv_def)
  have buf: "length buf < CHDB_SETUP_MAX" if "j_helper s = H_setup cap buf" for cap buf
  proof -
    have "length buf \<le> length payload" using b that by (auto simp: from_bytes_def)
    with l(4) show ?thesis by simp
  qed
  have "going_well t"
  proof (rule going_well_helper [OF assms(2,3) l(2,3) buf])
    show "th = Input \<or> th = Exit 0" if "j_helper s = H_setup cap buf" "j_setup s = []" "h_setup (j_hp s) < 0"
      "setup_plan P buf = Some (as, th)" for cap buf as th
      using that from_planned(1) [OF disjI1 [OF o] b that(1-3)] p by simp
    show "0 \<le> h_data (j_hp s)" if "j_helper s = H_do (Send x # as) th" "x \<noteq> []" for x as th
      using from_opens [OF o] by simp
    show "lib_append (pr_lib P) (j_taken s) x = None" if "j_helper s = H_do [] Input" for x
      using b that by (simp add: from_bytes_def)
    show "lib_done (pr_lib P) (j_taken s) = None" if "j_helper s = H_do [] Input"
      using b that by (simp add: from_bytes_def)
  qed
  with assms(1) from_live_helper [OF l(1) assms(2)] show ?thesis by (simp add: from_well_def)
qed

lemma from_well_backend:
  assumes "from_well K P payload res n s" "faultless (Backend m)" "bmove_step env K m s = Some t"
  shows "from_well K P payload res n t"
proof -
  have l: "from_live K P payload res n s" "going_well s" "linked s" using assms(1) by (simp_all add: from_well_def from_live_def)
  have o: "from_open (j_conf s) \<or> from_end (j_conf s)" using l(1,2) by (auto simp: from_live_def from_inv_def going_well_def)
  have "alive s" if w: "in_write (j_point s) = Some (ch, bs)" for ch bs
  proof -
    have "from_open (j_conf s)" using o w by (auto simp: from_end_def dest: in_end_write)
    with w have "0 \<le> h_setup (j_hp s)" by (auto simp: from_open_def)
    with going_well_alive [OF l(2)] show ?thesis .
  qed
  from going_well_backend [OF assms(3,2) l(2) from_open_fds [OF o] l(3) this]
  show ?thesis using assms(1) from_live_backend [OF l(1) faultless_io [OF assms(2)] assms(3)] by (simp add: from_well_def)
qed

text \<open>A live copy that no fault disturbs: it raises nothing, so its end is the success.\<close>

locale well_copy = live_copy +
  fixes W :: "joint \<Rightarrow> bool"
  assumes well_live: "W s \<Longrightarrow> I s"
    and well_smooth: "W s \<Longrightarrow> \<not> raising (j_point s)"
    and well_backend: "W s \<Longrightarrow> faultless (Backend m) \<Longrightarrow> bmove_step env K m s = Some t \<Longrightarrow> W t"
    and well_helper: "W s \<Longrightarrow> faultless (Helper h) \<Longrightarrow> hmove_step K P h s = Some t \<Longrightarrow> W t"
begin

lemma stays_well: "jreach env K P faultless s t \<Longrightarrow> W s \<Longrightarrow> W t"
  by (erule jreach_rule) (auto intro: well_backend well_helper)

lemma completes: "W s \<Longrightarrow> \<exists>t. jreach env K P faultless s t \<and> W t \<and> j_point t = Returned"
proof -
  assume w: "W s"
  obtain t where t: "jreach env K P faultless s t" "jdone t" using can_end [OF well_live [OF w]] by blast
  have "W t" using stays_well [OF t(1) w] .
  with well_smooth [OF this] jdone_cases [OF t(2)] have "j_point t = Returned" by auto
  with t(1) \<open>W t\<close> show ?thesis by blast
qed

end

lemma to_well_parts:
  "to_well K P payload blocks s \<Longrightarrow> to_live K P payload blocks s" "to_well K P payload blocks s \<Longrightarrow> \<not> raising (j_point s)"
  by (simp_all add: to_well_def going_well_def)

interpretation to_fair: well_copy env K P "to_live K P payload blocks" "to_well K P payload blocks"
  for env K P payload blocks
  by unfold_locales (auto dest: to_well_parts intro: to_well_helper to_well_backend)

lemma from_well_parts:
  "from_well K P payload res n s \<Longrightarrow> from_live K P payload res n s" "from_well K P payload res n s \<Longrightarrow> \<not> raising (j_point s)"
  by (simp_all add: from_well_def going_well_def)

interpretation from_fair: well_copy env K P "from_live K P payload res n" "from_well K P payload res n"
  for env K P payload res n
  by unfold_locales (auto dest: from_well_parts intro: from_well_helper from_well_backend)

lemma going_well_start:
  assumes "just_forked b" "\<forall>n. pr_alloc P n"
  shows "going_well (jstart noise payload ops b)"
  using assms by (simp add: going_well_def jstart_def bstart_def just_forked_def)

text \<open>What an insert that chDB accepts is planned as.\<close>

definition chdb_agrees :: "program \<Rightarrow> setup_request \<Rightarrow> bool" where
  "chdb_agrees P req \<longleftrightarrow>
     lib_connects (pr_lib P) \<and> (\<forall>text. lib_settings (pr_lib P) text = None) \<and> (\<forall>n. pr_alloc P n)
     \<and> lib_insert_error (pr_lib P) (req_query req) (req_params req) = None
     \<and> lib_stream_error (pr_lib P) (req_query req) (req_params req) = None"

lemma agreed_insert:
  assumes "parse_setup (pr_alloc P) (pr_endian P) payload = Inr req" "length (req_timezone req) < 2 ^ 31"
    "cmd (req_ctx req) = CHDB_CMD_INSERT" "chdb_agrees P req"
  shows "setup_plan P payload = Some ([], Input)"
  using assms by (auto simp: setup_plan_def request_plan_def Let_def session_settings_def insert_plan_def chdb_agrees_def)

lemma agreed_select:
  assumes "parse_setup (pr_alloc P) (pr_endian P) payload = Inr req" "length (req_timezone req) < 2 ^ 31"
    "cmd (req_ctx req) = CHDB_CMD_SELECT" "chdb_agrees P req"
    "chunks_value (lib_fetch (pr_lib P) (req_query req) (req_params req)) = (res, None)"
  obtains as where "setup_plan P payload = Some (as, Exit 0)" "sends as = res"
proof -
  obtain as where "chunk_plan (lib_fetch (pr_lib P) (req_query req) (req_params req)) = (as, Exit 0)" "sends as = res"
    using chunk_plan_value [OF assms(5)] by auto
  with assms(1-4) that [of as] show thesis
    by (auto simp: setup_plan_def request_plan_def Let_def session_settings_def select_plan_def chdb_agrees_def)
qed

text \<open>
  C8. Without faults COPY TO succeeds: when chDB accepts the query, the blocks and the end of the
  insert, then on every schedule that has no cancel, crash or failing system call, nothing is ever
  raised, and from every state reached the return of the copy is in reach, with all blocks taken and
  the helper's status 0. Interrupted calls, full channels and the library's error output of any
  length do not count as faults.
\<close>

theorem copy_to_completes:
  assumes "jreach env K P faultless (jstart noise payload (map OpWrite bss @ [OpFinish]) b) s" and "just_forked b"
    and "caps_ok K" and "parse_setup (pr_alloc P) (pr_endian P) payload = Inr req"
    and "length (req_timezone req) < 2 ^ 31" and "cmd (req_ctx req) = CHDB_CMD_INSERT"
    and "chdb_agrees P req" and "accepts (pr_lib P) (concat bss)" and "length payload < CHDB_SETUP_MAX"
  shows "\<not> raising (j_point s)
    \<and> (\<exists>t. jreach env K P faultless s t \<and> j_point t = Returned \<and> j_taken t = concat bss \<and> j_helper t = H_exited 0)"
proof -
  let ?start = "jstart noise payload (map OpWrite bss @ [OpFinish]) b"
  note p = agreed_insert [OF assms(4-7)]
  have a: "\<forall>n. pr_alloc P n" using assms(7) by (simp add: chdb_agrees_def)
  have "to_well K P payload (concat bss) ?start"
    using to_live_start [OF assms(2,3) p, of bss noise] going_well_start [OF assms(2) a] p a assms(8,9)
    by (simp add: to_well_def helper_takes_def) (simp add: jstart_def alive_def)
  from to_fair.stays_well [OF assms(1) this] have w: "to_well K P payload (concat bss) s" .
  obtain t where t: "jreach env K P faultless s t" "to_well K P payload (concat bss) t" "j_point t = Returned"
    using to_fair.completes [OF w] by blast
  have i: "to_end (j_conf t)" "to_bytes (pr_lib P) payload (concat bss) t" "linked t"
    using t(2,3) by (auto simp: to_well_def to_live_def to_inv_def to_open_def)
  have "j_helper t = H_exited 0" using i(1,3) t(3) by (auto simp: to_end_def linked_def)
  moreover have "j_taken t = concat bss" using i(2) calculation by (simp add: to_bytes_def)
  ultimately show ?thesis using t(1,3) to_fair.well_smooth [OF w] by blast
qed

text \<open>
  C9. Without faults COPY FROM succeeds likewise: nothing is raised, and the end of the stream is in
  reach with the whole result received.
\<close>

theorem copy_from_completes:
  assumes "jreach env K P faultless (jstart noise payload (map OpRecv lens) b) s" and "just_forked b"
    and "caps_ok K" and "parse_setup (pr_alloc P) (pr_endian P) payload = Inr req"
    and "length (req_timezone req) < 2 ^ 31" and "cmd (req_ctx req) = CHDB_CMD_SELECT"
    and "chdb_agrees P req" and "chunks_value (lib_fetch (pr_lib P) (req_query req) (req_params req)) = (res, None)"
    and "length payload < CHDB_SETUP_MAX" and "list_all (\<lambda>n. 0 < n) lens" and "length res < length lens"
  shows "\<not> raising (j_point s)
    \<and> (\<exists>t. jreach env K P faultless s t \<and> j_point t = Returned \<and> bc_got (j_conf t) = res \<and> j_helper t = H_exited 0)"
proof -
  obtain as where p: "setup_plan P payload = Some (as, Exit 0)" "sends as = res"
    using agreed_select [OF assms(4-8)] by blast
  have a: "\<forall>n. pr_alloc P n" using assms(7) by (simp add: chdb_agrees_def)
  have "from_well K P payload res (length lens) (jstart noise payload (map OpRecv lens) b)"
    using from_live_start [OF assms(2,3) p(1) _ assms(10), of noise] going_well_start [OF assms(2) a] p a assms(9)
    by (simp add: from_well_def helper_takes_def)
  from from_fair.stays_well [OF assms(1) this] have w: "from_well K P payload res (length lens) s" .
  obtain t where t: "jreach env K P faultless s t" "from_well K P payload res (length lens) t" "j_point t = Returned"
    using from_fair.completes [OF w] by blast
  have l: "from_live K P payload res (length lens) t" using t(2) by (simp add: from_well_def)
  have e: "from_end (j_conf t)" "j_from t = []" using from_live_returned [OF l assms(11) t(3)] by simp_all
  obtain ok where i: "from_bytes payload res ok t" "linked t" using l t(3) by (auto simp: from_live_def from_inv_def)
  have h: "j_helper t = H_exited 0" using e(1) i(2) t(3) by (auto simp: from_end_def linked_def)
  then have "bc_got (j_conf t) = res" using i(1) e(2) by (simp add: from_bytes_def Let_def)
  with h t(1,3) from_fair.well_smooth [OF w] show ?thesis by blast
qed

section \<open>A failed write\<close>





end
