(* ===== verification/Joint_Examples.thy ===== *)
theory Joint_Examples
  imports Joint_Success
begin

text \<open>
  The theorems on two processes at work, on the copies of two bytes at a time that end \<open>Joint_Safety\<close>: one
  step, a helper that is killed, a run without faults, and a write that fails.
\<close>

lemma ex_caps: "caps_ok ex_kernel"
  by (simp add: caps_ok_def ex_kernel_def)

lemma ex_accepts: "accepts (pr_lib ex_program) blocks"
  by (simp add: accepts_def ex_program_def ex_lib_def)

lemma ex_agrees: "chdb_agrees ex_program req"
  by (simp add: chdb_agrees_def ex_program_def ex_lib_def)

lemma ex_result: "chunks_value (lib_fetch (pr_lib ex_program) q par) = (''abc'', None)"
  by (simp add: ex_program_def ex_lib_def)

abbreviation ex_to :: "string \<Rightarrow> joint" where
  "ex_to payload \<equiv> jstart [''w''] payload (map OpWrite [''xy'', ''z''] @ [OpFinish]) ex_forked"

abbreviation ex_from :: "string \<Rightarrow> joint" where
  "ex_from payload \<equiv> jstart [] payload (map OpRecv [9, 9, 9, 9]) ex_forked"

text \<open>A helper killed right after its start.\<close>

abbreviation killed :: "joint \<Rightarrow> joint" where
  "killed s \<equiv> s\<lparr>j_helper := H_exited 9\<rparr>"

lemma ex_killed: "jreach ex_env ex_kernel ex_program no_io_fault (jstart noise payload ops b)
    (killed (jstart noise payload ops b))"
proof (rule jrun_jreach [where ms = "[Helper (H_crash 9)]", OF _ jrefl])
  show "jrun ex_env ex_kernel ex_program [Helper (H_crash 9)] (jstart noise payload ops b)
    = Some (killed (jstart noise payload ops b))"
    using ex_alloc by (simp add: jdo_def hmove_step_def jstart_def)
qed (simp add: no_io_fault_def)

theorem joint_measure_witness:
  "\<exists>payload t. jdo ex_env ex_kernel ex_program (Helper (H_crash 9)) (ex_to payload) = Some t
     \<and> (stutter (ex_to payload) t \<or> nearer t (ex_to payload))"
proof -
  have "jdo ex_env ex_kernel ex_program (Helper (H_crash 9)) (ex_to ''p'') = Some (killed (ex_to ''p''))"
    using ex_alloc by (simp add: jdo_def hmove_step_def jstart_def)
  with joint_measure [OF this] show ?thesis by blast
qed

theorem copy_to_can_end_witness:
  "\<exists>payload t. jreach ex_env ex_kernel ex_program faultless (killed (ex_to payload)) t
     \<and> (j_point t = Returned \<and> j_taken t = ''xyz'' \<and> lib_done (pr_lib ex_program) ''xyz'' = None \<or> (\<exists>e. j_point t = Raised e))"
proof -
  obtain payload where p: "parse_setup (pr_alloc ex_program) (pr_endian ex_program) payload
       = Inr \<lparr>req_ctx = ex_insert_ctx, req_timezone = ''UTC'', req_query = ''SELECT 1'', req_params = []\<rparr>"
    using ex_request [of ex_insert_ctx] by auto
  from copy_to_can_end [where bss = "[''xy'', ''z'']" and noise = "[''w'']", OF ex_killed ex_just_forked ex_caps p]
  have "\<exists>t. jreach ex_env ex_kernel ex_program faultless (killed (ex_to payload)) t \<and> (j_point t = Returned \<and> j_taken t = ''xyz'' \<and> lib_done (pr_lib ex_program) ''xyz'' = None \<or> (\<exists>e. j_point t = Raised e))"
    by (simp add: ex_insert_ctx_def)
  then show ?thesis by blast
qed

theorem copy_from_can_end_witness:
  "\<exists>payload t. jreach ex_env ex_kernel ex_program faultless (killed (ex_from payload)) t
     \<and> (j_point t = Returned \<and> bc_got (j_conf t) = ''abc'' \<or> (\<exists>e. j_point t = Raised e))"
proof -
  obtain payload where p: "parse_setup (pr_alloc ex_program) (pr_endian ex_program) payload
       = Inr \<lparr>req_ctx = ex_ctx, req_timezone = ''UTC'', req_query = ''SELECT 1'', req_params = []\<rparr>"
    using ex_request [of ex_ctx] by auto
  from copy_from_can_end [where lens = "[9, 9, 9, 9]" and noise = "[]", OF ex_killed ex_just_forked ex_caps p _ _ ex_result]
  have "\<exists>t. jreach ex_env ex_kernel ex_program faultless (killed (ex_from payload)) t \<and> (j_point t = Returned \<and> bc_got (j_conf t) = ''abc'' \<or> (\<exists>e. j_point t = Raised e))"
    by (simp add: ex_ctx_def)
  then show ?thesis by blast
qed

theorem copy_to_completes_witness:
  "\<exists>payload t. jreach ex_env ex_kernel ex_program faultless (ex_to payload) t
     \<and> j_point t = Returned \<and> j_taken t = ''xyz'' \<and> j_helper t = H_exited 0"
proof -
  obtain payload where p: "length payload \<le> 1000" "parse_setup (pr_alloc ex_program) (pr_endian ex_program) payload
       = Inr \<lparr>req_ctx = ex_insert_ctx, req_timezone = ''UTC'', req_query = ''SELECT 1'', req_params = []\<rparr>"
    using ex_request [of ex_insert_ctx] by auto
  have "length payload < CHDB_SETUP_MAX" using p(1) by (simp add: CHDB_SETUP_MAX_def)
  from copy_to_completes [where bss = "[''xy'', ''z'']" and noise = "[''w'']", OF jrefl ex_just_forked ex_caps p(2) _ _ ex_agrees ex_accepts this]
  have "\<exists>t. jreach ex_env ex_kernel ex_program faultless (ex_to payload) t \<and> j_point t = Returned \<and> j_taken t = ''xyz'' \<and> j_helper t = H_exited 0"
    by (simp add: ex_insert_ctx_def)
  then show ?thesis by blast
qed

theorem copy_from_completes_witness:
  "\<exists>payload t. jreach ex_env ex_kernel ex_program faultless (ex_from payload) t
     \<and> j_point t = Returned \<and> bc_got (j_conf t) = ''abc'' \<and> j_helper t = H_exited 0"
proof -
  obtain payload where p: "length payload \<le> 1000" "parse_setup (pr_alloc ex_program) (pr_endian ex_program) payload
       = Inr \<lparr>req_ctx = ex_ctx, req_timezone = ''UTC'', req_query = ''SELECT 1'', req_params = []\<rparr>"
    using ex_request [of ex_ctx] by auto
  have "length payload < CHDB_SETUP_MAX" using p(1) by (simp add: CHDB_SETUP_MAX_def)
  from copy_from_completes [where lens = "[9, 9, 9, 9]" and noise = "[]", OF jrefl ex_just_forked ex_caps p(2) _ _ ex_agrees ex_result this]
  have "\<exists>t. jreach ex_env ex_kernel ex_program faultless (ex_from payload) t \<and> j_point t = Returned \<and> bc_got (j_conf t) = ''abc'' \<and> j_helper t = H_exited 0"
    by (simp add: ex_ctx_def)
  then show ?thesis by blast
qed




end
