(* ===== verification/Helper_Plan.thy ===== *)
theory Helper_Plan
  imports Joint_Safety
begin

text \<open>
  The helper machine and the helper program are the same. Carrying out the plan of a payload on the
  scripts of the standard streams gives the exit status, the output and the error text of
  \<open>helper_main\<close> (\<open>plan_is_helper\<close>; only the log of library handles is not part of a plan); and the
  answers the kernel gives to the moves of the machine in any run with the backend are scripts on
  which \<open>helper_main\<close> does what the machine did (\<open>machine_is_helper\<close>).
\<close>

section \<open>Carrying out a plan\<close>

text \<open>The actions: a write that fails ends the program with the status for a lost backend.\<close>

fun perform :: "haction list \<Rightarrow> hproc \<Rightarrow> (nat option \<times> hproc) option" where
  "perform [] s = Some (None, s)"
| "perform (Say x # as) s = perform as (s\<lparr>err_out := err_out s @ x\<rparr>)"
| "perform (Send x # as) s =
     (case write_out x s of
        None \<Rightarrow> None
      | Some (True, s) \<Rightarrow> perform as s
      | Some (False, s) \<Rightarrow> Some (Some LOST_BACKEND, s))"

definition perform_exit :: "haction list \<times> hthen \<Rightarrow> hproc \<Rightarrow> (nat \<times> hproc) option" where
  "perform_exit p s =
     (case perform (fst p) s of
        None \<Rightarrow> None
      | Some (Some st, s) \<Rightarrow> Some (st, s)
      | Some (None, s) \<Rightarrow> (case snd p of Exit st \<Rightarrow> Some (st, s) | Input \<Rightarrow> None))"

text \<open>The input of an insert, one block after the other.\<close>

function take_input :: "chdb_lib \<Rightarrow> string \<Rightarrow> hproc \<Rightarrow> (nat \<times> hproc) option" where
  "take_input lib taken s =
     (case sys_read CHDB_HELPER_IO_BYTES (in_ev s) of
        None \<Rightarrow> None
      | Some (GotEof, es) \<Rightarrow> perform_exit (done_plan lib taken) (s\<lparr>in_ev := es\<rparr>)
      | Some (GotErr e, es) \<Rightarrow>
          if e = EINTR then take_input lib taken (s\<lparr>in_ev := es\<rparr>) else Some (LOST_BACKEND, s\<lparr>in_ev := es\<rparr>)
      | Some (Got b, es) \<Rightarrow>
          if snd (append_plan lib taken b) = Input then take_input lib (taken @ b) (s\<lparr>in_ev := es\<rparr>)
          else perform_exit (append_plan lib taken b) (s\<lparr>in_ev := es\<rparr>))"
  by pat_completeness auto

termination take_input
  by (relation "measure (\<lambda>(lib, taken, s). read_size (in_ev s))") (auto dest: sys_read_Got_size sys_read_Err_size)

declare take_input.simps [simp del]

definition carry_out :: "chdb_lib \<Rightarrow> string \<Rightarrow> haction list \<times> hthen \<Rightarrow> hproc \<Rightarrow> (nat \<times> hproc) option" where
  "carry_out lib taken p s =
     (case perform (fst p) s of
        None \<Rightarrow> None
      | Some (Some st, s) \<Rightarrow> Some (st, s)
      | Some (None, s) \<Rightarrow> (case snd p of Exit st \<Rightarrow> Some (st, s) | Input \<Rightarrow> take_input lib taken s))"

section \<open>The log of handles\<close>

definition forget :: "hproc \<Rightarrow> hproc" where
  "forget s = s\<lparr>lib_calls := []\<rparr>"

abbreviation forgotten :: "('a \<times> hproc) option \<Rightarrow> ('a \<times> hproc) option" where
  "forgotten r \<equiv> map_option (map_prod id forget) r"

lemma forget_simps [simp]:
  "forget (call cs s) = forget s" "forget (complain m s) = complain m (forget s)"
  "forget (s\<lparr>in_ev := es\<rparr>) = forget s\<lparr>in_ev := es\<rparr>" "forget (s\<lparr>out_wr := ws\<rparr>) = forget s\<lparr>out_wr := ws\<rparr>"
  "forget (s\<lparr>out_wr := ws, out := x\<rparr>) = forget s\<lparr>out_wr := ws, out := x\<rparr>"
  "in_ev (forget s) = in_ev s" "out_wr (forget s) = out_wr s" "out (forget s) = out s" "err_out (forget s) = err_out s"
  by (simp_all add: forget_def call_def complain_def)

lemma say_line: "s\<lparr>err_out := err_out s @ line m\<rparr> = complain m s"
  by (simp add: complain_def)

lemma write_out_forget: "write_out bs (forget s) = forgotten (write_out bs s)"
proof (induction bs s rule: write_out.induct)
  case (1 bs s)
  show ?case
  proof (cases "bs = []")
    case False
    with 1 show ?thesis
      by (simp add: write_out.simps [of bs s] write_out.simps [of bs "forget s"]
          split: option.split prod.split write_result.split)
  qed (simp add: write_out.simps)
qed

section \<open>The commands\<close>

lemma perform_exit_simps [simp]:
  "perform_exit ([], Exit st) s = Some (st, s)"
  "perform_exit (Say x # as, th) s = perform_exit (as, th) (s\<lparr>err_out := err_out s @ x\<rparr>)"
  "perform_exit (Send x # as, th) s =
     (case write_out x s of
        None \<Rightarrow> None | Some (True, s) \<Rightarrow> perform_exit (as, th) s | Some (False, s) \<Rightarrow> Some (LOST_BACKEND, s))"
  by (auto simp: perform_exit_def split: option.splits prod.splits bool.splits)

lemma carry_out_simps [simp]:
  "carry_out lib taken (as, Exit st) s = perform_exit (as, Exit st) s"
  "carry_out lib taken ([], Input) s = take_input lib taken s"
  by (auto simp: carry_out_def perform_exit_def split: option.split prod.split)

lemma carry_out_Cons:
  "carry_out lib taken (Say x # as, th) s = carry_out lib taken (as, th) (s\<lparr>err_out := err_out s @ x\<rparr>)"
  "carry_out lib taken (Send x # as, th) s =
     (case write_out x s of
        None \<Rightarrow> None | Some (True, s) \<Rightarrow> carry_out lib taken (as, th) s | Some (False, s) \<Rightarrow> Some (LOST_BACKEND, s))"
  by (auto simp: carry_out_def split: option.split prod.split bool.split)

text \<open>The exit status of a verdict.\<close>

definition exits :: "(verdict \<times> hproc) option \<Rightarrow> (nat \<times> hproc) option" where
  "exits r = map_option (\<lambda>(v, t). (case v of Status st \<Rightarrow> st | ExitNow st \<Rightarrow> st, forget t)) r"

lemma exits_simps [simp]:
  "exits None = None" "exits (Some (Status st, t)) = Some (st, forget t)" "exits (Some (ExitNow st, t)) = Some (st, forget t)"
  by (simp_all add: exits_def)

lemma perform_chunks: "perform_exit (chunk_plan cs) (forget s) = forgotten (send_chunks cs s)"
proof (induction cs s rule: send_chunks.induct)
  case (3 b cs s)
  obtain as th where p: "chunk_plan cs = (as, th)" by fastforce
  show ?case
  proof (cases "b = []")
    case False
    note ih = "3.IH" [OF False]
    show ?thesis
    proof (cases "write_out b (call [OpenHandle Chunk] s)")
      case None
      with False p write_out_forget [of b "call [OpenHandle Chunk] s"] show ?thesis by simp
    next
      case (Some r)
      obtain ok t where r: "r = (ok, t)" by fastforce
      from False p r Some write_out_forget [of b "call [OpenHandle Chunk] s"] ih [OF Some r [symmetric]] show ?thesis
        by (cases ok) simp_all
    qed
  qed simp
qed (simp_all add: say_line del: append.simps)

lemma chunk_plan_exits: "\<exists>as st. chunk_plan cs = (as, Exit st)"
  by (induction cs rule: chunk_plan.induct) (auto split: prod.splits)

lemma carry_out_chunks: "carry_out lib [] (chunk_plan cs) s = perform_exit (chunk_plan cs) s"
  using chunk_plan_exits [of cs] by auto

lemma select_is_plan: "carry_out lib [] (select_plan lib query par) (forget s) = exits (run_select lib query par s)"
  using perform_chunks [of "lib_fetch lib query par" "call [OpenHandle Stream] s"]
  by (cases "send_chunks (lib_fetch lib query par) (call [OpenHandle Stream] s)")
    (auto simp: select_plan_def run_select_def Let_def carry_out_chunks say_line split: option.split)

lemma query_is_plan: "carry_out lib [] (query_plan lib query par) (forget s) = exits (run_query lib query par s)"
proof (cases "lib_query lib query par")
  case (Inr b)
  then show ?thesis using write_out_forget [of b "call [OpenHandle QueryResult] s"]
    by (cases "write_out b (call [OpenHandle QueryResult] s)") (auto simp: query_plan_def run_query_def Let_def split: bool.split)
qed (simp add: query_plan_def run_query_def Let_def say_line)

text \<open>The status an insert ends with, once its stream has ended or it has returned early.\<close>

definition finish_input :: "chdb_lib \<Rightarrow> (nat + string) \<times> hproc \<Rightarrow> nat \<times> hproc" where
  "finish_input lib r =
     (case r of
        (Inl st, s) \<Rightarrow> (st, s)
      | (Inr blocks, s) \<Rightarrow> (case lib_done lib blocks of None \<Rightarrow> (0, s) | Some e \<Rightarrow> (1, complain e s)))"

lemma take_input_blocks:
  "take_input lib taken (forget s) = forgotten (map_option (finish_input lib) (append_blocks lib taken s))"
proof (induction lib taken s rule: append_blocks.induct)
  case (1 lib taken s)
  show ?case
  proof (cases "sys_read CHDB_HELPER_IO_BYTES (in_ev s)")
    case None
    then show ?thesis by (simp add: take_input.simps [of lib taken "forget s"] append_blocks.simps [of lib taken s])
  next
    case (Some r)
    obtain g es where r: "r = (g, es)" by fastforce
    show ?thesis
    proof (cases g)
      case (Got b)
      show ?thesis
      proof (cases "lib_append lib taken b")
        case None
        with "1.IH"(1) [OF Some r [symmetric] Got refl None] Some r Got show ?thesis
          by (simp add: take_input.simps [of lib taken "forget s"] append_blocks.simps [of lib taken s] append_plan_def Let_def)
      next
        case e: (Some e)
        with Some r Got show ?thesis
          by (simp add: take_input.simps [of lib taken "forget s"] append_blocks.simps [of lib taken s] append_plan_def
              Let_def say_line finish_input_def)
      qed
    next
      case GotEof
      with Some r show ?thesis
        by (simp add: take_input.simps [of lib taken "forget s"] append_blocks.simps [of lib taken s] done_plan_def
            say_line finish_input_def split: option.split)
    next
      case (GotErr e)
      with "1.IH"(2) [OF Some r [symmetric] GotErr] Some r show ?thesis
        by (simp add: take_input.simps [of lib taken "forget s"] append_blocks.simps [of lib taken s] finish_input_def)
    qed
  qed
qed

lemma insert_is_plan: "carry_out lib [] (insert_plan alloc lib query par) (forget s) = exits (run_insert alloc lib query par s)"
proof -
  have "carry_out lib [] ([], Input) (forget s)
      = forgotten (map_option (finish_input lib) (append_blocks lib [] (call [OpenHandle InsertStream] s)))"
    using take_input_blocks [of lib "[]" "call [OpenHandle InsertStream] s"] by simp
  then show ?thesis
    by (cases "append_blocks lib [] (call [OpenHandle InsertStream] s)")
      (auto simp: insert_plan_def run_insert_def fail_def Let_def say_line finish_input_def split: option.split sum.split)
qed

lemma request_is_plan:
  "forgotten (run_request alloc lib req s)
     = (case request_plan alloc lib req of None \<Rightarrow> None | Some p \<Rightarrow> carry_out lib [] p (forget s))"
proof -
  have d: "map_option (\<lambda>(v, t). (case v of Status st \<Rightarrow> st | ExitNow st \<Rightarrow> st, forget t)) (dispatch alloc lib req t)
      = carry_out lib [] (if cmd (req_ctx req) = CHDB_CMD_SELECT then select_plan lib (req_query req) (req_params req)
         else if cmd (req_ctx req) = CHDB_CMD_INSERT then insert_plan alloc lib (req_query req) (req_params req)
         else if cmd (req_ctx req) = CHDB_CMD_DESCRIBE then query_plan lib (req_query req) (req_params req)
         else ([Say (line ''chdb: unknown command type'')], Exit 1)) (forget t)" for t
    unfolding exits_def [symmetric]
    by (simp add: dispatch_def select_is_plan insert_is_plan query_is_plan fail_def say_line)
  have v: "forgotten (case r of None \<Rightarrow> None | Some (ExitNow st, s) \<Rightarrow> Some (st, s) | Some (Status st, s) \<Rightarrow> Some (st, call [CloseConn] s))
      = map_option (\<lambda>(v, t). (case v of Status st \<Rightarrow> st | ExitNow st \<Rightarrow> st, forget t)) r" for r
    by (auto split: option.split verdict.split)
  show ?thesis
    by (auto simp: run_request_def request_plan_def setup_session_def Let_def say_line v d split: option.split)
qed

text \<open>What follows the reading of the setup: the plan of the payload, or the report of its refusal.\<close>

definition after_setup :: "program \<Rightarrow> string \<Rightarrow> (string + string) option \<Rightarrow> hproc \<Rightarrow> (nat \<times> hproc) option" where
  "after_setup P taken r s =
     (case r of
        None \<Rightarrow> None
      | Some (Inl msg) \<Rightarrow> carry_out (pr_lib P) taken ([Say (line msg)], Exit 1) s
      | Some (Inr payload) \<Rightarrow>
          (case setup_plan P payload of None \<Rightarrow> None | Some p \<Rightarrow> carry_out (pr_lib P) taken p s))"

lemma plan_is_helper:
  "forgotten (helper_main (pr_alloc P) (pr_endian P) (pr_lib P) ev s)
     = after_setup P [] (read_setup (pr_alloc P) ev) (forget s)"
proof -
  have e: "forgotten (Some (1, complain msg s)) = carry_out (pr_lib P) [] ([Say (line msg)], Exit 1) (forget s)" for msg
    by (simp add: say_line)
  show ?thesis
  proof (cases "read_setup (pr_alloc P) ev")
    case (Some r)
    show ?thesis
    proof (cases r)
      case (Inr payload)
      then show ?thesis using Some e request_is_plan
        by (cases "parse_setup (pr_alloc P) (pr_endian P) payload")
          (simp_all only: helper_main_def after_setup_def setup_plan_def option.case sum.case)
    qed (use Some e in \<open>simp only: helper_main_def after_setup_def option.case sum.case\<close>)
  qed (simp add: helper_main_def after_setup_def)
qed

section \<open>The machine on its way\<close>

text \<open>
  What the helper gets from its calls and what it puts out, as the machine moves: the answers of the
  kernel on the three descriptors, the bytes written and the text handed to \<open>fprintf\<close>, whether or
  not the channel took it.
\<close>

datatype hevent = SetupRead read_event | InputRead read_event | Wrote write_event string | Told string

definition read_answer :: "hmove \<Rightarrow> string \<Rightarrow> read_event list" where
  "read_answer m bs =
     (case m of H_take k \<Rightarrow> [some_data k bs] | H_end \<Rightarrow> [Eof] | H_fault e \<Rightarrow> [ReadErr e] | _ \<Rightarrow> [])"

definition hevents :: "program \<Rightarrow> hmove \<Rightarrow> joint \<Rightarrow> hevent list" where
  "hevents P m s =
     (case j_helper s of
        H_setup cap buf \<Rightarrow>
          if setup_refused P cap buf = None then map SetupRead (read_answer m (j_setup s)) else []
      | H_do [] Input \<Rightarrow> map InputRead (read_answer m (j_to s))
      | H_do (Say x # as) th \<Rightarrow>
          if x = [] then [] else (case m of H_put k \<Rightarrow> [Told (take (Suc k) x)] | H_lost \<Rightarrow> [Told x] | H_fault e \<Rightarrow> [Told x] | _ \<Rightarrow> [])
      | H_do (Send x # as) th \<Rightarrow>
          if x = [] then []
          else (case m of
                  H_put k \<Rightarrow> [Wrote (Accept k) (take (Suc k) x)]
                | H_lost \<Rightarrow> [Wrote (WriteErr EPIPE) []]
                | H_fault e \<Rightarrow> [Wrote (WriteErr e) []]
                | _ \<Rightarrow> [])
      | _ \<Rightarrow> [])"

fun setup_reads :: "hevent list \<Rightarrow> read_event list" where
  "setup_reads [] = []"
| "setup_reads (SetupRead e # es) = e # setup_reads es"
| "setup_reads (_ # es) = setup_reads es"

fun input_reads :: "hevent list \<Rightarrow> read_event list" where
  "input_reads [] = []"
| "input_reads (InputRead e # es) = e # input_reads es"
| "input_reads (_ # es) = input_reads es"

fun writes :: "hevent list \<Rightarrow> write_event list" where
  "writes [] = []"
| "writes (Wrote e bs # es) = e # writes es"
| "writes (_ # es) = writes es"

fun put_out :: "hevent list \<Rightarrow> string" where
  "put_out [] = []"
| "put_out (Wrote e bs # es) = bs @ put_out es"
| "put_out (_ # es) = put_out es"

fun told :: "hevent list \<Rightarrow> string" where
  "told [] = []"
| "told (Told x # es) = x @ told es"
| "told (_ # es) = told es"

lemma hevents_append [simp]:
  "setup_reads (es @ fs) = setup_reads es @ setup_reads fs" "input_reads (es @ fs) = input_reads es @ input_reads fs"
  "writes (es @ fs) = writes es @ writes fs" "put_out (es @ fs) = put_out es @ put_out fs" "told (es @ fs) = told es @ told fs"
  by (induction es rule: setup_reads.induct) simp_all

text \<open>A run of both processes by its moves, with what the helper met.\<close>

fun jlog :: "helper_env \<Rightarrow> kernel \<Rightarrow> program \<Rightarrow> move list \<Rightarrow> joint \<Rightarrow> (hevent list \<times> joint) option" where
  "jlog env K P [] s = Some ([], s)"
| "jlog env K P (m # ms) s =
     (case jdo env K P m s of
        None \<Rightarrow> None
      | Some t \<Rightarrow>
          map_option (map_prod ((@) (case m of Helper h \<Rightarrow> hevents P h s | Backend b \<Rightarrow> [])) id) (jlog env K P ms t))"

text \<open>
  What the program still does from a state of the machine, on scripts for what it has not read and
  written yet.
\<close>

definition proceed :: "program \<Rightarrow> hstate \<Rightarrow> string \<Rightarrow> read_event list \<Rightarrow> hproc \<Rightarrow> (nat \<times> hproc) option" where
  "proceed P h taken es p =
     (case h of
        H_exec \<Rightarrow> after_setup P taken (read_setup (pr_alloc P) es) p
      | H_setup cap buf \<Rightarrow> after_setup P taken (read_setup_loop (pr_alloc P) cap buf es) p
      | H_do as th \<Rightarrow> carry_out (pr_lib P) taken (as, th) p
      | H_exited w \<Rightarrow> Some (nat (w div 256), p))"

text \<open>What is compared: the status, the output and the error text.\<close>

abbreviation seen :: "(nat \<times> hproc) option \<Rightarrow> (nat \<times> string \<times> string) option" where
  "seen r \<equiv> map_option (\<lambda>(st, p). (st, out p, err_out p)) r"

definition proc :: "string \<Rightarrow> write_event list \<Rightarrow> read_event list \<Rightarrow> string \<Rightarrow> hproc" where
  "proc w ws es e = \<lparr>out = w, out_wr = ws, in_ev = es, err_out = e, lib_calls = []\<rparr>"

lemma proc_simps [simp]:
  "out (proc w ws es e) = w" "out_wr (proc w ws es e) = ws" "in_ev (proc w ws es e) = es" "err_out (proc w ws es e) = e"
  "(proc w ws es e)\<lparr>out_wr := ws'\<rparr> = proc w ws' es e" "(proc w ws es e)\<lparr>out_wr := ws', out := w'\<rparr> = proc w' ws' es e"
  "(proc w ws es e)\<lparr>out := w'\<rparr> = proc w' ws es e" "(proc w ws es e)\<lparr>in_ev := es'\<rparr> = proc w ws es' e" "(proc w ws es e)\<lparr>err_out := e'\<rparr> = proc w ws es e'"
  by (simp_all add: proc_def)

text \<open>The answers as the calls of the program take them.\<close>

lemma sys_read_some:
  assumes "k < n" "k < length bs"
  shows "sys_read n (some_data k bs # es) = Some (Got (take (Suc k) bs), es)"
proof -
  obtain b c where "bs = b # c" using assms(2) by (cases bs) auto
  with assms show ?thesis by (auto simp: some_data_def split: list.split)
qed

lemma write_out_put:
  "k < length x \<Longrightarrow> write_out x (proc w (Accept k # ws) es e) = write_out (drop (Suc k) x) (proc (w @ take (Suc k) x) ws es e)"
  by (subst write_out.simps) (auto simp: min_def Suc_leI)

lemma write_out_err:
  "x \<noteq> [] \<Longrightarrow> write_out x (proc w (WriteErr err # ws) es e)
     = (if err \<noteq> EINTR then Some (False, proc w ws es e) else write_out x (proc w ws es e))"
  by (subst write_out.simps) simp

lemma setup_loop_refused:
  "setup_refused P cap buf = Some msg \<Longrightarrow> read_setup_loop (pr_alloc P) cap buf es = Some (Inl msg)"
  by (subst read_setup_loop.simps) (auto simp: setup_refused_def split: if_splits)

lemma setup_loop_reads:
  assumes "setup_refused P cap buf = None"
  shows "read_setup_loop (pr_alloc P) cap buf es =
    (case sys_read (setup_room cap buf - length buf) es of
       None \<Rightarrow> None
     | Some (Got bs, es') \<Rightarrow> read_setup_loop (pr_alloc P) (setup_room cap buf) (buf @ bs) es'
     | Some (GotEof, es') \<Rightarrow> Some (Inr buf)
     | Some (GotErr err, es') \<Rightarrow>
         if err = EINTR then read_setup_loop (pr_alloc P) (setup_room cap buf) buf es' else Some (Inl unreadable))"
proof -
  have "\<not> (length buf = cap \<and> CHDB_SETUP_MAX < 2 * cap)" "\<not> (length buf = cap \<and> \<not> pr_alloc P (2 * cap))"
    using assms by (auto simp: setup_refused_def split: if_splits)
  then show ?thesis by (subst read_setup_loop.simps) (simp only: setup_room_def if_False Let_def)
qed

lemma setup_interrupted:
  assumes "setup_refused P cap buf = None"
  shows "read_setup_loop (pr_alloc P) (setup_room cap buf) buf es = read_setup_loop (pr_alloc P) cap buf es"
proof (cases "length buf = cap \<and> 0 < cap")
  case True
  then have r: "setup_room cap buf = 2 * cap" "setup_room (2 * cap) buf = 2 * cap" "setup_refused P (2 * cap) buf = None"
    by (auto simp: setup_room_def setup_refused_def)
  show ?thesis by (simp only: r(1) setup_loop_reads [OF assms, of es, unfolded r(1)] setup_loop_reads [OF r(3), of es, unfolded r(2)])
next
  case False
  then have "setup_room cap buf = cap" by (auto simp: setup_room_def)
  then show ?thesis by simp
qed

section \<open>The machine is the program\<close>

lemma proceed_setup:
  assumes "setup_move P m cap buf s = Some t" "j_helper s = H_setup cap buf"
  shows "seen (proceed P (j_helper s) (j_taken s) (setup_reads (hevents P m s) @ ses) p)
    = seen (proceed P (j_helper t) (j_taken t) ses p)" "hevents P m s = map SetupRead (setup_reads (hevents P m s))"
proof -
  have h: "hevents P m s = (if setup_refused P cap buf = None then map SetupRead (read_answer m (j_setup s)) else [])"
    using assms(2) by (simp add: hevents_def)
  have sr: "setup_reads (map SetupRead es) = es" for es by (induction es) simp_all
  from h sr show "hevents P m s = map SetupRead (setup_reads (hevents P m s))" by simp
  show "seen (proceed P (j_helper s) (j_taken s) (setup_reads (hevents P m s) @ ses) p)
    = seen (proceed P (j_helper t) (j_taken t) ses p)"
  proof (cases "setup_refused P cap buf")
    case (Some msg)
    with assms h show ?thesis
      by (auto simp: setup_move_def setup_loop_refused proceed_def after_setup_def split: if_splits)
  next
    case None
    note l = setup_loop_reads [OF None]
    from assms(1) None consider
        (take) k where "m = H_take k" "k < setup_room cap buf - length buf" "k < length (j_setup s)"
          "t = s\<lparr>j_helper := H_setup (setup_room cap buf) (buf @ take (Suc k) (j_setup s)), j_setup := drop (Suc k) (j_setup s)\<rparr>"
      | (planned) q where "m = H_end" "setup_plan P buf = Some q" "t = s\<lparr>j_helper := goes_on q\<rparr>"
      | (interrupted) "m = H_fault EINTR" "t = s"
      | (unread) e where "m = H_fault e" "e \<noteq> EINTR" "t = s\<lparr>j_helper := H_do [Say (line unreadable)] (Exit 1)\<rparr>"
      by (auto simp: setup_move_def split: hmove.splits if_splits)
    then show ?thesis
    proof cases
      case take
      then show ?thesis using h sr None l assms(2)
        by (simp add: proceed_def read_answer_def sys_read_some)
    next
      case planned
      then show ?thesis using h sr None l assms(2)
        by (simp add: proceed_def read_answer_def after_setup_def goes_on_def)
    next
      case interrupted
      then show ?thesis using h sr None l assms(2) setup_interrupted [OF None]
        by (simp add: proceed_def read_answer_def)
    next
      case unread
      then show ?thesis using h sr None l assms(2)
        by (simp add: proceed_def read_answer_def after_setup_def)
    qed
  qed
qed

lemma proceed_say:
  assumes "say_move K m x as th s = Some t" "j_helper s = H_do (Say x # as) th"
  shows "proceed P (j_helper s) (j_taken s) es (proc w ws is e)
    = proceed P (j_helper t) (j_taken t) es (proc (w @ put_out (hevents P m s)) ws is (e @ told (hevents P m s)))
    \<and> setup_reads (hevents P m s) = [] \<and> input_reads (hevents P m s) = [] \<and> writes (hevents P m s) = []"
proof (cases "x = []")
  case True
  with assms show ?thesis by (auto simp: say_move_def hevents_def proceed_def carry_out_Cons split: if_splits)
next
  case False
  with assms show ?thesis
    by (auto simp: say_move_def hevents_def proceed_def carry_out_Cons write_fails_def split: hmove.splits if_splits)
qed

lemma proceed_send:
  assumes "send_move K m x as th s = Some t" "j_helper s = H_do (Send x # as) th"
  shows "proceed P (j_helper s) (j_taken s) es (proc w (writes (hevents P m s) @ ws) is e)
    = proceed P (j_helper t) (j_taken t) es (proc (w @ put_out (hevents P m s)) ws is e)
    \<and> setup_reads (hevents P m s) = [] \<and> input_reads (hevents P m s) = [] \<and> told (hevents P m s) = []"
proof (cases "x = []")
  case True
  with assms show ?thesis
    by (auto simp: send_move_def hevents_def proceed_def carry_out_Cons write_out.simps [of "[]"] split: if_splits)
next
  case x: False
  with assms(1) consider (put) k where "m = H_put k" "k < length x"
        "t = s\<lparr>j_helper := H_do (Send (drop (Suc k) x) # as) th, j_from := j_from s @ take (Suc k) x\<rparr>"
    | (fails) err where "m = H_lost \<and> err = EPIPE \<or> m = H_fault err"
        "t = (if err \<noteq> EINTR then s\<lparr>j_helper := H_do [] (Exit LOST_BACKEND)\<rparr> else s)"
    by (auto simp: send_move_def write_fails_def split: hmove.splits if_splits)
  then show ?thesis
  proof cases
    case put
    with x assms(2) show ?thesis by (simp add: hevents_def proceed_def carry_out_Cons write_out_put)
  next
    case fails
    with x assms(2) show ?thesis by (auto simp: hevents_def proceed_def carry_out_Cons write_out_err)
  qed
qed

lemma proceed_input:
  assumes "input_move P m s = Some t" "j_helper s = H_do [] Input"
  shows "seen (proceed P (j_helper s) (j_taken s) es (proc w ws (input_reads (hevents P m s) @ is) e))
    = seen (proceed P (j_helper t) (j_taken t) es (proc w ws is e))
    \<and> hevents P m s = map InputRead (input_reads (hevents P m s))"
proof -
  have h: "hevents P m s = map InputRead (read_answer m (j_to s))" using assms(2) by (simp add: hevents_def)
  have ir: "input_reads (map InputRead es) = es" for es by (induction es) simp_all
  let ?lib = "pr_lib P"
  from assms(1) consider
      (take) k where "m = H_take k" "k < CHDB_HELPER_IO_BYTES" "k < length (j_to s)"
        "t = s\<lparr>j_helper := goes_on (append_plan ?lib (j_taken s) (take (Suc k) (j_to s))), j_to := drop (Suc k) (j_to s),
           j_taken := (if lib_append ?lib (j_taken s) (take (Suc k) (j_to s)) = None
             then j_taken s @ take (Suc k) (j_to s) else j_taken s)\<rparr>"
    | (ended) "m = H_end" "t = s\<lparr>j_helper := goes_on (done_plan ?lib (j_taken s))\<rparr>"
    | (interrupted) "m = H_fault EINTR" "t = s"
    | (unread) err where "m = H_fault err" "err \<noteq> EINTR" "t = s\<lparr>j_helper := H_do [] (Exit LOST_BACKEND)\<rparr>"
    by (auto simp: input_move_def Let_def split: hmove.splits if_splits)
  then have "seen (proceed P (j_helper s) (j_taken s) es (proc w ws (input_reads (hevents P m s) @ is) e))
    = seen (proceed P (j_helper t) (j_taken t) es (proc w ws is e))"
  proof cases
    case take
    then show ?thesis using h ir assms(2)
      by (cases "lib_append ?lib (j_taken s) (take (Suc k) (j_to s))")
        (simp_all add: proceed_def read_answer_def goes_on_def append_plan_def
          take_input.simps [of _ _ "proc w ws (_ # is) e"] sys_read_some)
  next
    case ended
    then show ?thesis using h ir assms(2)
      by (cases "lib_done ?lib (j_taken s)")
        (simp_all add: proceed_def read_answer_def goes_on_def done_plan_def take_input.simps [of _ _ "proc w ws (_ # is) e"])
  next
    case interrupted
    then show ?thesis using h ir assms(2)
      by (simp add: proceed_def read_answer_def take_input.simps [of _ _ "proc w ws (_ # is) e"])
  next
    case unread
    then show ?thesis using h ir assms(2)
      by (simp add: proceed_def read_answer_def take_input.simps [of _ _ "proc w ws (_ # is) e"])
  qed
  with h ir show ?thesis by simp
qed

text \<open>One step of the helper: its answers at the head of the scripts.\<close>

definition carries_on :: "hmove \<Rightarrow> bool" where
  "carries_on m \<longleftrightarrow> (case m of H_crash sig \<Rightarrow> False | H_unplaced \<Rightarrow> False | H_unexecuted \<Rightarrow> False | _ \<Rightarrow> True)"

lemma proceed_step:
  assumes "hmove_step K P m s = Some t" "carries_on m" "j_noise s = []"
  shows "seen (proceed P (j_helper s) (j_taken s) (setup_reads (hevents P m s) @ ses)
      (proc w (writes (hevents P m s) @ ws) (input_reads (hevents P m s) @ is) e))
    = seen (proceed P (j_helper t) (j_taken t) ses
      (proc (w @ put_out (hevents P m s)) ws is (e @ told (hevents P m s))))"
proof (cases "j_helper s")
  case H_exec
  with assms(1,2) have "t = s\<lparr>j_helper := hstart P\<rparr>" "hevents P m s = []"
    by (auto simp: hmove_step_def exec_move_def carries_on_def hevents_def split: hmove.splits)
  with H_exec show ?thesis by (simp add: hstart_def proceed_def read_setup_def after_setup_def)
next
  case (H_setup cap buf)
  with assms(1,2) have m: "setup_move P m cap buf s = Some t"
    by (auto simp: hmove_step_def carries_on_def split: hmove.splits)
  have e: "input_reads (map SetupRead xs) = []" "writes (map SetupRead xs) = []" "put_out (map SetupRead xs) = []"
    "told (map SetupRead xs) = []" for xs by (induction xs) simp_all
  obtain xs where x: "hevents P m s = map SetupRead xs" using proceed_setup(2) [OF m H_setup] by metis
  show ?thesis using proceed_setup(1) [OF m H_setup] by (simp add: e x)
next
  case (H_do as th)
  have p: "plan_move K P m as th s = Some t"
    using assms H_do by (auto simp: hmove_step_def carries_on_def split: hmove.splits)
  show ?thesis
  proof (cases as)
    case (Cons x r)
    show ?thesis
    proof (cases x)
      case (Say y)
      with p Cons have "say_move K m y r th s = Some t" by (simp add: plan_move_def)
      from proceed_say [OF this, of P] H_do Cons Say show ?thesis by simp
    next
      case (Send y)
      with p Cons have "send_move K m y r th s = Some t" by (simp add: plan_move_def)
      from proceed_send [OF this, of P] H_do Cons Send show ?thesis by simp
    qed
  next
    case Nil
    show ?thesis
    proof (cases th)
      case (Exit st)
      with p Nil H_do show ?thesis by (auto simp: plan_move_def hevents_def proceed_def split: if_splits)
    next
      case Input
      with p Nil have m: "input_move P m s = Some t" by (simp add: plan_move_def)
      have e: "setup_reads (map InputRead xs) = []" "writes (map InputRead xs) = []" "put_out (map InputRead xs) = []"
        "told (map InputRead xs) = []" for xs by (induction xs) simp_all
      have h: "j_helper s = H_do [] Input" using H_do Nil Input by simp
      obtain xs where x: "hevents P m s = map InputRead xs" using proceed_input [OF m h] by metis
      show ?thesis using proceed_input [OF m h] by (simp add: e x)
    qed
  qed
next
  case (H_exited v)
  with assms(1) show ?thesis by (cases m) (simp_all add: hmove_step_def)
qed

text \<open>All the steps, up to the end of the program.\<close>

lemma exited_stays: "jlog env K P ms s = Some (tr, t) \<Longrightarrow> j_helper s = H_exited v \<Longrightarrow> j_helper t = H_exited v \<and> tr = []"
proof (induction env K P ms s arbitrary: tr rule: jlog.induct)
  case (2 env K P m ms s)
  then obtain u where u: "jdo env K P m s = Some u" by (auto split: option.splits)
  have "j_helper u = H_exited v \<and> (case m of Helper h \<Rightarrow> hevents P h s | Backend b \<Rightarrow> []) = []"
  proof (cases m)
    case (Backend b)
    with u "2.prems"(2) bmove_frame(1) [of env K b s u] show ?thesis by (simp add: jdo_def)
  next
    case (Helper h)
    with u "2.prems"(2) have False by (cases h) (simp_all add: jdo_def hmove_step_def)
    then show ?thesis ..
  qed
  with "2.IH" [OF u] "2.prems"(1) u show ?case by auto
qed simp

lemma hmove_noise: "hmove_step K P m s = Some t \<Longrightarrow> j_noise s = [] \<Longrightarrow> j_noise t = []"
  by (erule hmove_cases) auto

lemma hmove_leaves_exec:
  assumes "hmove_step K P m s = Some t"
  shows "j_helper t \<noteq> H_exec"
  using assms
proof (cases rule: hmove_cases)
  case interrupted
  with assms show ?thesis by (auto simp: hmove_step_def exec_move_def)
qed (auto simp: hstart_def)

lemma not_carried_on:
  assumes "hmove_step K P m s = Some t" "\<not> carries_on m"
  shows "hevents P m s = [] \<and> ((\<exists>sig. 0 < sig \<and> sig < 127 \<and> j_helper t = H_exited (int sig))
    \<or> j_helper s = H_exec \<and> (\<exists>st. (st = 126 \<or> st = 127) \<and> j_helper t = H_exited (256 * int st)))"
  using assms
  by (cases m; cases "j_helper s")
    (auto simp: carries_on_def hmove_step_def exec_move_def setup_move_def plan_move_def say_move_def send_move_def input_move_def
      write_fails_def hevents_def read_answer_def split: option.splits list.splits haction.splits hthen.splits if_splits)

lemma jlog_proceeds:
  "jlog env K P ms s = Some (tr, t) \<Longrightarrow> j_noise s = [] \<Longrightarrow> j_helper t = H_exited (256 * int st) \<Longrightarrow>
     j_helper s = H_exec \<and> tr = [] \<and> (st = 126 \<or> st = 127)
     \<or> seen (proceed P (j_helper s) (j_taken s) (setup_reads tr) (proc w (writes tr) (input_reads tr) e))
        = Some (st, w @ put_out tr, e @ told tr)"
proof (induction env K P ms s arbitrary: tr w e rule: jlog.induct)
  case (1 env K P s)
  then show ?case by (simp add: proceed_def)
next
  case (2 env K P m ms s)
  then obtain u us where u: "jdo env K P m s = Some u" "jlog env K P ms u = Some (us, t)"
    and tr: "tr = (case m of Helper h \<Rightarrow> hevents P h s | Backend b \<Rightarrow> []) @ us"
    by (auto split: option.splits)
  note ih = "2.IH" [OF u(1,2) _ "2.prems"(3)]
  show ?case
  proof (cases m)
    case (Backend b)
    with u(1) have "bmove_step env K b s = Some u" by (simp add: jdo_def)
    from bmove_frame(1-3) [OF this] ih "2.prems"(2) tr Backend show ?thesis by simp
  next
    case (Helper h)
    with u(1) have h: "hmove_step K P h s = Some u" by (simp add: jdo_def)
    show ?thesis
    proof (cases "carries_on h")
      case True
      from ih [OF hmove_noise [OF h "2.prems"(2)], of "w @ put_out (hevents P h s)" "e @ told (hevents P h s)"]
        hmove_leaves_exec [OF h] proceed_step [OF h True "2.prems"(2), of "setup_reads us" w "writes us" "input_reads us" e] tr Helper
      show ?thesis by simp
    next
      case False
      note n = not_carried_on [OF h False]
      then obtain v where v: "j_helper u = H_exited v" by blast
      from exited_stays [OF u(2) v] "2.prems"(3) have "us = []" "v = 256 * int st" by simp_all
      moreover have "256 * int st \<noteq> int sig" if "0 < sig" "sig < 127" for sig using that by presburger
      ultimately show ?thesis using n v tr Helper by auto
    qed
  qed
qed

text \<open>The bytes written are those the backend has received or will find in the channel.\<close>

lemma hmove_data:
  assumes "hmove_step K P m s = Some t"
  shows "j_from t = j_from s @ put_out (hevents P m s)"
proof (cases "j_helper s")
  case H_exec
  with assms show ?thesis by (cases m) (auto simp: hmove_step_def exec_move_def hevents_def split: if_splits)
next
  case (H_setup cap buf)
  have e: "put_out (map SetupRead xs) = []" for xs by (induction xs) simp_all
  from assms show ?thesis by (cases rule: hmove_cases) (use H_setup in \<open>auto simp: hevents_def e\<close>)
next
  case (H_do as th)
  have e: "put_out (map InputRead xs) = []" for xs by (induction xs) simp_all
  show ?thesis
  proof (cases "\<exists>x r. as = Send x # r \<and> x \<noteq> []")
    case True
    with assms H_do show ?thesis
      by (cases m) (auto simp: hmove_step_def plan_move_def send_move_def write_fails_def hevents_def split: if_splits list.splits)
  next
    case False
    then have "put_out (hevents P m s) = []"
      by (auto simp: hevents_def H_do e split: list.split haction.split hthen.split hmove.split)
    moreover have "j_from t = j_from s"
      using assms by (cases rule: hmove_cases) (use H_do False in auto)
    ultimately show ?thesis by simp
  qed
next
  case (H_exited v)
  with assms show ?thesis by (cases m) (simp_all add: hmove_step_def)
qed

lemma bmove_data:
  assumes "bmove_step env K m s = Some t"
  shows "bc_got (j_conf t) @ j_from t = bc_got (j_conf s) @ j_from s"
proof -
  obtain a u c where k: "kernel_answer K m s = Some (a, u)" "bnext env a (j_conf s) = Some c" "t = u\<lparr>j_conf := c\<rparr>"
    using assms by (rule bmove_cases)
  have "bc_got (j_conf s) @ delivered a @ j_from u = bc_got (j_conf s) @ j_from s"
    using k(1)
  proof (cases rule: kernel_cases)
    case (put ch bs n)
    then show ?thesis by (cases ch) (simp_all add: put_to_def delivered_def)
  next
    case (data n x xs)
    then have "delivered a @ j_from u = take (Suc n) (j_from s) @ drop (Suc n) (j_from s)" by (simp add: delivered_def)
    then show ?thesis by (simp del: append_assoc add: append_assoc [symmetric])
  next
    case (err n x xs)
    then show ?thesis by (simp add: delivered_def)
  qed simp
  with bnext_got [OF k(2)] k(3) show ?thesis by simp
qed

lemma jlog_data:
  "jlog env K P ms s = Some (tr, t) \<Longrightarrow> bc_got (j_conf t) @ j_from t = bc_got (j_conf s) @ j_from s @ put_out tr"
proof (induction env K P ms s arbitrary: tr rule: jlog.induct)
  case (2 env K P m ms s)
  then obtain u us where u: "jdo env K P m s = Some u" "jlog env K P ms u = Some (us, t)"
    and tr: "tr = (case m of Helper h \<Rightarrow> hevents P h s | Backend b \<Rightarrow> []) @ us"
    by (auto split: option.splits)
  have "bc_got (j_conf u) @ j_from u
      = bc_got (j_conf s) @ j_from s @ put_out (case m of Helper h \<Rightarrow> hevents P h s | Backend b \<Rightarrow> [])"
  proof (cases m)
    case (Backend b)
    with u(1) bmove_data show ?thesis by (simp add: jdo_def)
  next
    case (Helper h)
    with u(1) have "hmove_step K P h s = Some u" by (simp add: jdo_def)
    with hmove_data [OF this] hmove_alive [OF this] Helper show ?thesis by simp
  qed
  with "2.IH" [OF u] tr show ?case by simp
qed simp

text \<open>
  C15. The helper of the two-process machine is the helper program. Take any run of the two processes,
  under any scheduler and with any failing calls of either, that ends with the helper's exit: either the child never
  became the helper (status 126 or 127), or the answers the kernel gave to the helper on its setup pipe, its
  standard input and its standard output are scripts on which \<open>main\<close> of \<open>chdb_helper.c\<close> ends with that
  exit status, with the output the backend has received or will find in the data channel, and with
  the error text the machine handed to its error channel. Only the library's own error output is
  left out.
\<close>

theorem machine_is_helper:
  assumes "jlog env K P ms (jstart [] payload ops b) = Some (tr, s)" and "j_helper s = H_exited (256 * int st)"
  shows "tr = [] \<and> (st = 126 \<or> st = 127)
    \<or> (\<exists>p. helper_main (pr_alloc P) (pr_endian P) (pr_lib P) (setup_reads tr)
            \<lparr>out = [], out_wr = writes tr, in_ev = input_reads tr, err_out = [], lib_calls = []\<rparr> = Some (st, p)
          \<and> out p = bc_got (j_conf s) @ j_from s \<and> err_out p = told tr)"
proof -
  let ?p = "proc [] (writes tr) (input_reads tr) []"
  let ?h = "helper_main (pr_alloc P) (pr_endian P) (pr_lib P) (setup_reads tr) ?p"
  have d: "bc_got (j_conf s) @ j_from s = put_out tr" using jlog_data [OF assms(1)] by (simp add: jstart_def bstart_def)
  have f: "forget ?p = ?p" by (simp add: forget_def proc_def)
  have "seen (proceed P H_exec [] (setup_reads tr) ?p) = seen (forgotten ?h)"
    using plan_is_helper [of P "setup_reads tr" ?p] by (simp add: proceed_def f)
  also have "\<dots> = seen ?h" by (cases ?h) auto
  finally have h: "seen (proceed P H_exec [] (setup_reads tr) ?p) = seen ?h" .
  from jlog_proceeds [OF assms(1) _ assms(2), of "[]" "[]"]
  have "tr = [] \<and> (st = 126 \<or> st = 127) \<or> seen ?h = Some (st, put_out tr, told tr)"
    using h by (auto simp: jstart_def)
  then show ?thesis using d by (auto simp: proc_def)
qed

lemma jrun_jlog: "jrun env K P ms s = Some t \<Longrightarrow> \<exists>tr. jlog env K P ms s = Some (tr, t)"
  by (induction env K P ms s rule: jrun.induct) (auto split: option.splits)

theorem machine_is_helper_witness:
  "\<exists>payload tr s p. jlog ex_env ex_kernel ex_program (from_schedule (length payload - 1))
       (jstart [] payload (map OpRecv [9, 9, 9]) ex_forked) = Some (tr, s)
     \<and> helper_main (pr_alloc ex_program) (pr_endian ex_program) (pr_lib ex_program) (setup_reads tr)
         \<lparr>out = [], out_wr = writes tr, in_ev = input_reads tr, err_out = [], lib_calls = []\<rparr> = Some (0, p)
     \<and> out p = ''abc''"
proof -
  obtain payload where p: "payload \<noteq> []" "length payload \<le> 1000"
    "parse_setup (pr_alloc ex_program) (pr_endian ex_program) payload
       = Inr \<lparr>req_ctx = ex_ctx, req_timezone = ''UTC'', req_query = ''SELECT 1'', req_params = []\<rparr>"
    using ex_request [of ex_ctx] by auto
  obtain s where s: "jrun ex_env ex_kernel ex_program (from_schedule (length payload - 1))
      (jstart [] payload (map OpRecv [9, 9, 9]) ex_forked) = Some s" "j_helper s = H_exited 0"
    "bc_got (j_conf s) @ j_from s = ''abc''"
    using ex_from_run [OF p] by blast
  obtain tr where tr: "jlog ex_env ex_kernel ex_program (from_schedule (length payload - 1))
      (jstart [] payload (map OpRecv [9, 9, 9]) ex_forked) = Some (tr, s)"
    using jrun_jlog [OF s(1)] by blast
  from machine_is_helper [OF tr, of 0] s(2,3) tr show ?thesis by fastforce
qed

end
