(* ===== verification/Spec2Isabelle.thy ===== *)
theory Spec2Isabelle
  imports Utility_Hook Helper_Main Helper_Report Stream_Reads Joint_Examples Helper_Plan
begin

text \<open>
  Verification of \<open>pg_chdb\<close>, the PostgreSQL extension that runs chDB (ClickHouse as a library)
  for \<open>chdb_query\<close>, for COPY from and to URLs and for CREATE TABLE from a URL.

  \<^bold>\<open>The program.\<close> A backend never links chDB. \<open>src/hook/hook.c\<close> takes over the utility statements
  that name a URL, checks what PostgreSQL would check, and fills a copy context from the
  statement's options; \<open>src/hook/create.c\<close> derives a new table's columns from a URL;
  \<open>src/hook/copy.c\<close> turns a context into a ClickHouse query with bound parameters;
  \<open>src/helper.c\<close> starts the program \<open>src/helper/chdb_helper.c\<close> on it over a socket and two pipes and owns
  that process until it has been waited for; \<open>src/native.c\<close> moves rows as Native blocks in both
  directions. \<open>src/chdb.c\<close> is the set-returning function, \<open>src/gucs.h\<close> the settings and \<open>src/setup.h\<close> the
  payload that both sides share.

  \<^bold>\<open>Theories, in dependency order.\<close>
  \<^item> \<open>Chdb_Prelude\<close>: error reports as values, the error monad, the C string functions, decimal
    conversion, bounds of 16- and 32-bit words.
  \<^item> \<open>Posix_Channel\<close>: pipes as scripts of what \<open>read\<close> and \<open>write\<close> answer, the outcome of a backend
    operation (return, raise, still waiting), and the contract \<open>byte_sink\<close> of an ordered byte stream.
  \<^item> \<open>Wire_Setup\<close> (\<open>build_setup\<close> of \<open>helper.c\<close>; \<open>read_setup\<close>, \<open>take1\<close>, \<open>take2\<close>, \<open>take_str\<close> and the parsing half
    of \<open>main\<close> of \<open>chdb_helper.c\<close>): the payload as bytes in either byte order.
  \<^item> \<open>Settings\<close> (\<open>gucs.h\<close>, \<open>_PG_init\<close>, the casts of \<open>chdb_query\<close>, \<open>setup_session\<close>).
  \<^item> \<open>Copy_Context\<close> (\<open>copy.h\<close>, \<open>scheme_for\<close>), \<open>Url\<close> (S3, GCS, Azure and file URLs of \<open>copy.c\<close>), \<open>Ch_Query\<close>
    (\<open>make_ch_query\<close>), \<open>Structure_Clause\<close> (\<open>structure_for_attnums\<close>, \<open>structure_as_string\<close>).
  \<^item> \<open>Fd_Table\<close> (the child between \<open>fork\<close> and \<open>execv\<close>), \<open>Helper_Process\<close> (all other functions of
    \<open>helper.c\<close> over the record \<open>backend\<close>), \<open>Helper_Lifecycle\<close>, \<open>Helper_Streams\<close> and \<open>Helper_Report\<close> (what they
    guarantee), \<open>Helper_Main\<close> (the helper program).
  \<^item> \<open>Native_Send\<close> and \<open>Native_Receive\<close> (the two halves of \<open>native.c\<close>), \<open>Native_Effects\<close> (what a COPY FROM does
    to its table), \<open>Stream_Reads\<close> (how the decoder
    reads the helper's output), \<open>Copy_Run\<close> (\<open>chdb_copy\<close>, \<open>chdb_describe\<close>, \<open>chdb_query\<close>).
  \<^item> \<open>Copy_Options\<close> (\<open>contextualize_options\<close>), \<open>Create_Table\<close> (\<open>create.c\<close>), \<open>Utility_Hook\<close> (the rest of
    \<open>hook.c\<close>). This theory composes the two processes call by call.
  \<^item> \<open>Backend_Steps\<close> (\<open>helper.c\<close> one system call at a time), \<open>Joint_Run\<close> (the helper program likewise, and both
    running side by side over bounded channels, from the child before its \<open>execv\<close> on, with failing calls of
    either of them), \<open>Helper_Plan\<close> (every run of the helper's machine that has ended did what the program of
    \<open>Helper_Main\<close> does on the same answers of the operating system, and has its exit status), \<open>Joint_Safety\<close> (what a returned copy may rely on), \<open>Joint_Progress\<close> (the measure of the work
    left, and that some step always helps), \<open>Joint_Success\<close> (how a copy ends), \<open>Joint_Examples\<close> (runs).

  \<^bold>\<open>State.\<close> A \<open>backend\<close> holds the descriptor table, the struct \<open>chdbHelper\<close>, the answers the operating
  system will give, and a record of what left the process: bytes per channel, process calls and how
  the forked child went on. An \<open>hproc\<close> is the helper's standard streams and its calls into the
  library. A \<open>nativeInsert\<close> keeps the insert buffer of \<open>native.c\<close> and a log of table effects. A
  \<open>session\<close> is what a statement changes: helper, tables, catalog, open relations, locks,
  completion tag, notices, the caller's parse tree as far as a statement has changed it when it fails, and whether the
  process has crashed on a missing \<open>QueryCompletion\<close>. A \<open>joint\<close> state is the backend at a control point
  of its loops (\<open>bconf\<close>), the helper with what it has still to do (\<open>hstate\<close>), and the bytes in the four
  channels between them.

  \<^bold>\<open>What is shown.\<close>
  Statements: no COPY and no CREATE TABLE reaches chDB before every privilege and precondition holds,
  an allowed one is exactly the copy of its context, and all others reach the previous hook
  unchanged; options are accepted exactly when each is acceptable; derived columns have usable
  types and their structure survives the escaping.
  Queries: the text never depends on a caller's string, its placeholders are exactly the bound
  parameters, only two user errors are possible, and the structure clause names the copied columns.
  Process: descriptors never leak, a forked child is waited for exactly once, the helper gets exactly
  its four channels, writes and reads keep order, finishing ends with the verdict of the exit status,
  and reports carry the captured text.
  Helper program: complete results and inserts for status 0, the documented exit statuses, every
  library handle destroyed once.
  Rows: blocks are the scanned rows in order; the buffer of a COPY FROM is invisible, errors of
  defaults, tables, indexes and triggers included, as long as neither a default nor a constraint looks at the table,
  and a default that does sees the table without the rows of its batch (\<open>default_misses_buffer\<close>); every
  attribute of a stored row has its value from the right place, counts are the stored rows.
  Both sides: the helper runs exactly the request of the backend, a COPY TO delivers the table, and a
  result that is cut short never looks complete to the backend.
  Side by side, for every scheduler, every size of the channels and every way the kernel cuts reads and
  writes: a copy that returns is complete, whatever crashed, failed or was cancelled in either process; without
  a failing system call of the backend it can always be brought to its end, because the backend drains the error channel
  whenever the data channel blocks; without any fault nothing is raised and the end is success. A
  write that fails for another reason than a closed channel is the exception: the report that follows
  waits for a helper that waits for input (\<open>failed_write_hangs\<close>).

  \<^bold>\<open>Interfaces.\<close> \<open>byte_sink\<close> is interpreted for the helper's data channel, the buffered sink of
  \<open>native.c\<close> and the helper's standard output; \<open>report_invariant\<close> and \<open>helper_invariant\<close> (kept by every
  operation on a helper, however it ends) for descriptor ownership, process accounting, the child's
  wiring, the captured error text, the exit status to come and the bytes sent; \<open>live_copy\<close> and \<open>well_copy\<close>
  (what makes a copy end, and end well) for both directions; \<open>codec\<close> for the fields of the payload; \<open>row_store\<close>
  for buffered and direct inserts.

  \<^bold>\<open>Termination and bounds.\<close> No fuel is used. A loop over system calls recurs on the script of answers,
  and a script that runs out is an operation still waiting (\<open>Waiting\<close>, \<open>None\<close>); the
  properties say which scripts let it return. In the joint runs every step but a round of polling decreases
  a well-founded measure (\<open>joint_measure\<close>); that the polling ends is stated as an end being in
  reach from every state, so a scheduler that keeps running both processes gets there. Buffers and limits have the sizes of the sources (4096
  bytes of error text, 16 MiB of payload, 8 MiB blocks, 256 KiB of sink, 1000 rows or 64 KiB of insert
  buffer), and the 16-, 32- and 64-bit integers are words.

  \<^bold>\<open>Parameters.\<close> Code outside the repository is an argument of the definitions that call it: libchdb
  (\<open>chdb_lib\<close>), clickhouse-c and pg-clickhouse-c (\<open>writer_lib\<close>, \<open>native_reader\<close>, \<open>pgch_types\<close>,
  \<open>type_lib\<close>), PostgreSQL (\<open>pg_port\<close>, \<open>helper_env\<close>, \<open>executor\<close>, \<open>def_lib\<close>, \<open>catalog_lib\<close>, \<open>hook_env\<close>).

  \<^bold>\<open>Not modelled.\<close> Memory contexts, except the reset callback that stops the helper; the signal
  dispositions set between \<open>fork\<close> and \<open>execv\<close>; the tuples captured for transition tables, and the setup and teardown of the
  executor; the timing of \<open>wait_fd\<close>, which
  is a pause of bounded length between two rounds of a loop; that libchdb may close or keep descriptors of
  its own;
  the decoding of the bytes read through \<open>source_read\<close> into rows (a parameter, \<open>ce_pull\<close>).
\<close>

section \<open>From the backend to the helper\<close>

text \<open>
  C5. The helper runs exactly the request of the backend: when \<open>chdb_helper_start\<close> has returned and the
  setup pipe delivers what was written to it, in whatever pieces, the helper program goes on with
  the command, the settings, the time zone, the query text and the parameters that were asked for.
\<close>

theorem request_transfer:
  assumes "chdb_helper_start env ctx query params s = Return u t" and "sent_setup s = []"
    and "clean_stream {EINTR} setup_ev" and "stream_bytes setup_ev = sent_setup t"
    and "length (sent_setup t) < CHDB_SETUP_MAX" and "\<forall>n. alloc n"
    and "length (session_timezone env) < 2 ^ 32" and "length query < 2 ^ 32"
    and "list_all param_ok params" and "length params < 2 ^ 16"
  shows "helper_main alloc (byte_order env) lib setup_ev p =
    run_request alloc lib \<lparr>req_ctx = ctx, req_timezone = session_timezone env, req_query = query, req_params = params\<rparr> p"
proof -
  obtain payload where b: "build_setup (byte_order env) (session_timezone env) ctx query params = Inr payload"
    "sent_setup t = payload"
    using start_Return_setup [OF assms(1)] assms(2) by auto
  have "read_setup alloc setup_ev = Some (Inr payload)"
    using read_setup_spec [OF assms(3,6)] assms(4,5) b(2) by simp
  with parse_of_build [OF b(1) assms(7-10,6)] show ?thesis by (simp add: helper_main_def)
qed

theorem request_transfer_witness:
  "\<exists>t. chdb_helper_start ex_env ex_ctx ''SELECT 1'' [] ex_backend = Return () t
     \<and> helper_main (\<lambda>_. True) Little ex_lib [Data (hd (sent_setup t)) (tl (sent_setup t)), ReadErr EINTR, Eof] ex_proc
       = run_request (\<lambda>_. True) ex_lib \<lparr>req_ctx = ex_ctx, req_timezone = ''UTC'', req_query = ''SELECT 1'', req_params = []\<rparr> ex_proc"
proof -
  obtain t f where t: "chdb_helper_start ex_env ex_ctx ''SELECT 1'' [] ex_backend = Return () t"
    "build_setup Little ''UTC'' ex_ctx ''SELECT 1'' [] = Inr (sent_setup t)"
    by (rule ex_start) blast
  obtain payload where "build_setup Little ''UTC'' ex_ctx ''SELECT 1'' [] = Inr payload" "payload \<noteq> []" "length payload \<le> 1000"
    by (rule ex_payload)
  with t(2) have p: "sent_setup t \<noteq> []" "length (sent_setup t) \<le> 1000" by simp_all
  have e: "session_timezone ex_env = ''UTC''" "byte_order ex_env = Little" "sent_setup ex_backend = []"
    by (simp_all add: ex_env_def ex_backend_def)
  have "helper_main (\<lambda>_. True) (byte_order ex_env) ex_lib [Data (hd (sent_setup t)) (tl (sent_setup t)), ReadErr EINTR, Eof] ex_proc
       = run_request (\<lambda>_. True) ex_lib \<lparr>req_ctx = ex_ctx, req_timezone = session_timezone ex_env, req_query = ''SELECT 1'', req_params = []\<rparr> ex_proc"
    by (rule request_transfer [OF t(1)]) (use p in \<open>simp_all add: e CHDB_SETUP_MAX_def\<close>)
  with t(1) e show ?thesis by auto
qed

text \<open>
  C17. A COPY TO that returns has delivered the table: if the helper's insert on the stream the backend
  sent ends with status 0, what it has appended to chDB is the Native encoding, block by block, of
  the cells of all the scanned rows in order, and their number is the count the COPY returns.
\<close>

theorem copy_to_delivers:
  assumes "chdb_copy ce rel ctx w = Return n t" and "cx_cmd_type ctx \<noteq> CHDB_CMD_SELECT"
    and "sent_data (wd_helper w) = []"
    and "run_insert alloc lib query par p = Some (Status 0, p')"
    and "stream_bytes (in_ev p) = sent_data (wd_helper t)" and "appended (lib_calls p) = []"
  shows "\<exists>cols cells blocks.
      list_all2 (slot_cells (ce_writer ce) cols (rd_att rel) (cx_attnums ctx)) (ce_scan ce rel) cells
      \<and> concat blocks = cells \<and> n = length (concat blocks)
      \<and> appended (lib_calls p') = concat (map (block_bytes (ce_writer ce) cols) blocks)"
proof -
  obtain cols cells where c: "n = length (ce_scan ce rel)"
    "list_all2 (slot_cells (ce_writer ce) cols (rd_att rel) (cx_attnums ctx)) (ce_scan ce rel) cells"
    "sent_data (wd_helper t) = concat (map (block_bytes (ce_writer ce) cols) (cut_blocks (ce_writer ce) [] cells))"
    using copy_Return [OF assms(1)] assms(2,3) by auto
  have "concat (cut_blocks (ce_writer ce) [] cells) = cells" by (simp add: concat_cut_blocks)
  moreover have "length cells = n" using c(1,2) by (simp add: list_all2_lengthD)
  moreover have "appended (lib_calls p') = concat (map (block_bytes (ce_writer ce) cols) (cut_blocks (ce_writer ce) [] cells))"
    using run_insert_appended [OF assms(4)] assms(5,6) c(3) by simp
  ultimately show ?thesis using c(2) by metis
qed

text \<open>A table of one row, copied out.\<close>

definition ex_out :: chdbCopyContext where
  "ex_out = (example_context hdfs_scheme CHDB_CMD_INSERT ''hdfs://h/f'')\<lparr>cx_attnums := [1]\<rparr>"

lemma ex_out_runs: "\<exists>t. chdb_copy ex_command ex_rel ex_out ex_world = Return 1 t \<and> sent_data (wd_helper t) = ''x''"
proof -
  obtain q p where q: "make_ch_query unix_port ex_out = Inr (q, p)" "small_request q p"
    by (simp add: query_eval example_context_def az_example_def ex_out_def)
  then obtain b where b: "build_setup Little ''UTC'' (copy_helper_context ex_out) q p = Inr b" "b \<noteq> []" "length b \<le> 1000"
    by blast
  obtain h where h: "chdb_helper_start ex_env (copy_helper_context ex_out) q p ex_backend = Return () h"
    "wait_ev h = [WaitErr EINTR, Ended 0]" "h_err (hp h) = 2" "\<not> h_reaped (hp h)" "intr h = []"
    "err_ev h = err_ev ex_backend" "h_data (hp h) = 0" "data_wr h = data_wr ex_backend" "sent_data h = []"
    by (rule ex_start_any [OF b])
  define k where "k = channel_accept DataChannel [WriteErr EAGAIN, Accept 99] ''x'' h"
  have w: "chdb_helper_write ex_env ''x'' h = Return () k"
    using h by (simp add: chdb_helper_write_def write_all_once channel_fd_def channel_wr_def ex_backend_def k_def)
  obtain k' where f: "chdb_helper_finish ex_env k = Return () k'"
    using ex_finish [of k] h by (auto simp: k_def channel_accept_def)
  have i: "check_for_interrupts h = Return () h" using h(5) by (simp add: check_for_interrupts_def)
  have wr: "writer_for ex_writer ''id Int32'' 1 = Inr \<lparr>w_cols = [(''a'', ''String'')], w_rows = [], w_null_array_empty = False\<rparr>"
    by (simp add: writer_for_def ex_writer_def)
  have s: "chdb_copy_send ex_env ex_writer ex_rel [[Some ''x'']] ''id Int32'' [1] h = Return 1 k"
    using w i wr by (simp add: chdb_copy_send_def ex_writer_def ex_rel_def sink_for_def on_sink_def put_row_def
        Let_def send_block_def sink_write_def sink_flush_def CHDB_NATIVE_BLOCK_BYTES_def
        CHDB_NATIVE_SINK_DIRECT_def CHDB_NATIVE_SINK_BYTES_def)
  have cs: "copy_structure P pc desc ex_out = ''id Int32''" for P pc desc
    by (simp add: copy_structure_def ex_out_def example_context_def)
  have c0: "ex_out\<lparr>cx_structure := ''id Int32''\<rparr> = ex_out" "cx_structure ex_out = ''id Int32''"
    "cx_attnums ex_out = [1]" "cx_cmd_type ex_out = CHDB_CMD_INSERT"
    by (simp_all add: ex_out_def example_context_def az_example_def)
  have "sent_data k' = ''x''" using chdb_helper_finish_Return [OF f] h(9) by (simp add: k_def channel_accept_def)
  then show ?thesis
    using q(1) h(1) f s
    by (simp add: chdb_copy_def Let_def cs c0 on_world_def send_from_def ex_command_def ex_world_def)
qed

theorem copy_to_delivers_witness:
  "\<exists>t p'. chdb_copy ex_command ex_rel ex_out ex_world = Return 1 t
     \<and> run_insert (\<lambda>_. True) ex_lib ''q'' [] (ex_proc\<lparr>in_ev := [Data CHR ''x'' [], Eof]\<rparr>) = Some (Status 0, p')
     \<and> (\<exists>cols cells blocks. list_all2 (slot_cells ex_writer cols (rd_att ex_rel) [1]) [[Some ''x'']] cells
          \<and> concat blocks = cells \<and> appended (lib_calls p') = concat (map (block_bytes ex_writer cols) blocks))"
proof -
  obtain t where t: "chdb_copy ex_command ex_rel ex_out ex_world = Return 1 t" "sent_data (wd_helper t) = ''x''"
    using ex_out_runs by blast
  let ?p = "ex_proc\<lparr>in_ev := [Data CHR ''x'' [], Eof]\<rparr>"
  obtain p' where p: "run_insert (\<lambda>_. True) ex_lib ''q'' [] ?p = Some (Status 0, p')"
    by (simp add: run_insert_def ex_lib_def ex_proc_def call_def append_blocks.simps Let_def CHDB_HELPER_IO_BYTES_def)
  have e: "cx_cmd_type ex_out \<noteq> CHDB_CMD_SELECT" "sent_data (wd_helper ex_world) = []"
    "stream_bytes (in_ev ?p) = sent_data (wd_helper t)" "appended (lib_calls ?p) = []"
    using t(2) by (simp_all add: ex_out_def example_context_def ex_world_def ex_backend_def ex_proc_def)
  have x: "cx_attnums ex_out = [1]" "ce_writer ex_command = ex_writer" "ce_scan ex_command ex_rel = [[Some ''x'']]"
    by (simp_all add: ex_out_def ex_command_def)
  from copy_to_delivers [OF t(1) e(1,2) p e(3,4)] t(1) p show ?thesis unfolding x by blast
qed

text \<open>
  C18. A result that is cut short never looks complete. Let the helper run a SELECT and the backend read
  its output in pieces of any size: the bytes read so far are always the head of chDB's result,
  and once a read reports the end of the stream, the helper's exit status was 0, chDB reported
  no error, and the bytes read are the whole result.
\<close>

theorem copy_from_delivers:
  assumes "run_select lib query par p = Some (Status st, p')" and "lib_stream_error lib query par = None"
    and "chunks_value (lib_fetch lib query par) = (result, failure)" and "out p = []"
    and "stream_bytes (data_ev s) = out p'"
    and "\<not> h_reaped (hp s)" and "waitpid_loop (wait_ev s) = Some ((256 * int st, None), es)"
    and "refills env lens s = Return (bs, ended) t" and "list_all ((<) 0) lens"
  shows "prefix bs result \<and> (ended \<longrightarrow> st = 0 \<and> failure = None \<and> bs = result)"
proof -
  have o: "prefix (out p') result" "st = 0 \<Longrightarrow> failure = None \<and> out p' = result"
    using run_select_out [OF assms(1-3)] assms(4) by auto
  have d: "status_due (256 * int st) s" using assms(6,7) by (simp add: status_due_def)
  note r = refills_stream [OF assms(8,9), of "256 * int st"]
  have "prefix bs result" using r o(1) assms(5) by auto
  moreover have "st = 0 \<and> failure = None \<and> bs = result" if ended
  proof -
    have "bs = out p'" "h_reaped (hp t)" "h_status (hp t) = 0" "status_due (256 * int st) t"
      using r d that assms(5) by auto
    with o(2) show ?thesis by (auto simp: status_due_def)
  qed
  ultimately show ?thesis by blast
qed

theorem copy_from_delivers_witness:
  "\<exists>p' s t. run_select ex_lib ''q'' [] ex_proc = Some (Status 0, p')
     \<and> refills ex_env [2, 5, 5] s = Return (''abc'', True) t \<and> data_ev s = [Data CHR ''a'' ''bc'', Eof]"
proof -
  define s where "s = ex_backend\<lparr>data_ev := [Data CHR ''a'' ''bc'', Eof], wait_ev := [Ended 0], err_ev := [Eof],
    hp := (new_helper [])\<lparr>h_data := 5, h_err := 6\<rparr>\<rparr>"
  obtain p' where p: "run_select ex_lib ''q'' [] ex_proc = Some (Status 0, p')" "out p' = ''abc''"
    by (simp add: run_select_def ex_lib_def ex_proc_def call_def write_out.simps Let_def)
  obtain bs t where t: "refills ex_env [2, 5, 5] s = Return (bs, True) t"
    by (simp add: s_def refill_def source_cancelled_def source_read_def check_for_interrupts_def chdb_helper_recv.simps
        read_data_def recv_end_def drain_and_reap.simps drain_err.simps close_data_def close_err_def reap_def
        ex_backend_def new_helper_def err_room_def CHDB_HELPER_ERR_MAX_def Let_def)
  have "prefix bs ''abc'' \<and> (True \<longrightarrow> (0 :: nat) = 0 \<and> (None :: string option) = None \<and> bs = ''abc'')"
    by (rule copy_from_delivers [OF p(1) _ _ _ _ _ _ t])
      (simp_all add: p(2) s_def ex_lib_def ex_proc_def ex_backend_def new_helper_def)
  with p(1) t show ?thesis by (auto simp: s_def)
qed

end
